(* ===== verification/Prelude.thy ===== *)
theory Prelude imports Main "HOL-Library.Word" "HOL-Library.Monad_Syntax" begin

text \<open>
  What the components share: the C integer types of the target as machine words, facts that
  carry a signed 32 bit value over to \<open>size_t\<close>, and the list facts behind a write into
  the middle of a byte buffer. A function of the program whose execution may have undefined
  behaviour (an access outside a live object, a second free) or may not return is a HOL function
  into \<open>option\<close>, and \<open>None\<close> stands for "no defined result"; so a theorem that such a
  function returns \<open>Some\<close> says at once that it is memory safe and that it returns.
\<close>

unbundle bit_operations_syntax

section \<open>C types of the target (LP64, little endian)\<close>

type_synonym byte = "8 word"
type_synonym cint = "32 word"
type_synonym uint32 = "32 word"
type_synonym size_t = "64 word"
type_synonym addr = nat

text \<open>A pointer into an object: the object's address and an offset in bytes.\<close>

type_synonym ptr = "addr \<times> nat"

abbreviation (input) INT_MAX :: size_t where "INT_MAX \<equiv> 0x7fffffff"
abbreviation (input) SIZE_MAX :: size_t where "SIZE_MAX \<equiv> 0xffffffffffffffff"
abbreviation (input) INT_MIN :: cint where "INT_MIN \<equiv> 0x80000000"

text \<open>The casts of the code: \<open>(size_t)i\<close> sign-extends an int, \<open>(int)n\<close> truncates.\<close>

abbreviation (input) size_of_int :: "cint \<Rightarrow> size_t" where "size_of_int i \<equiv> scast i"
abbreviation (input) int_of_size :: "size_t \<Rightarrow> cint" where "int_of_size n \<equiv> ucast n"

text \<open>The collections the proofs draw on: \<open>csimps\<close> evaluates primitive memory operations,
  \<open>sbuf_ops\<close> holds the defining equations of the string buffer's operations.\<close>

named_theorems csimps
named_theorems sbuf_ops
named_theorems hook_defs

section \<open>Words\<close>

lemma int_mod_below:
  fixes x m :: int
  assumes "m \<le> x" "x < 2 * m"
  shows "x mod m = x - m"
  using assms mod_pos_pos_trivial [of "x - m" m] by (simp only: minus_mod_self2)

lemma sint_as_uint:
  fixes w :: cint
  shows "sint w = (if uint w < 2 ^ 31 then uint w else uint w - 2 ^ 32)"
proof -
  have u: "0 \<le> uint w" "uint w < 4294967296" using uint_lt2p [of w] by simp_all
  have "sint w = (uint w + 2147483648) mod 4294967296 - 2147483648"
    by (simp add: sint_uint signed_take_bit_eq_take_bit_shift take_bit_eq_mod)
  also have "\<dots> = (if uint w < 2147483648 then uint w else uint w - 4294967296)"
  proof (cases "uint w < 2147483648")
    case True
    then show ?thesis using u by (simp add: mod_pos_pos_trivial)
  next
    case False
    then have "(uint w + 2147483648) mod 4294967296 = uint w + 2147483648 - 4294967296"
      using u by (intro int_mod_below) linarith+
    with False show ?thesis by simp
  qed
  finally show ?thesis by simp
qed

lemma uint_less_unat: "uint w < numeral k \<longleftrightarrow> unat w < numeral k"
proof -
  have w: "int (unat w) = uint w" by simp
  have "unat w < numeral k \<longleftrightarrow> int (unat w) < int (numeral k)" by (simp only: of_nat_less_iff)
  then show ?thesis by (simp only: w of_nat_numeral)
qed

lemma sint_as_unat:
  fixes w :: cint
  shows "sint w = (if unat w < 2 ^ 31 then int (unat w) else int (unat w) - 2 ^ 32)"
  using sint_as_uint [of w] by (simp add: uint_less_unat)

lemma sint_nonneg_iff:
  fixes w :: cint
  shows "0 \<le> sint w \<longleftrightarrow> unat w < 2 ^ 31"
  using uint_lt2p [of w] by (simp add: sint_as_unat)

lemma sint_nonneg:
  fixes w :: cint
  shows "unat w < 2 ^ 31 \<Longrightarrow> sint w = int (unat w)"
  by (simp add: sint_as_unat)

lemma unat_scast_nonneg:
  fixes w :: cint
  assumes "unat w < 2 ^ 31"
  shows "unat (scast w :: size_t) = unat w"
proof -
  have "(scast w :: size_t) = of_nat (unat w)"
    using assms by (simp add: scast_eq sint_as_unat)
  then have "unat (scast w :: size_t) = unat (of_nat (unat w) :: size_t)" by (simp only:)
  also have "\<dots> = unat w" using assms by (simp only: unat_of_nat) simp
  finally show ?thesis .
qed

lemma unat_scast_negative:
  fixes w :: cint
  assumes "2 ^ 31 \<le> unat w"
  shows "2 ^ 63 \<le> unat (scast w :: size_t)"
proof -
  have b: "uint w < 4294967296" "2147483648 \<le> uint w"
    using uint_lt2p [of w] assms by (simp_all add: uint_less_unat not_less [symmetric])
  have "uint (scast w :: size_t) = (uint w - 4294967296) mod 18446744073709551616"
    using b by (simp only: scast_eq sint_as_uint uint_word_of_int) simp
  also have "\<dots> = uint w - 4294967296 + 18446744073709551616"
    using b mod_pos_pos_trivial [of "uint w - 4294967296 + 18446744073709551616" 18446744073709551616]
    by (simp only: mod_add_self2)
  finally have "\<not> uint (scast w :: size_t) < 9223372036854775808" using b by linarith
  then show ?thesis by (simp add: uint_less_unat)
qed

section \<open>Byte buffers\<close>

text \<open>Overwriting \<open>bs\<close> into a buffer from offset \<open>k\<close>.\<close>

definition splice :: "'a list \<Rightarrow> nat \<Rightarrow> 'a list \<Rightarrow> 'a list" where
  "splice c k bs = take k c @ bs @ drop (k + length bs) c"

lemma length_splice [simp]:
  "k + length bs \<le> length c \<Longrightarrow> length (splice c k bs) = length c"
  by (simp add: splice_def)

lemma take_splice_before [simp]:
  "n \<le> k \<Longrightarrow> k \<le> length c \<Longrightarrow> take n (splice c k bs) = take n c"
  by (simp add: splice_def min_def)

lemma take_splice_through [simp]:
  "k + length bs \<le> length c \<Longrightarrow> take (k + length bs) (splice c k bs) = take k c @ bs"
  by (simp add: splice_def)

lemma splice_nil [simp]: "splice c k [] = c"
  by (simp add: splice_def)

lemma splice_zero_full: "length bs = length c \<Longrightarrow> splice c 0 bs = bs"
  by (simp add: splice_def)

lemma nth_splice_at [simp]: "k < length c \<Longrightarrow> splice c k [x] ! k = x"
  by (simp add: splice_def nth_append)

end
