(* ===== verification/Kmem.thy ===== *)
theory Kmem imports Prelude begin

text \<open>
  Kernel memory as the string buffer library sees it, and the allocation layer of
  \<open>lib/libkern-bsd\<close>: the wrappers of \<open>malloc.c\<close>, the zero-in-place \<open>malloc()\<close> macro of
  \<open>include/sys/malloc.h\<close>, and the \<open>kalloc_*\<close>/\<open>kfree_*\<close> macros with which \<open>sbuf.c\<close> is
  adapted to \<open>_MALLOC()\<close>/\<open>_FREE()\<close>. The kernel's \<open>_MALLOC()\<close> is not part of the program: it
  is a parameter, and the locale \<open>malloc_contract\<close> states what its documentation promises.
\<close>

section \<open>The heap\<close>

text \<open>
  Live character arrays, live structures of type \<open>'s\<close>, and the addresses that came from
  \<open>_MALLOC()\<close> and may therefore be given to \<open>_FREE()\<close> (a caller's stack array is live
  but not owned). An access outside a live object, and a free of anything that is not an owned
  live object, has no defined result.
\<close>

record 's heap =
  hp_data :: "addr \<Rightarrow> byte list option"
  hp_obj :: "addr \<Rightarrow> 's option"
  hp_owned :: "addr set"

text \<open>Memory is finite: only finitely many addresses are in use.\<close>

definition hp_finite :: "'s heap \<Rightarrow> bool" where
  "hp_finite h \<longleftrightarrow> finite (dom (hp_data h)) \<and> finite (dom (hp_obj h)) \<and> finite (hp_owned h)"

definition put_obj :: "'s heap \<Rightarrow> addr \<Rightarrow> 's \<Rightarrow> 's heap" where
  "put_obj h s v = h\<lparr>hp_obj := (hp_obj h)(s \<mapsto> v)\<rparr>"

definition put_data :: "'s heap \<Rightarrow> addr \<Rightarrow> byte list \<Rightarrow> 's heap" where
  "put_data h a c = h\<lparr>hp_data := (hp_data h)(a \<mapsto> c)\<rparr>"

definition load_bytes :: "'s heap \<Rightarrow> ptr \<Rightarrow> nat \<Rightarrow> byte list option" where
  "load_bytes h p n =
     (if n = 0 then Some []
      else do {
        c \<leftarrow> hp_data h (fst p);
        if snd p + n \<le> length c then Some (take n (drop (snd p) c)) else None })"

definition store_bytes :: "'s heap \<Rightarrow> ptr \<Rightarrow> byte list \<Rightarrow> 's heap option" where
  "store_bytes h p bs =
     (if bs = [] then Some h
      else do {
        c \<leftarrow> hp_data h (fst p);
        if snd p + length bs \<le> length c then Some (put_data h (fst p) (splice c (snd p) bs))
        else None })"

text \<open>The C library's \<open>bcopy\<close> (source first) and \<open>strlen\<close>.\<close>

definition bcopy :: "'s heap \<Rightarrow> ptr \<Rightarrow> ptr \<Rightarrow> nat \<Rightarrow> 's heap option" where
  "bcopy h src dst n = do { bs \<leftarrow> load_bytes h src n; store_bytes h dst bs }"

definition strlen :: "'s heap \<Rightarrow> ptr \<Rightarrow> size_t option" where
  "strlen h p = do {
     c \<leftarrow> hp_data h (fst p);
     if 0 \<in> set (drop (snd p) c)
     then Some (of_nat (length (takeWhile (\<lambda>x. x \<noteq> 0) (drop (snd p) c)))) else None }"

text \<open>The string a pointer denotes: the bytes up to the first nul.\<close>

definition cstring_at :: "'s heap \<Rightarrow> ptr \<Rightarrow> byte list \<Rightarrow> bool" where
  "cstring_at h p bs \<longleftrightarrow> 0 \<notin> set bs \<and> length bs < 2 ^ 64 \<and>
     load_bytes h p (Suc (length bs)) = Some (bs @ [0])"

section \<open>The allocator\<close>

text \<open>The allocation type and flags of the kernel's \<open>sys/malloc.h\<close>.\<close>

abbreviation (input) M_TEMP :: cint where "M_TEMP \<equiv> 80"
abbreviation (input) M_WAITOK :: cint where "M_WAITOK \<equiv> 0"
abbreviation (input) M_ZERO :: cint where "M_ZERO \<equiv> 4"

text \<open>
  \<open>_MALLOC(size, type, flags)\<close>: \<open>None\<close> is \<open>NULL\<close>; otherwise the address of the new object
  and what its bytes hold.
\<close>

type_synonym 's allocator = "'s heap \<Rightarrow> size_t \<Rightarrow> cint \<Rightarrow> cint \<Rightarrow> (addr \<times> byte list) option"

locale malloc_contract =
  fixes MALLOC :: "'s allocator"
  assumes malloc_fresh: "MALLOC h n ty fl = Some (a, c) \<Longrightarrow>
      hp_data h a = None \<and> hp_obj h a = None \<and> a \<notin> hp_owned h"
    and malloc_size: "MALLOC h n ty fl = Some (a, c) \<Longrightarrow> length c = unat n"
    and malloc_zero: "MALLOC h n ty fl = Some (a, c) \<Longrightarrow> fl AND M_ZERO \<noteq> 0 \<Longrightarrow>
      c = replicate (unat n) 0"

section \<open>lib/libkern-bsd/malloc.c and the malloc() macro\<close>

definition lib_malloc :: "'s allocator \<Rightarrow> 's allocator" where
  "lib_malloc MALLOC h sz ty flags = MALLOC h sz ty flags"

text \<open>\<open>memset(p, 0, n)\<close> on the bytes of a new object.\<close>

definition memset0 :: "byte list \<Rightarrow> nat \<Rightarrow> byte list option" where
  "memset0 c n = (if n \<le> length c then Some (splice c 0 (replicate n 0)) else None)"

text \<open>
  The macro: \<open>const\<close> says whether \<open>size\<close> and \<open>flags\<close> are compile-time constants. The outer
  \<open>None\<close> is undefined behaviour (zeroing through \<open>NULL\<close>), the inner one a \<open>NULL\<close> result.
\<close>

definition malloc_macro ::
  "cint \<Rightarrow> 's allocator \<Rightarrow> bool \<Rightarrow> 's heap \<Rightarrow> size_t \<Rightarrow> cint \<Rightarrow> cint \<Rightarrow>
     (addr \<times> byte list) option option" where
  "malloc_macro waitok MALLOC const h sz ty flags =
     (if const \<and> flags AND M_ZERO \<noteq> 0 then
        (case lib_malloc MALLOC h sz ty (flags AND NOT M_ZERO) of
           None \<Rightarrow> (if flags AND waitok \<noteq> 0 then None else Some None)
         | Some (a, c) \<Rightarrow> do { c \<leftarrow> memset0 c (unat sz); Some (Some (a, c)) })
      else Some (lib_malloc MALLOC h sz ty flags))"

section \<open>The kalloc macros of sbuf.c\<close>

definition Z_WAITOK :: cint where "Z_WAITOK = 0x0001"
definition Z_ZERO :: cint where "Z_ZERO = 0x0004"

definition kalloc_data :: "'s allocator \<Rightarrow> 's heap \<Rightarrow> size_t \<Rightarrow> cint \<Rightarrow> addr option \<times> 's heap" where
  "kalloc_data MALLOC h sz flags =
     (case MALLOC h sz M_TEMP (if flags AND Z_ZERO \<noteq> 0 then M_WAITOK OR M_ZERO else M_WAITOK) of
        None \<Rightarrow> (None, h)
      | Some (a, c) \<Rightarrow> (Some a, put_data (h\<lparr>hp_owned := insert a (hp_owned h)\<rparr>) a c))"

text \<open>
  \<open>kalloc_type(type, flags)\<close> for a structure of \<open>size\<close> bytes whose all-zero value is \<open>zero\<close>;
  the program only calls it with \<open>Z_ZERO\<close>, so the new object holds that value.
\<close>

definition kalloc_type ::
  "'s allocator \<Rightarrow> 's heap \<Rightarrow> size_t \<Rightarrow> cint \<Rightarrow> 's \<Rightarrow> addr option \<times> 's heap" where
  "kalloc_type MALLOC h sz flags zero =
     (case MALLOC h sz M_TEMP (if flags AND Z_ZERO \<noteq> 0 then M_WAITOK OR M_ZERO else M_WAITOK) of
        None \<Rightarrow> (None, h)
      | Some (a, c) \<Rightarrow> (Some a, put_obj (h\<lparr>hp_owned := insert a (hp_owned h)\<rparr>) a zero))"

text \<open>\<open>_FREE()\<close> of a character array and of a structure.\<close>

definition free_data :: "'s heap \<Rightarrow> addr \<Rightarrow> 's heap option" where
  "free_data h a =
     (if a \<in> hp_owned h \<and> hp_data h a \<noteq> None
      then Some (h\<lparr>hp_data := (hp_data h)(a := None), hp_owned := hp_owned h - {a}\<rparr>) else None)"

definition free_obj :: "'s heap \<Rightarrow> addr \<Rightarrow> 's heap option" where
  "free_obj h a =
     (if a \<in> hp_owned h \<and> hp_obj h a \<noteq> None
      then Some (h\<lparr>hp_obj := (hp_obj h)(a := None), hp_owned := hp_owned h - {a}\<rparr>) else None)"

definition lib_free :: "'s heap \<Rightarrow> addr \<Rightarrow> cint \<Rightarrow> 's heap option" where
  "lib_free h a ty = free_data h a"

definition kfree_data :: "'s heap \<Rightarrow> addr \<Rightarrow> size_t \<Rightarrow> 's heap option" where
  "kfree_data h a sz = free_data h a"

definition kfree_type :: "'s heap \<Rightarrow> addr \<Rightarrow> 's heap option" where
  "kfree_type h a = free_obj h a"

section \<open>Facts\<close>

lemma put_obj_simps [simp]:
  "hp_obj (put_obj h s v) = (hp_obj h)(s \<mapsto> v)"
  "hp_data (put_obj h s v) = hp_data h"
  "hp_owned (put_obj h s v) = hp_owned h"
  by (simp_all add: put_obj_def)

lemma put_data_simps [simp]:
  "hp_data (put_data h a c) = (hp_data h)(a \<mapsto> c)"
  "hp_obj (put_data h a c) = hp_obj h"
  "hp_owned (put_data h a c) = hp_owned h"
  by (simp_all add: put_data_def)

lemma load_bytes_zero [simp]: "load_bytes h p 0 = Some []"
  by (simp add: load_bytes_def)

lemma length_load_bytes: "load_bytes h p n = Some bs \<Longrightarrow> length bs = n"
  by (auto simp: load_bytes_def split: if_splits bind_splits)

lemma load_bytes_cong:
  "hp_data h' (fst p) = hp_data h (fst p) \<Longrightarrow> load_bytes h' p n = load_bytes h p n"
  by (simp add: load_bytes_def)

lemma load_bytes_whole:
  "hp_data h a = Some c \<Longrightarrow> n \<le> length c \<Longrightarrow> load_bytes h (a, 0) n = Some (take n c)"
  by (simp add: load_bytes_def)

lemma store_bytes_in:
  "hp_data h a = Some c \<Longrightarrow> k + length bs \<le> length c \<Longrightarrow>
   store_bytes h (a, k) bs = Some (if bs = [] then h else put_data h a (splice c k bs))"
  by (simp add: store_bytes_def)

lemma strlen_cstring:
  assumes "cstring_at h p bs"
  shows "strlen h p = Some (of_nat (length bs))" "load_bytes h p (length bs) = Some bs"
proof -
  from assms obtain c where c: "hp_data h (fst p) = Some c" "snd p + Suc (length bs) \<le> length c"
      and t: "take (Suc (length bs)) (drop (snd p) c) = bs @ [0]" and z: "0 \<notin> set bs"
    by (auto simp: cstring_at_def load_bytes_def split: if_splits bind_splits)
  from t have d: "drop (snd p) c = bs @ 0 # drop (Suc (length bs)) (drop (snd p) c)"
    by (metis append_Cons append_assoc append_take_drop_id self_append_conv2)
  have "takeWhile (\<lambda>x. x \<noteq> 0) (drop (snd p) c) = bs"
    using z by (subst d, subst takeWhile_append2) auto
  moreover have "0 \<in> set (drop (snd p) c)" by (subst d) simp
  ultimately show "strlen h p = Some (of_nat (length bs))" using c by (simp add: strlen_def)
  have "take (length bs) (drop (snd p) c) = bs" by (subst d) simp
  then show "load_bytes h p (length bs) = Some bs" using c by (simp add: load_bytes_def)
qed

text \<open>What the two allocation macros do, over the contract of \<open>_MALLOC()\<close>.\<close>

context malloc_contract begin

lemma kalloc_data_cases:
  obtains (null) "kalloc_data MALLOC h n fl = (None, h)"
  | (new) a c where "kalloc_data MALLOC h n fl =
        (Some a, put_data (h\<lparr>hp_owned := insert a (hp_owned h)\<rparr>) a c)"
      "hp_data h a = None" "hp_obj h a = None" "a \<notin> hp_owned h" "length c = unat n"
  using malloc_fresh malloc_size
  by (cases "MALLOC h n M_TEMP (if fl AND Z_ZERO \<noteq> 0 then M_WAITOK OR M_ZERO else M_WAITOK)")
    (auto simp: kalloc_data_def)

lemma kalloc_type_cases:
  obtains (null) "kalloc_type MALLOC h n fl z = (None, h)"
  | (new) a where "kalloc_type MALLOC h n fl z =
        (Some a, put_obj (h\<lparr>hp_owned := insert a (hp_owned h)\<rparr>) a z)"
      "hp_data h a = None" "hp_obj h a = None" "a \<notin> hp_owned h"
  using malloc_fresh
  by (cases "MALLOC h n M_TEMP (if fl AND Z_ZERO \<noteq> 0 then M_WAITOK OR M_ZERO else M_WAITOK)")
    (auto simp: kalloc_type_def)

text \<open>
  The library's \<open>malloc()\<close> keeps the kernel's contract, so every client of \<open>_MALLOC()\<close> may be
  given it instead.
\<close>

lemma malloc_macro_total:
  "\<exists>r. malloc_macro M_WAITOK MALLOC const h n ty fl = Some r"
  by (auto simp: malloc_macro_def lib_malloc_def memset0_def malloc_size split: option.split)

lemma malloc_macro_Some:
  assumes "malloc_macro M_WAITOK MALLOC const h n ty fl = Some (Some (a, c))"
  shows "hp_data h a = None \<and> hp_obj h a = None \<and> a \<notin> hp_owned h"
    and "length c = unat n"
    and "fl AND M_ZERO \<noteq> 0 \<Longrightarrow> c = replicate (unat n) 0"
  using assms
  by (auto simp: malloc_macro_def lib_malloc_def memset0_def splice_zero_full malloc_size
      dest: malloc_fresh malloc_size malloc_zero split: option.splits if_splits)

end

locale kernel_malloc = kernel: malloc_contract MALLOC for MALLOC :: "'s allocator"

sublocale kernel_malloc \<subseteq> lib: malloc_contract "lib_malloc MALLOC"
  by unfold_locales
    (auto simp: lib_malloc_def dest: kernel.malloc_fresh kernel.malloc_size kernel.malloc_zero)

sublocale kernel_malloc \<subseteq> mac:
    malloc_contract "\<lambda>h n ty fl. the (malloc_macro M_WAITOK MALLOC const h n ty fl)" for const
proof
  fix h n ty fl a c
  assume "the (malloc_macro M_WAITOK MALLOC const h n ty fl) = Some (a, c)"
  then have r: "malloc_macro M_WAITOK MALLOC const h n ty fl = Some (Some (a, c))"
    using kernel.malloc_macro_total [of const h n ty fl] by auto
  show "hp_data h a = None \<and> hp_obj h a = None \<and> a \<notin> hp_owned h" "length c = unat n"
    "fl AND M_ZERO \<noteq> 0 \<Longrightarrow> c = replicate (unat n) 0"
    by (rule kernel.malloc_macro_Some [OF r])+ assumption?
qed

section \<open>An allocator that keeps the contract\<close>

text \<open>
  The lowest free address of a window, or one above all of memory; fresh memory holds a
  recognisable pattern unless \<open>M_ZERO\<close> is asked for. It never fails on a finite heap. It stands for
  the kernel wherever a concrete run is evaluated.
\<close>

definition unused :: "'s heap \<Rightarrow> addr \<Rightarrow> bool" where
  "unused h a \<longleftrightarrow> hp_data h a = None \<and> hp_obj h a = None \<and> a \<notin> hp_owned h"

definition above_all :: "'s heap \<Rightarrow> addr" where
  "above_all h = Suc (Max (insert 0 (dom (hp_data h) \<union> dom (hp_obj h) \<union> hp_owned h)))"

definition new_bytes :: "size_t \<Rightarrow> cint \<Rightarrow> byte list" where
  "new_bytes n fl = replicate (unat n) (if fl AND M_ZERO \<noteq> 0 then 0 else 0xa5)"

definition first_fit :: "'s allocator" where
  "first_fit h n ty fl =
     (case find (unused h) [100..<164] of
        Some a \<Rightarrow> Some (a, new_bytes n fl)
      | None \<Rightarrow> if hp_finite h then Some (above_all h, new_bytes n fl) else None)"

lemma above_all_unused: "hp_finite h \<Longrightarrow> unused h (above_all h)"
proof -
  let ?A = "insert 0 (dom (hp_data h) \<union> dom (hp_obj h) \<union> hp_owned h)"
  assume "hp_finite h"
  then have "finite ?A" by (simp add: hp_finite_def)
  then have "x \<in> ?A \<Longrightarrow> x < above_all h" for x
    using Max_ge [of ?A x] unfolding above_all_def less_Suc_eq_le by blast
  then have "above_all h \<notin> ?A" by blast
  then show ?thesis by (auto simp: unused_def)
qed

lemma first_fit_Some:
  assumes "first_fit h n ty fl = Some (a, c)"
  shows "unused h a \<and> c = new_bytes n fl"
  using assms above_all_unused [of h]
  by (auto simp: first_fit_def find_Some_iff split: option.splits if_splits)

lemma first_fit_total: "hp_finite h \<Longrightarrow> first_fit h n ty fl \<noteq> None"
  by (simp add: first_fit_def split: option.split)

interpretation first_fit: malloc_contract first_fit
proof
  fix h :: "'s heap" and n :: size_t and ty fl :: cint and a :: addr and c :: "byte list"
  assume "first_fit h n ty fl = Some (a, c)"
  note r = first_fit_Some [OF this]
  show "hp_data h a = None \<and> hp_obj h a = None \<and> a \<notin> hp_owned h"
    using r by (simp add: unused_def)
  show "length c = unat n" using r by (simp add: new_bytes_def)
  show "fl AND M_ZERO \<noteq> 0 \<Longrightarrow> c = replicate (unat n) 0" using r by (simp add: new_bytes_def)
qed

text \<open>The library's own \<open>malloc()\<close>, function and macro, over it.\<close>

interpretation first_fit_lib: kernel_malloc first_fit
  by unfold_locales

end
