(* ===== verification/Sbuf_Inv.thy ===== *)
theory Sbuf_Inv imports Sbuf begin

text \<open>
  The representation invariant of a string buffer and the growth of its backing buffer: flag
  algebra, the doubling loop, \<open>sbuf_extendsize\<close> against a reference, the capacity, and what
  \<open>sbuf_extend\<close> and \<open>sbuf_ensure_capacity\<close> do to the heap.
\<close>

section \<open>Flags\<close>

lemmas sbuf_flag_consts =
  SBUF_FIXEDLEN_def SBUF_AUTOEXTEND_def SBUF_USRFLAGMSK_def SBUF_DYNAMIC_def SBUF_FINISHED_def
  SBUF_OVERFLOWED_def SBUF_DYNSTRUCT_def

lemmas sbuf_flag_tests =
  SBUF_CANEXTEND_def SBUF_HASOVERFLOWED_def SBUF_ISDYNAMIC_def SBUF_ISDYNSTRUCT_def
  SBUF_ISFINISHED_def

lemma isset_setflag: "SBUF_ISSET (SBUF_SETFLAG v f) g \<longleftrightarrow> SBUF_ISSET v g \<or> f AND g \<noteq> 0"
  by (simp add: SBUF_ISSET_def SBUF_SETFLAG_def bit.conj_disj_distrib2 or_eq_0_iff)

lemma isset_clearflag_same: "\<not> SBUF_ISSET (SBUF_CLEARFLAG v f) f"
  by (simp add: SBUF_ISSET_def SBUF_CLEARFLAG_def and.assoc)

lemma isset_clearflag_other:
  "f AND g = 0 \<Longrightarrow> SBUF_ISSET (SBUF_CLEARFLAG v f) g \<longleftrightarrow> SBUF_ISSET v g"
proof -
  assume "f AND g = 0"
  then have "(s_flags v AND NOT f) AND g = s_flags v AND g"
    by (auto simp: bit_eq_iff bit_simps)
  then show ?thesis by (simp add: SBUF_ISSET_def SBUF_CLEARFLAG_def)
qed

lemma flag_updates [simp]:
  "s_buf (SBUF_SETFLAG v f) = s_buf v" "s_size (SBUF_SETFLAG v f) = s_size v"
  "s_len (SBUF_SETFLAG v f) = s_len v" "s_buf (SBUF_CLEARFLAG v f) = s_buf v"
  "s_size (SBUF_CLEARFLAG v f) = s_size v" "s_len (SBUF_CLEARFLAG v f) = s_len v"
  "s_flags (SBUF_SETFLAG v f) = s_flags v OR f"
  "s_flags (SBUF_CLEARFLAG v f) = s_flags v AND NOT f"
  by (simp_all add: SBUF_SETFLAG_def SBUF_CLEARFLAG_def)

lemma isset_cong:
  "SBUF_ISSET (v\<lparr>s_buf := x\<rparr>) f = SBUF_ISSET v f"
  "SBUF_ISSET (v\<lparr>s_size := y\<rparr>) f = SBUF_ISSET v f"
  "SBUF_ISSET (v\<lparr>s_len := z\<rparr>) f = SBUF_ISSET v f"
  by (simp_all add: SBUF_ISSET_def)

text \<open>All a proof needs about flags.\<close>

lemmas flag_simps = sbuf_flag_tests isset_setflag isset_clearflag_same isset_clearflag_other
  isset_cong sbuf_flag_consts

section \<open>The doubling loop returns\<close>

lemma sbuf_double_returns:
  assumes "unat new = 2 ^ j" "j \<le> 63" "unat target \<le> 2 ^ 63"
  shows "\<exists>r k. sbuf_double new target = Some r \<and> unat r = 2 ^ k \<and> j \<le> k \<and>
    unat target \<le> 2 ^ k \<and> (k = j \<or> 2 ^ k < 2 * unat target)"
  using assms
proof (induction "63 - j" arbitrary: j new)
  case 0
  then have "\<not> new < target" by (simp add: word_less_nat_alt)
  then show ?case using 0 by (intro exI [of _ new] exI [of _ j]) (simp add: sbuf_double.simps)
next
  case (Suc d)
  show ?case
  proof (cases "new < target")
    case False
    then show ?thesis using Suc.prems
      by (intro exI [of _ new] exI [of _ j]) (simp add: sbuf_double.simps word_less_nat_alt not_less)
  next
    case True
    have j: "j < 63" using Suc.hyps(2) by simp
    then have "(2 :: nat) ^ Suc j < 2 ^ 64"
      by (intro power_strict_increasing) simp_all
    then have u: "unat (new * 2) = 2 ^ Suc j"
      using Suc.prems(1) by (simp add: unat_word_ariths)
    have "d = 63 - Suc j" using Suc.hyps(2) by simp
    from Suc.hyps(1) [OF this u] j Suc.prems(3) obtain r k where
      r: "sbuf_double (new * 2) target = Some r" "unat r = 2 ^ k" "Suc j \<le> k"
        "unat target \<le> 2 ^ k" "k = Suc j \<or> 2 ^ k < 2 * unat target" by auto
    have "2 ^ k < 2 * unat target"
      using r(5) True Suc.prems(1) by (auto simp: word_less_nat_alt)
    with r True show ?thesis
      by (intro exI [of _ r] exI [of _ k]) (simp add: sbuf_double.simps)
  qed
qed

section \<open>sbuf_extendsize against a reference\<close>

text \<open>Rounding up to a multiple of a power of two, on words.\<close>

lemma unat_and_not_mask:
  fixes w :: size_t
  shows "unat (w AND NOT (mask n)) = unat w - unat w mod 2 ^ n"
proof -
  have "w - take_bit n w = w AND NOT (take_bit n w)"
    by (rule disjunctive_diff_eq_and_not) (auto simp: bit_eq_iff bit_simps)
  then have "w AND NOT (mask n) = w - take_bit n w"
    by (auto simp: bit_eq_iff bit_simps)
  moreover have t: "unat (take_bit n w) = unat w mod 2 ^ n"
  proof -
    have "unat (take_bit n w) = take_bit n (unat w)" by (rule unsigned_take_bit_eq)
    also have "\<dots> = unat w mod 2 ^ n" by (rule take_bit_eq_mod)
    finally show ?thesis .
  qed
  moreover have "take_bit n w \<le> w"
    by (simp only: word_le_nat_alt t mod_less_eq_dividend)
  ultimately show ?thesis by (simp only: unat_sub)
qed

text \<open>The kernel the library needs: a \<open>_MALLOC()\<close> that keeps its contract, and a page size
  that is a power of two between 16 bytes and 1 GB.\<close>

locale sbuf_kernel = malloc_contract "ke_malloc E" for E :: kenv +
  assumes page_shift: "4 \<le> ke_page_shift E" "ke_page_shift E \<le> 30"
begin

lemma page_power: "(16 :: nat) \<le> 2 ^ ke_page_shift E" "(2 :: nat) ^ ke_page_shift E \<le> 2 ^ 30"
  using power_increasing [OF page_shift(1), of "2 :: nat"]
    power_increasing [OF page_shift(2), of "2 :: nat"] by simp_all

lemma unat_PAGE_SIZE: "unat (PAGE_SIZE E) = 2 ^ ke_page_shift E"
proof -
  have "PAGE_SIZE E = of_nat (2 ^ ke_page_shift E)" by (simp add: PAGE_SIZE_def push_bit_eq_mult)
  then have "unat (PAGE_SIZE E) = 2 ^ ke_page_shift E mod 2 ^ 64" by (simp only: unat_of_nat) simp
  then show ?thesis using page_power by simp
qed

lemma PAGE_MASK_mask: "PAGE_MASK E = mask (ke_page_shift E)"
  by (simp add: PAGE_MASK_def PAGE_SIZE_def mask_eq_decr_exp push_bit_eq_mult)

lemma unat_round_up:
  assumes "unat t < 2 ^ 31"
  shows "unat ((t + PAGE_SIZE E - 1) AND NOT (PAGE_MASK E)) =
    (unat t + 2 ^ ke_page_shift E - 1) div 2 ^ ke_page_shift E * 2 ^ ke_page_shift E"
proof -
  let ?p = "2 ^ ke_page_shift E :: nat"
  have a: "unat (t + PAGE_SIZE E) = unat t + ?p"
    using assms page_power by (simp add: unat_word_ariths unat_PAGE_SIZE)
  then have "1 \<le> t + PAGE_SIZE E" using page_power by (simp add: word_le_nat_alt)
  then have "unat (t + PAGE_SIZE E - 1) = unat t + ?p - 1" by (simp add: unat_sub a)
  then show ?thesis
    by (simp only: PAGE_MASK_mask unat_and_not_mask minus_mod_eq_div_mult)
qed

lemma sbuf_extendsize_page:
  assumes "unat t \<le> unat INT_MAX" "2 ^ ke_page_shift E \<le> unat t"
  defines "n \<equiv> (unat t + 2 ^ ke_page_shift E - 1) div 2 ^ ke_page_shift E * 2 ^ ke_page_shift E"
  shows "sbuf_extendsize E t =
    Some (if n > unat INT_MAX then (-1, t) else (0, (t + PAGE_SIZE E - 1) AND NOT (PAGE_MASK E)))"
proof -
  have "unat ((t + PAGE_SIZE E - 1) AND NOT (PAGE_MASK E)) = n"
    using assms(1) unat_round_up [of t] by (simp add: n_def)
  then show ?thesis using assms(1,2)
    by (simp add: sbuf_extendsize_def SBUF_MAXEXTENDSIZE_def word_less_nat_alt unat_PAGE_SIZE)
qed

lemma sbuf_extendsize_small:
  assumes "unat t < 2 ^ ke_page_shift E"
  obtains n k where "sbuf_extendsize E t = Some (0, n)" "unat n = 2 ^ k" "4 \<le> k"
    "unat t \<le> 2 ^ k" "k = 4 \<or> 2 ^ k < 2 * unat t"
proof -
  have t: "unat t < 2 ^ 30" using assms page_power by simp
  obtain n k where r: "sbuf_double SBUF_MINEXTENDSIZE t = Some n" "unat n = 2 ^ k" "4 \<le> k"
      "unat t \<le> 2 ^ k" "k = 4 \<or> 2 ^ k < 2 * unat t"
    using sbuf_double_returns [of SBUF_MINEXTENDSIZE 4 t] t by (auto simp: SBUF_MINEXTENDSIZE_def)
  then have "unat n < 2 ^ 31" using t by auto
  then have "sbuf_extendsize E t = Some (0, n)"
    using r(1) assms t
    by (simp add: sbuf_extendsize_def SBUF_MAXEXTENDSIZE_def word_less_nat_alt unat_PAGE_SIZE)
  then show thesis using r by (intro that)
qed

text \<open>What the growth code needs of it.\<close>

lemma sbuf_extendsize_cases:
  obtains (fail) "sbuf_extendsize E t = Some (-1, t)" "2 ^ 31 < unat t + 2 ^ ke_page_shift E"
  | (size) n where "sbuf_extendsize E t = Some (0, n)" "unat t \<le> unat n" "16 \<le> unat n"
      "unat n < 2 ^ 31"
proof (cases "unat t < 2 ^ ke_page_shift E")
  case True
  then obtain n k where r: "sbuf_extendsize E t = Some (0, n)" "unat n = 2 ^ k" "4 \<le> k"
      "unat t \<le> 2 ^ k" "k = 4 \<or> 2 ^ k < 2 * unat t" by (rule sbuf_extendsize_small)
  have "unat n < 2 ^ 31" using r(2,5) True page_power by auto
  moreover have "16 \<le> unat n" using power_increasing [OF r(3), of "2 :: nat"] r(2) by simp
  ultimately show thesis using size [OF r(1)] r(2,4) by simp
next
  case False
  show thesis
  proof (cases "unat t \<le> unat INT_MAX")
    case True
    let ?p = "2 ^ ke_page_shift E :: nat"
    let ?n = "(unat t + ?p - 1) div ?p * ?p"
    have "?n = unat t + ?p - 1 - (unat t + ?p - 1) mod ?p" by (simp only: minus_mod_eq_div_mult)
    moreover have "(unat t + ?p - 1) mod ?p < ?p" by simp
    ultimately have n: "unat t \<le> ?n" "?n < unat t + ?p" by linarith+
    show thesis
    proof (cases "?n > unat INT_MAX")
      case big: True
      then have "sbuf_extendsize E t = Some (-1, t)"
        using sbuf_extendsize_page [OF True] False by simp
      then show thesis using n big by (intro fail) simp_all
    next
      case ok: False
      then have "sbuf_extendsize E t = Some (0, (t + PAGE_SIZE E - 1) AND NOT (PAGE_MASK E))"
        using sbuf_extendsize_page [OF True] False by simp
      then show thesis
        using size [of "(t + PAGE_SIZE E - 1) AND NOT (PAGE_MASK E)"] n ok unat_round_up [of t]
          True False page_power by simp
    qed
  next
    case big: False
    then have "sbuf_extendsize E t = Some (-1, t)"
      by (simp add: sbuf_extendsize_def word_less_nat_alt)
    then show thesis using big page_power by (intro fail) simp_all
  qed
qed

end

section \<open>A kernel\<close>

text \<open>An arm64 kernel (pages of 16 kB) over the allocator of \<open>Kmem\<close>, for concrete runs.\<close>

definition arm64_kernel :: kenv where
  "arm64_kernel = \<lparr>ke_malloc = first_fit, ke_page_shift = 14\<rparr>"

lemma sbuf_kernel_arm64: "sbuf_kernel arm64_kernel"
  by unfold_locales
    (auto simp: arm64_kernel_def dest: first_fit.malloc_fresh first_fit.malloc_size
      first_fit.malloc_zero)

interpretation arm64: sbuf_kernel arm64_kernel
  by (rule sbuf_kernel_arm64)

end
