(* ===== verification/Sbuf_Grow.thy ===== *)
theory Sbuf_Grow imports Sbuf_Inv begin

text \<open>
  The lifetime invariant of a string buffer and the growth of its backing buffer. \<open>sbuf_at\<close> is
  the representation invariant; \<open>sbuf_over\<close> also relates the heap to the one the buffer was made
  over, so that it says what the buffer may have touched and what it owns. Every operation is one
  of three moves on it: an update in place, a growth, or nothing.
\<close>

section \<open>Invariants\<close>

text \<open>
  The structure at \<open>s\<close> is live and holds \<open>v\<close>; its backing buffer \<open>b\<close> is live with bytes \<open>c\<close>, at
  least \<open>s_size\<close> of them; the length leaves room for a nul; what the flags say was allocated was.
\<close>

definition sbuf_at :: "sbuf heap \<Rightarrow> addr \<Rightarrow> sbuf \<Rightarrow> addr \<Rightarrow> byte list \<Rightarrow> bool" where
  "sbuf_at h s v b c \<longleftrightarrow>
     hp_obj h s = Some v \<and> s_buf v = Some b \<and> hp_data h b = Some c \<and> b \<noteq> s \<and>
     unat (s_size v) \<le> length c \<and> unat (s_size v) < 2 ^ 31 \<and> unat (s_len v) < unat (s_size v) \<and>
     (SBUF_ISDYNAMIC v \<longrightarrow> b \<in> hp_owned h) \<and> (SBUF_ISDYNSTRUCT v \<longrightarrow> s \<in> hp_owned h)"

text \<open>
  The buffer at \<open>s\<close> was made over the heap \<open>h0\<close>, from which the blocks \<open>X\<close> were lent to it: only
  the structure, the lent blocks and the buffer it allocated itself differ from \<open>h0\<close>, the lent
  blocks keep their sizes, and it owns exactly what its flags say.
\<close>

definition sbuf_over ::
  "sbuf heap \<Rightarrow> addr set \<Rightarrow> sbuf heap \<Rightarrow> addr \<Rightarrow> sbuf \<Rightarrow> addr \<Rightarrow> byte list \<Rightarrow> bool" where
  "sbuf_over h0 X h s v b c \<longleftrightarrow> sbuf_at h s v b c \<and> hp_finite h0 \<and>
     X \<subseteq> dom (hp_data h0) \<and>
     (\<forall>a. a \<noteq> s \<longrightarrow> hp_obj h a = hp_obj h0 a) \<and>
     (\<forall>a. a \<noteq> b \<and> a \<notin> X \<longrightarrow> hp_data h a = hp_data h0 a) \<and>
     (\<forall>a\<in>X. map_option length (hp_data h a) = map_option length (hp_data h0 a)) \<and>
     (if SBUF_ISDYNAMIC v
      then b \<notin> X \<and> hp_data h0 b = None \<and> hp_obj h0 b = None \<and> b \<notin> hp_owned h0 else b \<in> X) \<and>
     (if SBUF_ISDYNSTRUCT v then hp_obj h0 s = None \<and> s \<notin> hp_owned h0 else hp_obj h0 s \<noteq> None) \<and>
     hp_owned h = hp_owned h0 \<union> (if SBUF_ISDYNAMIC v then {b} else {}) \<union>
       (if SBUF_ISDYNSTRUCT v then {s} else {})"

text \<open>The text held: the bytes below the position.\<close>

definition sbuf_text :: "sbuf \<Rightarrow> byte list \<Rightarrow> byte list" where
  "sbuf_text v c = take (unat (s_len v)) c"

text \<open>Two structure values with the same ownership flags.\<close>

definition same_owner :: "sbuf \<Rightarrow> sbuf \<Rightarrow> bool" where
  "same_owner v' v \<longleftrightarrow> SBUF_ISDYNAMIC v' = SBUF_ISDYNAMIC v \<and> SBUF_ISDYNSTRUCT v' = SBUF_ISDYNSTRUCT v"

lemma sbuf_atD:
  assumes "sbuf_at h s v b c"
  shows "hp_obj h s = Some v" "s_buf v = Some b" "hp_data h b = Some c" "b \<noteq> s"
    "unat (s_size v) \<le> length c" "unat (s_size v) < 2 ^ 31" "unat (s_len v) < unat (s_size v)"
  using assms by (simp_all add: sbuf_at_def)

lemma sbuf_overD: "sbuf_over h0 X h s v b c \<Longrightarrow> sbuf_at h s v b c"
  by (simp add: sbuf_over_def)

lemma sbuf_at_len: "sbuf_at h s v b c \<Longrightarrow> unat (size_of_int (s_len v)) = unat (s_len v)"
  by (rule unat_scast_nonneg) (simp add: sbuf_at_def)

lemma sbuf_at_size: "sbuf_at h s v b c \<Longrightarrow> unat (size_of_int (s_size v)) = unat (s_size v)"
  by (rule unat_scast_nonneg) (simp add: sbuf_at_def)

lemma sbuf_at_capacity:
  assumes "sbuf_at h s v b c"
  shows "unat (sbuf_capacity v) = unat (s_size v) - unat (s_len v) - 1"
proof -
  have b: "unat (s_size v) < 2 ^ 31" "unat (s_len v) < unat (s_size v)"
    using assms by (simp_all add: sbuf_at_def)
  then have "unat (s_size v - s_len v) = unat (s_size v) - unat (s_len v)"
    by (simp add: unat_sub word_le_nat_alt)
  moreover from this have "unat (s_size v - s_len v - 1) = unat (s_size v - s_len v) - 1"
    using b by (simp add: unat_sub word_le_nat_alt)
  ultimately have u: "unat (s_size v - s_len v - 1) = unat (s_size v) - unat (s_len v) - 1"
    by simp
  then show ?thesis unfolding sbuf_capacity_def using b by (subst unat_scast_nonneg) linarith+
qed

lemma sbuf_text_length: "sbuf_at h s v b c \<Longrightarrow> length (sbuf_text v c) = unat (s_len v)"
  by (simp add: sbuf_at_def sbuf_text_def)

lemma sbuf_over_finite:
  assumes "sbuf_over h0 X h s v b c"
  shows "hp_finite h"
proof -
  note over = assms [unfolded sbuf_over_def]
  have "dom (hp_data h) \<subseteq> insert b (dom (hp_data h0))"
  proof
    fix a assume "a \<in> dom (hp_data h)"
    then show "a \<in> insert b (dom (hp_data h0))"
      using over by (cases "a = b"; cases "a \<in> X") auto
  qed
  moreover have "dom (hp_obj h) \<subseteq> insert s (dom (hp_obj h0))"
  proof
    fix a assume "a \<in> dom (hp_obj h)"
    then show "a \<in> insert s (dom (hp_obj h0))" using over by (cases "a = s") auto
  qed
  ultimately show ?thesis using over
    by (auto simp: hp_finite_def intro: finite_subset)
qed

section \<open>Moves\<close>

text \<open>An update in place of the structure and of the buffer's bytes.\<close>

lemma sbuf_over_update:
  assumes "sbuf_over h0 X h s v b c" "same_owner v' v" "s_buf v' = s_buf v"
    "s_size v' = s_size v" "unat (s_len v') < unat (s_size v)" "length c' = length c"
  shows "sbuf_over h0 X (put_obj (put_data h b c') s v') s v' b c'"
  using assms by (auto simp: sbuf_over_def sbuf_at_def same_owner_def)

lemma put_data_same: "hp_data h b = Some c \<Longrightarrow> put_data h b c = h"
  by (simp add: put_data_def map_upd_triv)

lemma sbuf_over_update_obj:
  assumes "sbuf_over h0 X h s v b c" "same_owner v' v" "s_buf v' = s_buf v"
    "s_size v' = s_size v" "unat (s_len v') < unat (s_size v)"
  shows "sbuf_over h0 X (put_obj h s v') s v' b c"
  using sbuf_over_update [OF assms refl]
  by (simp add: put_data_same [OF sbuf_atD(3) [OF sbuf_overD [OF assms(1)]]])

text \<open>A new buffer from the allocator takes over; the old one is freed if it was dynamic.\<close>

definition swap_buf :: "sbuf heap \<Rightarrow> addr \<Rightarrow> sbuf \<Rightarrow> addr \<Rightarrow> addr \<Rightarrow> byte list \<Rightarrow> sbuf \<Rightarrow> sbuf heap" where
  "swap_buf h s v b a c' v' =
     (let h1 = put_data (h\<lparr>hp_owned := insert a (hp_owned h)\<rparr>) a c';
          h2 = (if SBUF_ISDYNAMIC v
                then h1\<lparr>hp_data := (hp_data h1)(b := None), hp_owned := hp_owned h1 - {b}\<rparr> else h1)
      in put_obj h2 s v')"

lemma sbuf_over_swap:
  assumes "sbuf_over h0 X h s v b c"
    and new: "hp_data h a = None" "hp_obj h a = None" "a \<notin> hp_owned h"
    and v': "SBUF_ISDYNAMIC v'" "SBUF_ISDYNSTRUCT v' = SBUF_ISDYNSTRUCT v" "s_buf v' = Some a"
      "s_len v' = s_len v" "unat (s_size v) \<le> unat (s_size v')" "unat (s_size v') \<le> length c'"
      "unat (s_size v') < 2 ^ 31"
  shows "sbuf_over h0 X (swap_buf h s v b a c' v') s v' a c'"
proof -
  note over = assms(1) [unfolded sbuf_over_def sbuf_at_def]
  from over have X: "X \<subseteq> dom (hp_data h0)"
      and lens: "\<forall>x\<in>X. map_option length (hp_data h x) = map_option length (hp_data h0 x)"
      and live: "hp_data h b = Some c" "hp_obj h s = Some v" "b \<noteq> s"
      and off: "\<And>x. x \<noteq> b \<Longrightarrow> x \<notin> X \<Longrightarrow> hp_data h x = hp_data h0 x"
        "\<And>x. x \<noteq> s \<Longrightarrow> hp_obj h x = hp_obj h0 x"
      and own: "hp_owned h0 \<subseteq> hp_owned h" by auto
  have ab: "a \<noteq> b" "a \<noteq> s" using live new by auto
  have aX: "a \<notin> X"
  proof
    assume a: "a \<in> X"
    then obtain y where "hp_data h0 a = Some y" using X by auto
    with lens a new(1) show False by fastforce
  qed
  have a0: "hp_data h0 a = None" "hp_obj h0 a = None" "a \<notin> hp_owned h0"
    using off [of a] ab aX new own by auto
  have at: "sbuf_at (swap_buf h s v b a c' v') s v' a c'"
    using v' ab over by (auto simp: sbuf_at_def swap_buf_def Let_def)
  show ?thesis
  proof (cases "SBUF_ISDYNAMIC v")
    case True
    then show ?thesis using at v' ab aX a0 over
      unfolding sbuf_over_def by (auto simp: swap_buf_def Let_def)
  next
    case False
    then show ?thesis using at v' ab aX a0 over
      unfolding sbuf_over_def by (auto simp: swap_buf_def Let_def)
  qed
qed

section \<open>sbuf_extend and sbuf_ensure_capacity\<close>

text \<open>What an append may leave of the structure and the bytes when it grows the buffer.\<close>

definition grown :: "sbuf \<Rightarrow> byte list \<Rightarrow> sbuf \<Rightarrow> byte list \<Rightarrow> bool" where
  "grown v c v' c' \<longleftrightarrow> s_len v' = s_len v \<and>
     s_flags v' AND NOT SBUF_DYNAMIC = s_flags v AND NOT SBUF_DYNAMIC \<and>
     unat (s_size v) \<le> unat (s_size v') \<and>
     take (unat (s_size v)) c' = take (unat (s_size v)) c"

text \<open>Whether the allocator ever returns \<open>NULL\<close>.\<close>

definition allocator_fails :: "kenv \<Rightarrow> bool" where
  "allocator_fails E \<longleftrightarrow>
     (\<exists>h m fl. hp_finite h \<and> fst (kalloc_data (ke_malloc E) h m fl) = None) \<or>
     (\<exists>h m fl z. hp_finite h \<and> fst (kalloc_type (ke_malloc E) h m fl z) = None)"

text \<open>Why a growth by \<open>n\<close> bytes may be refused: not allowed, too large, or no memory.\<close>

definition refusal :: "kenv \<Rightarrow> sbuf \<Rightarrow> nat \<Rightarrow> bool" where
  "refusal E v n \<longleftrightarrow> \<not> SBUF_CANEXTEND v \<or>
     2 ^ 31 < unat (s_size v) + n + 2 ^ ke_page_shift E \<or>
     allocator_fails E"

lemma grown_refl [simp]: "grown v c v c"
  by (simp add: grown_def)

lemma flag_kept:
  assumes "s_flags v' AND NOT SBUF_DYNAMIC = s_flags v AND NOT SBUF_DYNAMIC"
    and "SBUF_DYNAMIC AND f = 0"
  shows "SBUF_ISSET v' f = SBUF_ISSET v f"
proof -
  have "x AND f = (x AND NOT SBUF_DYNAMIC) AND f" for x
    using assms(2) by (auto simp: bit_eq_iff bit_simps)
  then show ?thesis using assms(1) by (metis SBUF_ISSET_def)
qed

lemma grown_flags:
  assumes "grown v c v' c'"
  shows "SBUF_CANEXTEND v' = SBUF_CANEXTEND v" "SBUF_HASOVERFLOWED v' = SBUF_HASOVERFLOWED v"
    "SBUF_ISFINISHED v' = SBUF_ISFINISHED v" "SBUF_ISDYNSTRUCT v' = SBUF_ISDYNSTRUCT v"
  using assms flag_kept [of v' v]
  by (simp_all add: grown_def sbuf_flag_tests sbuf_flag_consts)

lemma grown_text:
  assumes "grown v c v' c'" "sbuf_at h s v b c"
  shows "take (unat (s_len v)) c' = sbuf_text v c"
proof -
  have l: "unat (s_len v) < unat (s_size v)" using assms(2) by (simp add: sbuf_at_def)
  have "take (unat (s_len v)) c' = take (unat (s_len v)) (take (unat (s_size v)) c')"
    using l by (simp add: min_def)
  also have "\<dots> = take (unat (s_len v)) (take (unat (s_size v)) c)"
    using assms(1) by (simp add: grown_def)
  finally show ?thesis using l by (simp add: sbuf_text_def min_def)
qed

lemma bcopy_whole:
  assumes "hp_data h b = Some c" "n \<le> length c" "hp_data h a = Some d" "n \<le> length d"
  shows "bcopy h (b, 0) (a, 0) n = Some (put_data h a (splice d 0 (take n c)))"
  using assms by (cases "n = 0")
    (auto simp: bcopy_def load_bytes_whole store_bytes_in put_data_same)

lemma os_add_overflow_small:
  "unat a + unat b < 2 ^ 64 \<Longrightarrow> unat (snd (os_add_overflow a b)) = unat a + unat b"
  by (simp add: os_add_overflow_def unat_word_ariths)

lemma unat_int_of_size: "unat (n :: size_t) < 2 ^ 31 \<Longrightarrow> unat (int_of_size n) = unat n"
  by (simp add: unsigned_ucast_eq take_bit_nat_eq_self)

context sbuf_kernel begin

lemma sbuf_extend_fixed:
  "hp_obj h s = Some v \<Longrightarrow> \<not> SBUF_CANEXTEND v \<Longrightarrow> n \<noteq> 0 \<Longrightarrow> sbuf_extend E h s n = Some (-1, h)"
  by (simp add: sbuf_extend_def)

lemma sbuf_extend_too_large:
  assumes "hp_obj h s = Some v" "n \<noteq> 0"
    "fst (os_add_overflow (size_of_int (s_size v)) n) \<or>
     sbuf_extendsize E (snd (os_add_overflow (size_of_int (s_size v)) n)) = Some (-1, t)"
  shows "sbuf_extend E h s n = Some (-1, h)"
  using assms by (auto simp: sbuf_extend_def)

lemma sbuf_extend_null:
  assumes "hp_obj h s = Some v" "n \<noteq> 0" "kalloc_data (ke_malloc E) h m Z_WAITOK = (None, h)"
    "sbuf_extendsize E (snd (os_add_overflow (size_of_int (s_size v)) n)) = Some (0, m)"
  shows "sbuf_extend E h s n = Some (-1, h)"
  using assms by (simp add: sbuf_extend_def)

lemma sbuf_extend_swap:
  assumes at: "sbuf_at h s v b c"
    and "n \<noteq> 0" "SBUF_CANEXTEND v" "\<not> fst (os_add_overflow (size_of_int (s_size v)) n)"
    and new: "sbuf_extendsize E (snd (os_add_overflow (size_of_int (s_size v)) n)) = Some (0, m)"
    and mem: "kalloc_data (ke_malloc E) h m Z_WAITOK =
        (Some a, put_data (h\<lparr>hp_owned := insert a (hp_owned h)\<rparr>) a d)"
      "hp_data h a = None" "length d = unat m"
    and size: "unat (s_size v) \<le> unat m"
  defines "w \<equiv> (if SBUF_ISDYNAMIC v then v else SBUF_SETFLAG v SBUF_DYNAMIC)
      \<lparr>s_buf := Some a, s_size := int_of_size m\<rparr>"
  shows "sbuf_extend E h s n =
    Some (0, swap_buf h s v b a (splice d 0 (take (unat (s_size v)) c)) w)"
proof -
  have ab: "a \<noteq> b" using mem(2) sbuf_atD(3) [OF at] by auto
  have bc: "bcopy (put_data (h\<lparr>hp_owned := insert a (hp_owned h)\<rparr>) a d) (b, 0) (a, 0)
      (unat (size_of_int (s_size v))) =
    Some (put_data (h\<lparr>hp_owned := insert a (hp_owned h)\<rparr>) a
      (splice d 0 (take (unat (s_size v)) c)))"
    using bcopy_whole [of "put_data (h\<lparr>hp_owned := insert a (hp_owned h)\<rparr>) a d" b c
        "unat (s_size v)" a d] ab sbuf_atD [OF at] size mem(3) sbuf_at_size [OF at]
    by (simp add: put_data_def)
  have "sbuf_extend E h s n = Some (0, put_obj
      (if SBUF_ISDYNAMIC v then the (kfree_data (put_data (h\<lparr>hp_owned := insert a (hp_owned h)\<rparr>) a
      (splice d 0 (take (unat (s_size v)) c))) b (size_of_int (s_size v))) else put_data (h\<lparr>hp_owned := insert a (hp_owned h)\<rparr>) a
      (splice d 0 (take (unat (s_size v)) c))) s w)"
    using at ab assms(2-4) new mem(1) bc
    by (simp add: sbuf_extend_def sbuf_at_def w_def kfree_data_def free_data_def)
  then show ?thesis
    using at ab by (simp add: swap_buf_def Let_def kfree_data_def free_data_def sbuf_at_def)
qed

lemma sbuf_extend_cases:
  assumes over: "sbuf_over h0 X h s v b c" and n: "n \<noteq> 0"
  obtains (refused) "sbuf_extend E h s n = Some (-1, h)" "refusal E v (unat n)"
  | (grown) h' v' b' c' where "sbuf_extend E h s n = Some (0, h')"
      "sbuf_over h0 X h' s v' b' c'" "grown v c v' c'" "SBUF_CANEXTEND v"
      "unat (s_size v) + unat n \<le> unat (s_size v')" "b' \<noteq> b"
proof (cases "SBUF_CANEXTEND v")
  case False
  note at = sbuf_overD [OF over]
  then show thesis using refused sbuf_extend_fixed [OF sbuf_atD(1) [OF at] False n] False
    by (simp add: refusal_def)
next
  case can: True
  note at = sbuf_overD [OF over]
  let ?sum = "os_add_overflow (size_of_int (s_size v)) n"
  show thesis
  proof (cases "fst ?sum")
    case True
    then have "2 ^ 64 \<le> unat (s_size v) + unat n"
      by (simp add: os_add_overflow_def sbuf_at_size [OF at])
    then show thesis
      using refused sbuf_extend_too_large [OF sbuf_atD(1) [OF at] n] True
      by (simp add: refusal_def)
  next
    case False
    then have sum: "unat (snd ?sum) = unat (s_size v) + unat n"
      by (simp add: os_add_overflow_small os_add_overflow_def sbuf_at_size [OF at]
          unat_word_ariths)
    show thesis
    proof (cases rule: sbuf_extendsize_cases [of "snd ?sum"])
      case fail
      then show thesis
        using refused sbuf_extend_too_large [OF sbuf_atD(1) [OF at] n disjI2 [OF fail(1)]] sum
        by (simp add: refusal_def)
    next
      case (size m)
      show thesis
      proof (cases rule: kalloc_data_cases [of h m Z_WAITOK])
        case null
        then have "fst (kalloc_data (ke_malloc E) h m Z_WAITOK) = None" by simp
        then have "refusal E v (unat n)"
          using sbuf_over_finite [OF over] unfolding refusal_def allocator_fails_def by blast
        then show thesis
          using refused sbuf_extend_null [OF sbuf_atD(1) [OF at] n null size(1)] by blast
      next
        case (new a d)
        define w where "w = (if SBUF_ISDYNAMIC v then v else SBUF_SETFLAG v SBUF_DYNAMIC)
          \<lparr>s_buf := Some a, s_size := int_of_size m\<rparr>"
        define e where "e = splice d 0 (take (unat (s_size v)) c)"
        have le: "unat (s_size v) \<le> unat m" using size(2) sum by simp
        have ms: "unat (int_of_size m) = unat m" using size(4) by (rule unat_int_of_size)
        have e: "length e = unat m" "take (unat (s_size v)) e = take (unat (s_size v)) c"
          using new(5) le sbuf_atD(5) [OF at] take_splice_through [of 0 "take (unat (s_size v)) c" d]
          by (simp_all add: e_def)
        have "sbuf_extend E h s n = Some (0, swap_buf h s v b a e w)"
          unfolding w_def e_def by (rule sbuf_extend_swap [OF at n can False size(1) new(1,2,5) le])
        moreover have "sbuf_over h0 X (swap_buf h s v b a e w) s w a e"
          using over new(2-4) size(4)
          by (intro sbuf_over_swap) (auto simp: w_def ms e le flag_simps)
        moreover have "grown v c w e"
          using le e(2) by (auto simp: grown_def w_def ms bit_eq_iff bit_simps)
        moreover have "unat (s_size v) + unat n \<le> unat (s_size w)"
          using size(2) sum by (simp add: w_def ms)
        moreover have "a \<noteq> b" using new(2) sbuf_atD(3) [OF at] by auto
        ultimately show thesis using can by (intro grown)
      qed
    qed
  qed
qed

lemma sbuf_ensure_capacity_cases:
  assumes over: "sbuf_over h0 X h s v b c"
  obtains (refused) "sbuf_ensure_capacity E h s n = Some (-1, h)"
      "unat (s_size v) \<le> unat (s_len v) + unat n"
      "refusal E v (unat (s_len v) + unat n + 1 - unat (s_size v))"
  | (room) h' v' b' c' where "sbuf_ensure_capacity E h s n = Some (0, h')"
      "sbuf_over h0 X h' s v' b' c'" "grown v c v' c'"
      "unat (s_len v') + unat n < unat (s_size v')"
      "SBUF_CANEXTEND v \<and> b' \<noteq> b \<or> (h', v', b', c') = (h, v, b, c)"
proof -
  note at = sbuf_overD [OF over]
  note cap = sbuf_at_capacity [OF at]
  have len: "unat (s_len v) < unat (s_size v)" using at by (simp add: sbuf_at_def)
  show thesis
  proof (cases "n \<le> sbuf_capacity v")
    case True
    then have "unat (s_len v) + unat n < unat (s_size v)"
      using cap len by (simp add: word_le_nat_alt)
    moreover have "sbuf_ensure_capacity E h s n = Some (0, h)"
      using True sbuf_atD(1) [OF at] by (simp add: sbuf_ensure_capacity_def)
    ultimately show thesis using over by (intro room [of h v b c]) simp_all
  next
    case False
    then have gt: "unat (sbuf_capacity v) < unat n" by (simp add: word_le_nat_alt)
    then have d: "unat (n - sbuf_capacity v) = unat (s_len v) + unat n + 1 - unat (s_size v)"
      using cap len by (simp add: unat_sub word_le_nat_alt)
    then have nz: "n - sbuf_capacity v \<noteq> 0" using gt cap len by (auto simp: unat_eq_0 [symmetric])
    have ex: "sbuf_ensure_capacity E h s n = sbuf_extend E h s (n - sbuf_capacity v)"
      using False sbuf_atD(1) [OF at] by (simp add: sbuf_ensure_capacity_def)
    show thesis
    proof (cases rule: sbuf_extend_cases [OF over nz])
      case 1
      then show thesis using gt cap len by (intro refused) (simp_all add: ex d)
    next
      case (2 h' v' b' c')
      then show thesis using gt cap len d
        by (intro room [of h' v' b' c']) (simp_all add: ex grown_def)
    qed
  qed
qed

end

end
