(* ===== verification/Sbuf_Ops.thy ===== *)
theory Sbuf_Ops imports Sbuf_Grow begin

text \<open>
  What each operation of the string buffer does, against an abstract buffer: a text, an overflow
  mark, a finished mark and whether it may grow. An append either takes all its bytes or marks the
  buffer as overflowed, and it may only be refused where the bytes do not fit.
\<close>

section \<open>The abstract buffer\<close>

record asbuf =
  a_text :: "byte list"
  a_over :: bool
  a_done :: bool
  a_auto :: bool

definition sbuf_view :: "sbuf \<Rightarrow> byte list \<Rightarrow> asbuf" where
  "sbuf_view v c = \<lparr>a_text = sbuf_text v c, a_over = SBUF_HASOVERFLOWED v,
     a_done = SBUF_ISFINISHED v, a_auto = SBUF_CANEXTEND v\<rparr>"

text \<open>An append of \<open>bs\<close> that is accepted or refused.\<close>

definition spec_append :: "bool \<Rightarrow> byte list \<Rightarrow> asbuf \<Rightarrow> cint \<times> asbuf" where
  "spec_append ok bs a =
     (if a_over a then (-1, a)
      else if ok then (0, a\<lparr>a_text := a_text a @ bs\<rparr>)
      else (-1, a\<lparr>a_over := True\<rparr>))"

text \<open>
  When an append of \<open>n\<close> bytes may be accepted or refused: always accepted if it fits, never
  accepted if it does not fit and the buffer may not grow, refused only for a reason to.
\<close>

definition append_ok :: "kenv \<Rightarrow> sbuf \<Rightarrow> nat \<Rightarrow> bool \<Rightarrow> bool" where
  "append_ok E v n ok \<longleftrightarrow>
     (unat (s_len v) + n < unat (s_size v) \<longrightarrow> ok) \<and>
     (unat (s_size v) \<le> unat (s_len v) + n \<longrightarrow> ok \<longrightarrow> SBUF_CANEXTEND v) \<and>
     (\<not> ok \<longrightarrow> refusal E v (unat (s_len v) + n + 1 - unat (s_size v)))"

text \<open>The outcome of an operation that appends \<open>bs\<close>.\<close>

definition appends ::
  "kenv \<Rightarrow> sbuf heap \<Rightarrow> addr set \<Rightarrow> addr \<Rightarrow> sbuf \<Rightarrow> byte list \<Rightarrow> byte list \<Rightarrow>
     (cint \<times> sbuf heap) option \<Rightarrow> bool" where
  "appends E h0 X s v c bs res \<longleftrightarrow>
     (\<exists>ok r h' v' b' c'. res = Some (r, h') \<and> sbuf_over h0 X h' s v' b' c' \<and>
        (r, sbuf_view v' c') = spec_append ok bs (sbuf_view v c) \<and>
        (\<not> SBUF_CANEXTEND v \<longrightarrow> s_size v' = s_size v) \<and>
        (\<not> SBUF_HASOVERFLOWED v \<longrightarrow> append_ok E v (length bs) ok))"

section \<open>Building blocks\<close>

lemma same_owner_setflag:
  "f AND SBUF_DYNAMIC = 0 \<Longrightarrow> f AND SBUF_DYNSTRUCT = 0 \<Longrightarrow> same_owner (SBUF_SETFLAG v f) v"
  by (simp add: same_owner_def isset_setflag SBUF_ISDYNAMIC_def SBUF_ISDYNSTRUCT_def)

lemma same_owner_clearflag:
  "f AND SBUF_DYNAMIC = 0 \<Longrightarrow> f AND SBUF_DYNSTRUCT = 0 \<Longrightarrow> same_owner (SBUF_CLEARFLAG v f) v"
  by (simp add: same_owner_def isset_clearflag_other SBUF_ISDYNAMIC_def SBUF_ISDYNSTRUCT_def)

lemma same_owner_overflowed: "same_owner (SBUF_SETFLAG v SBUF_OVERFLOWED) v"
  by (rule same_owner_setflag) (simp_all add: sbuf_flag_consts)

lemma same_owner_trans: "same_owner w v \<Longrightarrow> same_owner x w \<Longrightarrow> same_owner x v"
  by (simp add: same_owner_def)

lemma same_owner_len [simp]: "same_owner (v\<lparr>s_len := n\<rparr>) v"
  by (simp add: same_owner_def flag_simps)

lemma view_flags [simp]:
  "a_text (sbuf_view v c) = sbuf_text v c" "a_over (sbuf_view v c) = SBUF_HASOVERFLOWED v"
  "a_done (sbuf_view v c) = SBUF_ISFINISHED v" "a_auto (sbuf_view v c) = SBUF_CANEXTEND v"
  by (simp_all add: sbuf_view_def)

lemma sbuf_text_cong [simp]:
  "sbuf_text (SBUF_SETFLAG v f) c = sbuf_text v c" "sbuf_text (SBUF_CLEARFLAG v f) c = sbuf_text v c"
  by (simp_all add: sbuf_text_def)

lemma view_overflowed: "sbuf_view (SBUF_SETFLAG v SBUF_OVERFLOWED) c = sbuf_view v c\<lparr>a_over := True\<rparr>"
  by (simp add: sbuf_view_def flag_simps)

lemma view_grown:
  assumes "grown v c v' c'" "sbuf_at h s v b c"
  shows "sbuf_view v' c' = sbuf_view v c"
  using assms grown_flags [OF assms(1)] grown_text [OF assms]
  by (simp add: sbuf_view_def sbuf_text_def grown_def)

text \<open>Memory the client did not lend is not touched, so a source stays readable.\<close>

lemma client_bytes:
  assumes over: "sbuf_over h0 X h s v b c"
    and src: "load_bytes h0 p n = Some bs" "fst p \<notin> X"
  shows "load_bytes h p n = Some bs" "n = 0 \<or> fst p \<noteq> b"
proof -
  have "hp_data h (fst p) = hp_data h0 (fst p) \<and> fst p \<noteq> b" if "n \<noteq> 0"
  proof -
    have "hp_data h0 (fst p) \<noteq> None" using src(1) that by (auto simp: load_bytes_def split: bind_splits)
    then have "fst p \<noteq> b" using over src(2) by (auto simp: sbuf_over_def split: if_splits)
    then show ?thesis using over src(2) by (simp add: sbuf_over_def)
  qed
  then show "load_bytes h p n = Some bs" "n = 0 \<or> fst p \<noteq> b"
    using src(1) by (cases "n = 0"; simp add: load_bytes_def)+
qed

text \<open>Writing \<open>bs\<close> at the position and moving it.\<close>

lemma unat_add_len:
  fixes x y :: cint
  assumes "unat x + unat y < 2 ^ 31"
  shows "unat (x + y) = unat x + unat y"
  using assms by (simp add: unat_word_ariths)

lemma sbuf_write_end:
  assumes over: "sbuf_over h0 X h s v b c"
    and room: "unat (s_len v) + length bs < unat (s_size v)" and w: "unat w = length bs"
  shows "sbuf_over h0 X (put_obj (put_data h b (splice c (unat (s_len v)) bs)) s
      (v\<lparr>s_len := s_len v + w\<rparr>)) s (v\<lparr>s_len := s_len v + w\<rparr>) b (splice c (unat (s_len v)) bs)"
    and "sbuf_view (v\<lparr>s_len := s_len v + w\<rparr>) (splice c (unat (s_len v)) bs) =
      sbuf_view v c\<lparr>a_text := sbuf_text v c @ bs\<rparr>"
    and "store_bytes h (b, unat (size_of_int (s_len v))) bs =
      Some (if bs = [] then h else put_data h b (splice c (unat (s_len v)) bs))"
proof -
  note at = sbuf_overD [OF over]
  have fit: "unat (s_len v) + length bs \<le> length c" using room sbuf_atD(5) [OF at] by simp
  have u: "unat (s_len v + w) = unat (s_len v) + length bs"
    using room sbuf_atD(6) [OF at] by (subst unat_add_len) (simp_all add: w)
  show "sbuf_over h0 X (put_obj (put_data h b (splice c (unat (s_len v)) bs)) s
      (v\<lparr>s_len := s_len v + w\<rparr>)) s (v\<lparr>s_len := s_len v + w\<rparr>) b (splice c (unat (s_len v)) bs)"
    using over fit room by (intro sbuf_over_update) (simp_all add: u)
  show "sbuf_view (v\<lparr>s_len := s_len v + w\<rparr>) (splice c (unat (s_len v)) bs) =
      sbuf_view v c\<lparr>a_text := sbuf_text v c @ bs\<rparr>"
    using fit by (simp add: sbuf_view_def sbuf_text_def u flag_simps)
  show "store_bytes h (b, unat (size_of_int (s_len v))) bs =
      Some (if bs = [] then h else put_data h b (splice c (unat (s_len v)) bs))"
    using store_bytes_in [OF sbuf_atD(3) [OF at] fit] by (simp add: sbuf_at_len [OF at])
qed

lemma put_data_noop:
  "sbuf_over h0 X h s v b c \<Longrightarrow>
   (if bs = [] then h else put_data h b (splice c k bs)) = put_data h b (splice c k bs)"
  by (simp add: put_data_same [OF sbuf_atD(3) [OF sbuf_overD]])

lemma appends_overflowed:
  assumes "sbuf_over h0 X h s v b c" "SBUF_HASOVERFLOWED v"
  shows "appends E h0 X s v c bs (Some (-1, h))"
  using assms unfolding appends_def
  by (intro exI [of _ False] exI [of _ "-1"] exI [of _ h] exI [of _ v] exI [of _ b] exI [of _ c])
    (simp add: spec_append_def)

lemma appends_refused:
  assumes over: "sbuf_over h0 X h s v b c" and "\<not> SBUF_HASOVERFLOWED v"
    and same: "sbuf_over h0 X h1 s v b c1" "sbuf_text v c1 = sbuf_text v c"
    and "unat (s_size v) \<le> unat (s_len v) + length bs"
    and "refusal E v (unat (s_len v) + length bs + 1 - unat (s_size v))"
  shows "appends E h0 X s v c bs (Some (-1, put_obj h1 s (SBUF_SETFLAG v SBUF_OVERFLOWED)))"
proof -
  have "sbuf_over h0 X (put_obj h1 s (SBUF_SETFLAG v SBUF_OVERFLOWED)) s
      (SBUF_SETFLAG v SBUF_OVERFLOWED) b c1"
    using same(1) sbuf_atD(7) [OF sbuf_overD [OF over]] same_owner_overflowed
    by (intro sbuf_over_update_obj) simp_all
  moreover have "sbuf_view (SBUF_SETFLAG v SBUF_OVERFLOWED) c1 = sbuf_view v c\<lparr>a_over := True\<rparr>"
    using same(2) by (simp add: view_overflowed)
  then have "(-1, sbuf_view (SBUF_SETFLAG v SBUF_OVERFLOWED) c1) =
      spec_append False bs (sbuf_view v c)"
    using assms(2) by (simp add: spec_append_def)
  moreover have "append_ok E v (length bs) False" using assms(5,6) by (simp add: append_ok_def)
  moreover have "s_size (SBUF_SETFLAG v SBUF_OVERFLOWED) = s_size v" by simp
  ultimately show ?thesis unfolding appends_def by blast
qed

lemma appends_accepted:
  assumes "\<not> SBUF_HASOVERFLOWED v"
    and over: "sbuf_over h0 X h1 s v' b' c'"
    and same: "sbuf_view v' c' = sbuf_view v c" "s_len v' = s_len v"
    and room: "unat (s_len v') + length bs < unat (s_size v')" and w: "unat w = length bs"
    and can: "SBUF_CANEXTEND v \<or> s_size v' = s_size v"
    and c2: "length c2 = length c'" "take (unat (s_len v') + length bs) c2 = sbuf_text v' c' @ bs"
  shows "appends E h0 X s v c bs
    (Some (0, put_obj (put_data h1 b' c2) s (v'\<lparr>s_len := s_len v' + w\<rparr>)))"
proof -
  let ?v = "v'\<lparr>s_len := s_len v' + w\<rparr>"
  have u: "unat (s_len v' + w) = unat (s_len v') + length bs"
    using room sbuf_atD(6) [OF sbuf_overD [OF over]] by (subst unat_add_len) (simp_all add: w)
  have "sbuf_over h0 X (put_obj (put_data h1 b' c2) s ?v) s ?v b' c2"
    using over c2(1) room by (intro sbuf_over_update) (simp_all add: u)
  moreover have "sbuf_view ?v c2 = sbuf_view v' c'\<lparr>a_text := sbuf_text v' c' @ bs\<rparr>"
    using c2(2) by (simp add: sbuf_view_def sbuf_text_def u flag_simps)
  then have "(0, sbuf_view ?v c2) = spec_append True bs (sbuf_view v c)"
    using assms(1) same(1) by (simp add: spec_append_def) (metis view_flags(1))
  moreover have "append_ok E v (length bs) True"
    using room same(2) can by (auto simp: append_ok_def)
  moreover have "\<not> SBUF_CANEXTEND v \<longrightarrow> s_size ?v = s_size v" using can by auto
  ultimately show ?thesis unfolding appends_def by blast
qed

lemma appends_grown:
  assumes over: "sbuf_over h0 X h s v b c" and "\<not> SBUF_HASOVERFLOWED v"
    and grown: "sbuf_over h0 X h1 s v' b' c'" "grown v c v' c'"
    and room: "unat (s_len v') + length bs < unat (s_size v')" and w: "unat w = length bs"
    and "SBUF_CANEXTEND v \<or> s_size v' = s_size v"
  shows "appends E h0 X s v c bs (Some (0,
    put_obj (put_data h1 b' (splice c' (unat (s_len v')) bs)) s (v'\<lparr>s_len := s_len v' + w\<rparr>)))"
proof -
  have "unat (s_len v') + length bs \<le> length c'"
    using room sbuf_atD(5) [OF sbuf_overD [OF grown(1)]] by simp
  then show ?thesis
    using view_grown [OF grown(2) sbuf_overD [OF over]] assms grown(2)
    by (intro appends_accepted) (simp_all add: sbuf_text_def grown_def)
qed

section \<open>Appending operations\<close>

context sbuf_kernel begin

lemma bcat_appends:
  assumes over: "sbuf_over h0 X h s v b c"
    and src: "load_bytes h0 p (unat n) = Some bs" "fst p \<notin> X"
  shows "appends E h0 X s v c bs (sbuf_bcat E h s p n)"
proof (cases "SBUF_HASOVERFLOWED v")
  case True
  then show ?thesis using appends_overflowed [OF over] sbuf_atD(1) [OF sbuf_overD [OF over]]
    by (simp add: sbuf_bcat_def)
next
  case False
  have n: "length bs = unat n" using src(1) by (rule length_load_bytes)
  note hs = sbuf_atD(1) [OF sbuf_overD [OF over]]
  show ?thesis
  proof (cases rule: sbuf_ensure_capacity_cases [OF over, of n])
    case refused: 1
    then have "sbuf_bcat E h s p n = Some (-1, put_obj h s (SBUF_SETFLAG v SBUF_OVERFLOWED))"
      using False hs by (simp add: sbuf_bcat_def sbuf_mark_overflowed_def)
    then show ?thesis using appends_refused [OF over False over refl] refused n by simp
  next
    case room: (2 h1 v' b' c')
    note at1 = sbuf_overD [OF room(2)]
    have fits: "unat (s_len v') + length bs < unat (s_size v')" using room(4) n by simp
    have small: "unat (int_of_size n) = length bs"
      using fits sbuf_atD(6) [OF at1] n by (simp add: unat_int_of_size)
    have "bcopy h1 p (b', unat (size_of_int (s_len v'))) (unat n) =
        Some (put_data h1 b' (splice c' (unat (s_len v')) bs))"
      using client_bytes(1) [OF room(2) src] sbuf_write_end(3) [OF room(2) fits small]
        put_data_noop [OF room(2)] by (simp add: bcopy_def)
    then have "sbuf_bcat E h s p n = Some (0,
        put_obj (put_data h1 b' (splice c' (unat (s_len v')) bs)) s
          (v'\<lparr>s_len := s_len v' + int_of_size n\<rparr>))"
      using False hs room(1) sbuf_atD(1,2) [OF at1] by (simp add: sbuf_bcat_def)
    then show ?thesis
      using appends_grown [OF over False room(2,3) fits small] room(5) by auto
  qed
qed

lemma cat_appends:
  assumes over: "sbuf_over h0 X h s v b c" and str: "cstring_at h0 p bs" "fst p \<notin> X"
  shows "appends E h0 X s v c bs (sbuf_cat E h s p)"
proof -
  have "load_bytes h0 p (Suc (length bs)) = Some (bs @ [0])"
    using str(1) by (simp add: cstring_at_def)
  then have "load_bytes h p (Suc (length bs)) = Some (bs @ [0])"
    using client_bytes(1) [OF over] str(2) by blast
  then have "cstring_at h p bs" using str(1) by (simp add: cstring_at_def)
  then have "sbuf_cat E h s p = sbuf_bcat E h s p (of_nat (length bs))"
    by (simp add: sbuf_cat_def strlen_cstring)
  moreover have "unat (of_nat (length bs) :: size_t) = length bs"
    using str(1) by (simp add: cstring_at_def unat_of_nat take_bit_nat_eq_self)
  ultimately show ?thesis
    using bcat_appends [OF over, of p "of_nat (length bs)" bs] strlen_cstring(2) [OF str(1)] str(2)
    by simp
qed

lemma putc_appends:
  assumes over: "sbuf_over h0 X h s v b c" and ch: "(ucast ch :: byte) \<noteq> 0"
  shows "appends E h0 X s v c [ucast ch] (sbuf_putc E h s ch)"
proof (cases "SBUF_HASOVERFLOWED v")
  case True
  then show ?thesis using appends_overflowed [OF over] sbuf_atD(1) [OF sbuf_overD [OF over]]
    by (simp add: sbuf_putc_def)
next
  case False
  note hs = sbuf_atD(1) [OF sbuf_overD [OF over]]
  show ?thesis
  proof (cases rule: sbuf_ensure_capacity_cases [OF over, of 1])
    case refused: 1
    then have "sbuf_putc E h s ch = Some (-1, put_obj h s (SBUF_SETFLAG v SBUF_OVERFLOWED))"
      using False hs by (simp add: sbuf_putc_def sbuf_mark_overflowed_def)
    then show ?thesis using appends_refused [OF over False over refl, of "[ucast ch]"] refused
      by simp
  next
    case room: (2 h1 v' b' c')
    note at1 = sbuf_overD [OF room(2)]
    let ?bs = "[ucast ch] :: byte list"
    have fits: "unat (s_len v') + length ?bs < unat (s_size v')" using room(4) by simp
    have "sbuf_putc E h s ch = Some (0,
        put_obj (put_data h1 b' (splice c' (unat (s_len v')) ?bs)) s
          (v'\<lparr>s_len := s_len v' + 1\<rparr>))"
      using False hs room(1) ch sbuf_atD(1,2) [OF at1] sbuf_write_end(3) [OF room(2) fits, of 1]
      by (simp add: sbuf_putc_def)
    then show ?thesis
      using appends_grown [OF over False room(2,3) fits, of 1] room(5) by auto
  qed
qed

text \<open>A nul byte is ignored, but room for it is made all the same.\<close>

lemma putc_nul_appends:
  assumes over: "sbuf_over h0 X h s v b c" and ch: "(ucast ch :: byte) = 0"
  shows "\<exists>ok r h' v' b' c'. sbuf_putc E h s ch = Some (r, h') \<and> sbuf_over h0 X h' s v' b' c' \<and>
    (r, sbuf_view v' c') = spec_append ok [] (sbuf_view v c) \<and>
    (\<not> SBUF_CANEXTEND v \<longrightarrow> s_size v' = s_size v) \<and>
    (\<not> SBUF_HASOVERFLOWED v \<longrightarrow> append_ok E v 1 ok)"
proof (cases "SBUF_HASOVERFLOWED v")
  case True
  then have "sbuf_putc E h s ch = Some (-1, h)"
    using sbuf_atD(1) [OF sbuf_overD [OF over]] by (simp add: sbuf_putc_def)
  moreover have "(-1, sbuf_view v c) = spec_append True [] (sbuf_view v c)"
    using True by (simp add: spec_append_def)
  ultimately show ?thesis using over True by blast
next
  case False
  note hs = sbuf_atD(1) [OF sbuf_overD [OF over]]
  show ?thesis
  proof (cases rule: sbuf_ensure_capacity_cases [OF over, of 1])
    case refused: 1
    let ?w = "SBUF_SETFLAG v SBUF_OVERFLOWED"
    have "sbuf_putc E h s ch = Some (-1, put_obj h s ?w)"
      using False hs refused(1) by (simp add: sbuf_putc_def sbuf_mark_overflowed_def)
    moreover have "sbuf_over h0 X (put_obj h s ?w) s ?w b c"
      using over same_owner_overflowed sbuf_atD(7) [OF sbuf_overD [OF over]]
      by (intro sbuf_over_update_obj) simp_all
    moreover have "(-1, sbuf_view ?w c) = spec_append False [] (sbuf_view v c)"
      using False by (simp add: spec_append_def view_overflowed)
    moreover have "append_ok E v 1 False" using refused(2,3) by (simp add: append_ok_def)
    moreover have "s_size ?w = s_size v" by simp
    ultimately show ?thesis by blast
  next
    case room: (2 h1 v' b' c')
    have "sbuf_putc E h s ch = Some (0, h1)" using False hs room(1) ch by (simp add: sbuf_putc_def)
    moreover have "(0, sbuf_view v' c') = spec_append True [] (sbuf_view v c)"
      using False by (simp add: spec_append_def view_grown [OF room(3) sbuf_overD [OF over]])
    moreover have "append_ok E v 1 True"
      using room(3-5) by (auto simp: append_ok_def grown_def)
    moreover have "\<not> SBUF_CANEXTEND v \<longrightarrow> s_size v' = s_size v" using room(5) by auto
    ultimately show ?thesis using room(2) by blast
  qed
qed

end

section \<open>Formatted printing\<close>

lemma unat_text_length:
  "length out < 2 ^ 31 \<Longrightarrow> unat (of_nat (length out) :: cint) = length out"
  by (simp add: unat_of_nat take_bit_nat_eq_self)

lemma vsnprintf_fits:
  assumes over: "sbuf_over h0 X h s v b c" and fits: "unat (s_len v) + length out < unat (s_size v)"
  shows "vsnprintf h (b, unat (size_of_int (s_len v))) (sbuf_capacity v + 1) (Some out) =
    Some (of_nat (length out), put_data h b (splice c (unat (s_len v)) (out @ [0])))"
proof -
  note at = sbuf_overD [OF over]
  have cap: "unat (sbuf_capacity v + 1) = unat (s_size v) - unat (s_len v)"
    using sbuf_at_capacity [OF at] sbuf_atD(6,7) [OF at] by (simp add: unat_word_ariths)
  have "sbuf_capacity v + 1 \<noteq> 0" using cap fits by auto
  moreover have "take (unat (sbuf_capacity v + 1) - 1) out = out" using cap fits by simp
  moreover have "store_bytes h (b, unat (size_of_int (s_len v))) (out @ [0]) =
      Some (put_data h b (splice c (unat (s_len v)) (out @ [0])))"
    using store_bytes_in [OF sbuf_atD(3) [OF at], of "unat (s_len v)" "out @ [0]"]
      fits sbuf_atD(5) [OF at] by (simp add: sbuf_at_len [OF at])
  ultimately show ?thesis by (simp add: vsnprintf_def)
qed

lemma vsnprintf_short:
  assumes over: "sbuf_over h0 X h s v b c" and big: "unat (s_size v) \<le> unat (s_len v) + length out"
  obtains c1 where
    "vsnprintf h (b, unat (size_of_int (s_len v))) (sbuf_capacity v + 1) (Some out) =
      Some (of_nat (length out), put_data h b c1)"
    "sbuf_over h0 X (put_data h b c1) s v b c1" "sbuf_text v c1 = sbuf_text v c"
proof -
  note at = sbuf_overD [OF over]
  let ?k = "unat (s_len v)" and ?n = "unat (s_size v)"
  let ?bs = "take (?n - ?k - 1) out @ [0]"
  have cap: "unat (sbuf_capacity v + 1) = ?n - ?k"
    using sbuf_at_capacity [OF at] sbuf_atD(6,7) [OF at] by (simp add: unat_word_ariths)
  then have nz: "sbuf_capacity v + 1 \<noteq> 0" using sbuf_atD(7) [OF at] by auto
  have fit: "?k + length ?bs \<le> length c" using big sbuf_atD(5,7) [OF at] by simp
  have st: "store_bytes h (b, unat (size_of_int (s_len v))) ?bs = Some (put_data h b (splice c ?k ?bs))"
    using store_bytes_in [OF sbuf_atD(3) [OF at] fit] by (simp add: sbuf_at_len [OF at])
  have "sbuf_over h0 X (put_obj (put_data h b (splice c ?k ?bs)) s v) s v b (splice c ?k ?bs)"
    using over fit sbuf_atD(7) [OF at] by (intro sbuf_over_update) (simp_all add: same_owner_def)
  moreover have "put_obj (put_data h b (splice c ?k ?bs)) s v = put_data h b (splice c ?k ?bs)"
    using sbuf_atD(1) [OF at] by (simp add: put_obj_def put_data_def map_upd_triv)
  ultimately show thesis
    using st fit nz cap by (intro that [of "splice c ?k ?bs"])
      (simp_all add: vsnprintf_def sbuf_text_def)
qed

context sbuf_kernel begin

lemma vprintf_loop_fits:
  assumes over: "sbuf_over h0 X h s v b c" and fits: "unat (s_len v) + length out < unat (s_size v)"
  shows "sbuf_vprintf_loop E h s (Some out) =
    Some (0, put_obj (put_data h b (splice c (unat (s_len v)) (out @ [0]))) s
      (v\<lparr>s_len := s_len v + of_nat (length out)\<rparr>))"
proof -
  note at = sbuf_overD [OF over]
  let ?r = "of_nat (length out) :: cint"
  have small: "length out < 2 ^ 31" using fits sbuf_atD(6) [OF at] by simp
  note r = unat_text_length [OF this]
  have "\<not> ?r <s 0" using sint_nonneg [of ?r] small r by (simp add: word_sless_alt)
  moreover have "unat (size_of_int ?r) \<le> unat (sbuf_capacity v)"
    using unat_scast_nonneg [of ?r] small r fits sbuf_at_capacity [OF at] by simp
  ultimately show ?thesis
    using sbuf_atD(1,2) [OF at] vsnprintf_fits [OF over fits]
    by (subst sbuf_vprintf_loop.simps) (simp add: word_le_nat_alt)
qed

lemma vprintf_loop_short:
  assumes over: "sbuf_over h0 X h s v b c" and big: "unat (s_size v) \<le> unat (s_len v) + length out"
    and small: "length out < 2 ^ 31"
    and vs: "vsnprintf h (b, unat (size_of_int (s_len v))) (sbuf_capacity v + 1) (Some out) =
      Some (of_nat (length out), h1)"
  shows "sbuf_vprintf_loop E h s (Some out) =
    Option.bind (sbuf_ensure_capacity E h1 s (of_nat (length out))) (\<lambda>(r, h').
      if r \<noteq> -1 then sbuf_vprintf_loop E h' s (Some out) else sbuf_mark_overflowed h' s)"
proof -
  note at = sbuf_overD [OF over]
  let ?r = "of_nat (length out) :: cint"
  note r = unat_text_length [OF small]
  have "\<not> ?r <s 0" using sint_nonneg [of ?r] small r by (simp add: word_sless_alt)
  moreover have u: "unat (size_of_int ?r) = length out"
    using unat_scast_nonneg [of ?r] small r by simp
  then have "\<not> size_of_int ?r \<le> sbuf_capacity v"
    using big sbuf_at_capacity [OF at] sbuf_atD(7) [OF at] by (simp add: word_le_nat_alt)
  moreover have eq: "size_of_int ?r = of_nat (length out)"
  proof -
    have "size_of_int ?r = of_nat (unat (size_of_int ?r))" by simp
    then show ?thesis by (simp only: u)
  qed
  ultimately show ?thesis
    using sbuf_atD(1,2) [OF at] vs eq
    by (subst sbuf_vprintf_loop.simps) (simp add: case_prod_unfold)
qed

text \<open>The loop ends after at most two rounds: the second finds the room the first asked for.\<close>

lemma vprintf_appends:
  assumes over: "sbuf_over h0 X h s v b c" and small: "length out < 2 ^ 31"
  shows "appends E h0 X s v c out (sbuf_vprintf E h s (Some out))"
proof (cases "SBUF_HASOVERFLOWED v")
  case True
  then show ?thesis using appends_overflowed [OF over] sbuf_atD(1) [OF sbuf_overD [OF over]]
    by (simp add: sbuf_vprintf_def)
next
  case False
  note at = sbuf_overD [OF over]
  have top: "sbuf_vprintf E h s (Some out) = sbuf_vprintf_loop E h s (Some out)"
    using False sbuf_atD(1) [OF at] by (simp add: sbuf_vprintf_def)
  have round: "appends E h0 X s v c out (sbuf_vprintf_loop E h' s (Some out))"
    if o: "sbuf_over h0 X h' s v' b' c'"
      and g: "sbuf_view v' c' = sbuf_view v c" "s_len v' = s_len v"
      and fits: "unat (s_len v') + length out < unat (s_size v')"
      and can: "SBUF_CANEXTEND v \<or> s_size v' = s_size v" for h' v' b' c'
  proof -
    have le: "unat (s_len v') + length out < length c'"
      using fits sbuf_atD(5) [OF sbuf_overD [OF o]] by simp
    have "take (unat (s_len v') + length out) (splice c' (unat (s_len v')) (out @ [0])) =
        sbuf_text v' c' @ out"
      using le by (simp add: splice_def sbuf_text_def)
    then show ?thesis using le
      by (simp only: vprintf_loop_fits [OF o fits])
        (intro appends_accepted [OF False o g fits unat_text_length [OF small] can], simp_all)
  qed
  show ?thesis
  proof (cases "unat (s_len v) + length out < unat (s_size v)")
    case fits: True
    then show ?thesis using round [OF over refl refl fits] by (simp add: top)
  next
    case big: False
    then have le: "unat (s_size v) \<le> unat (s_len v) + length out" by simp
    obtain c1 where vs: "vsnprintf h (b, unat (size_of_int (s_len v))) (sbuf_capacity v + 1) (Some out) =
          Some (of_nat (length out), put_data h b c1)"
        and o1: "sbuf_over h0 X (put_data h b c1) s v b c1" and t1: "sbuf_text v c1 = sbuf_text v c"
      by (rule vsnprintf_short [OF over le])
    note loop = vprintf_loop_short [OF over le small vs]
    have n: "unat (of_nat (length out) :: size_t) = length out"
      using small by (simp add: unat_of_nat take_bit_nat_eq_self)
    show ?thesis
    proof (cases rule: sbuf_ensure_capacity_cases [OF o1, of "of_nat (length out)"])
      case 1
      then show ?thesis
        using appends_refused [OF over False o1 t1] sbuf_atD(1) [OF sbuf_overD [OF o1]]
        by (simp add: top loop n sbuf_mark_overflowed_def)
    next
      case (2 h' v' b' c')
      have "sbuf_view v' c' = sbuf_view v c1" by (rule view_grown [OF 2(3) sbuf_overD [OF o1]])
      also have "\<dots> = sbuf_view v c" by (simp add: sbuf_view_def t1)
      finally have view: "sbuf_view v' c' = sbuf_view v c" .
      have "appends E h0 X s v c out (sbuf_vprintf_loop E h' s (Some out))"
        using 2 by (intro round [OF 2(2) view]) (auto simp: n grown_def)
      then show ?thesis using 2(1) by (simp add: top loop)
    qed
  qed
qed

lemma vprintf_error:
  assumes over: "sbuf_over h0 X h s v b c"
  shows "sbuf_vprintf E h s None = Some (-1, h)"
  using sbuf_atD(1,2) [OF sbuf_overD [OF over]]
  by (simp add: sbuf_vprintf_def sbuf_vprintf_loop.simps vsnprintf_def word_sless_alt)

end

end
