(* ===== verification/Sbuf_Life.thy ===== *)
theory Sbuf_Life imports Sbuf_Ops begin

text \<open>
  The operations of the string buffer that do not append: position, flags, \<open>sbuf_trim\<close>,
  \<open>sbuf_finish\<close>; construction and destruction; and runs of operations against the abstract
  buffer, from \<open>sbuf_new\<close> to \<open>sbuf_delete\<close>.
\<close>

section \<open>Operations in place\<close>

lemma sless_zero: "(x :: cint) <s 0 \<longleftrightarrow> 2 ^ 31 \<le> unat x"
proof -
  have "x <s 0 \<longleftrightarrow> \<not> 0 \<le> sint x" by (simp add: word_sless_alt not_le)
  then show ?thesis by (simp only: sint_nonneg_iff not_less)
qed

lemma sless_small:
  assumes "unat (x :: cint) < 2 ^ 31" "unat (y :: cint) < 2 ^ 31"
  shows "x <s y \<longleftrightarrow> unat x < unat y"
  by (simp only: word_sless_alt sint_nonneg [OF assms(1)] sint_nonneg [OF assms(2)] of_nat_less_iff)

lemma zero_sless: "unat (x :: cint) < 2 ^ 31 \<Longrightarrow> 0 <s x \<longleftrightarrow> 0 < unat x"
  using sless_small [of 0 x] by simp

definition spec_setpos :: "cint \<Rightarrow> asbuf \<Rightarrow> cint \<times> asbuf" where
  "spec_setpos pos a =
     (if unat pos \<le> length (a_text a) \<and> unat pos < 2 ^ 31
      then (0, a\<lparr>a_text := take (unat pos) (a_text a)\<rparr>) else (-1, a))"

definition spec_clear :: "asbuf \<Rightarrow> asbuf" where
  "spec_clear a = a\<lparr>a_text := [], a_over := False, a_done := False\<rparr>"

definition spec_finish :: "asbuf \<Rightarrow> asbuf" where
  "spec_finish a = a\<lparr>a_over := False, a_done := True\<rparr>"

text \<open>Dropping the white space at the end of a text.\<close>

definition rstrip :: "byte list \<Rightarrow> byte list" where
  "rstrip bs = rev (dropWhile isspace (rev bs))"

definition spec_trim :: "asbuf \<Rightarrow> cint \<times> asbuf" where
  "spec_trim a = (if a_over a then (-1, a) else (0, a\<lparr>a_text := rstrip (a_text a)\<rparr>))"

lemma rstrip_snoc [simp]:
  "rstrip (bs @ [x]) = (if isspace x then rstrip bs else bs @ [x])"
  by (simp add: rstrip_def)

lemma rstrip_nil [simp]: "rstrip [] = []"
  by (simp add: rstrip_def)

text \<open>Moving the position back.\<close>

lemma sbuf_over_shorter:
  assumes over: "sbuf_over h0 X h s v b c" and p: "unat p \<le> unat (s_len v)"
  shows "sbuf_over h0 X (put_obj h s (v\<lparr>s_len := p\<rparr>)) s (v\<lparr>s_len := p\<rparr>) b c"
    and "sbuf_view (v\<lparr>s_len := p\<rparr>) c = sbuf_view v c\<lparr>a_text := take (unat p) (sbuf_text v c)\<rparr>"
proof -
  show "sbuf_over h0 X (put_obj h s (v\<lparr>s_len := p\<rparr>)) s (v\<lparr>s_len := p\<rparr>) b c"
    using over le_less_trans [OF p sbuf_atD(7) [OF sbuf_overD [OF over]]]
    by (intro sbuf_over_update_obj) simp_all
  show "sbuf_view (v\<lparr>s_len := p\<rparr>) c = sbuf_view v c\<lparr>a_text := take (unat p) (sbuf_text v c)\<rparr>"
    using p by (simp add: sbuf_view_def sbuf_text_def flag_simps min_def)
qed

lemma setpos_refines:
  assumes over: "sbuf_over h0 X h s v b c"
  shows "\<exists>r h' v'. sbuf_setpos h s pos = Some (r, h') \<and> sbuf_over h0 X h' s v' b c \<and>
    s_size v' = s_size v \<and> (r, sbuf_view v' c) = spec_setpos pos (sbuf_view v c)"
proof -
  note at = sbuf_overD [OF over]
  have len: "unat (s_len v) < 2 ^ 31" using sbuf_atD(6,7) [OF at] by simp
  have test: "pos <s 0 \<or> s_len v <s pos \<longleftrightarrow> \<not> (unat pos \<le> unat (s_len v) \<and> unat pos < 2 ^ 31)"
    using len sless_small [of "s_len v" pos] sless_zero [of pos] by auto
  note tl = sbuf_text_length [OF at]
  show ?thesis
  proof (cases "unat pos \<le> unat (s_len v) \<and> unat pos < 2 ^ 31")
    case True
    then show ?thesis using sbuf_over_shorter [OF over, of pos] sbuf_atD(1) [OF at] test tl
      by (auto simp: sbuf_setpos_def spec_setpos_def)
  next
    case False
    then have "sbuf_setpos h s pos = Some (-1, h)"
      using sbuf_atD(1) [OF at] test by (simp add: sbuf_setpos_def)
    moreover have "(-1, sbuf_view v c) = spec_setpos pos (sbuf_view v c)"
      using False tl by (auto simp: spec_setpos_def)
    ultimately show ?thesis using over by blast
  qed
qed

lemma clear_refines:
  assumes over: "sbuf_over h0 X h s v b c"
  shows "\<exists>v'. sbuf_clear h s = Some (put_obj h s v') \<and> sbuf_over h0 X (put_obj h s v') s v' b c \<and>
    s_size v' = s_size v \<and> sbuf_view v' c = spec_clear (sbuf_view v c)"
proof -
  let ?w = "SBUF_CLEARFLAG (SBUF_CLEARFLAG v SBUF_FINISHED) SBUF_OVERFLOWED"
  note at = sbuf_overD [OF over]
  have owner: "same_owner ?w v"
    by (simp add: same_owner_def flag_simps)
  have o1: "sbuf_over h0 X (put_obj h s ?w) s ?w b c"
    using over owner sbuf_atD(7) [OF at] by (intro sbuf_over_update_obj) simp_all
  have "\<not> (s_len v <s 0)" using sbuf_atD(6,7) [OF at] by (simp add: sless_zero)
  then have "sbuf_clear h s = Some (put_obj h s (?w\<lparr>s_len := 0\<rparr>))"
    using sbuf_atD(1) [OF at] by (simp add: sbuf_clear_def sbuf_setpos_def put_obj_def)
  moreover have "sbuf_over h0 X (put_obj h s (?w\<lparr>s_len := 0\<rparr>)) s (?w\<lparr>s_len := 0\<rparr>) b c"
    using sbuf_over_shorter(1) [OF o1, of 0] by (simp add: put_obj_def)
  moreover have "\<not> SBUF_ISSET ?w SBUF_OVERFLOWED" by (rule isset_clearflag_same)
  moreover have "\<not> SBUF_ISSET ?w SBUF_FINISHED"
    using isset_clearflag_same [of v SBUF_FINISHED]
    by (subst isset_clearflag_other) (simp_all add: sbuf_flag_consts)
  moreover have "SBUF_CANEXTEND ?w = SBUF_CANEXTEND v"
    by (simp add: flag_simps)
  ultimately show ?thesis
    using sbuf_over_shorter(2) [OF o1, of 0]
    by (intro exI [of _ "?w\<lparr>s_len := 0\<rparr>"])
      (simp add: spec_clear_def sbuf_view_def sbuf_flag_tests isset_cong)
qed

lemma finish_refines:
  assumes over: "sbuf_over h0 X h s v b c"
  shows "\<exists>h' v' c'. sbuf_finish h s = Some h' \<and> sbuf_over h0 X h' s v' b c' \<and>
    s_size v' = s_size v \<and> sbuf_view v' c' = spec_finish (sbuf_view v c) \<and> c' ! unat (s_len v') = 0"
proof -
  let ?w = "SBUF_SETFLAG (SBUF_CLEARFLAG v SBUF_OVERFLOWED) SBUF_FINISHED"
  let ?c = "splice c (unat (s_len v)) [0]"
  note at = sbuf_overD [OF over]
  have fit: "unat (s_len v) + length [0 :: byte] \<le> length c" using sbuf_atD(5,7) [OF at] by simp
  have "sbuf_finish h s = Some (put_obj (put_data h b ?c) s ?w)"
    using sbuf_atD(1,2) [OF at] store_bytes_in [OF sbuf_atD(3) [OF at] fit] sbuf_at_len [OF at]
    by (simp add: sbuf_finish_def)
  moreover have "same_owner ?w v" by (simp add: same_owner_def flag_simps)
  then have "sbuf_over h0 X (put_obj (put_data h b ?c) s ?w) s ?w b ?c"
    using over fit sbuf_atD(7) [OF at] by (intro sbuf_over_update) simp_all
  moreover have "\<not> SBUF_ISSET ?w SBUF_OVERFLOWED"
    using isset_clearflag_same [of v SBUF_OVERFLOWED]
    by (simp add: isset_setflag) (simp add: sbuf_flag_consts)
  moreover have "SBUF_ISSET ?w SBUF_FINISHED" "SBUF_CANEXTEND ?w = SBUF_CANEXTEND v"
    by (simp_all add: flag_simps)
  ultimately show ?thesis using fit
    by (intro exI [of _ "put_obj (put_data h b ?c) s ?w"] exI [of _ ?w] exI [of _ ?c])
      (simp add: spec_finish_def sbuf_view_def SBUF_HASOVERFLOWED_def SBUF_ISFINISHED_def
        sbuf_text_def)
qed

text \<open>The loop of \<open>sbuf_trim\<close> ends, at the position behind the last byte that is not white.\<close>

lemma trim_loop_refines:
  assumes "sbuf_over h0 X h s v b c"
  shows "\<exists>h' v'. sbuf_trim_loop h s = Some h' \<and> sbuf_over h0 X h' s v' b c \<and>
    s_size v' = s_size v \<and> sbuf_view v' c = sbuf_view v c\<lparr>a_text := rstrip (sbuf_text v c)\<rparr>"
  using assms
proof (induction "unat (s_len v)" arbitrary: h v)
  case 0
  note at = sbuf_overD [OF 0(2)]
  have "sbuf_trim_loop h s = Some h"
    using 0(1) sbuf_atD(1) [OF at]
    by (subst sbuf_trim_loop.simps) (simp add: zero_sless)
  moreover have "sbuf_text v c = []" using 0(1) by (simp add: sbuf_text_def)
  ultimately show ?case using 0(2) by (auto simp: sbuf_view_def)
next
  case (Suc n)
  note over = Suc.prems
  note at = sbuf_overD [OF over]
  have n: "unat (s_len v) = Suc n" using Suc.hyps(2) by simp
  have m: "unat (s_len v - 1) = n" using n by (simp add: unat_sub word_le_nat_alt)
  have small: "Suc n < 2 ^ 31" "Suc n < length c" using n sbuf_atD(5-7) [OF at] by auto
  have ch: "load_bytes h (b, unat (size_of_int (s_len v - 1))) 1 = Some [c ! n]"
    using small sbuf_atD(3) [OF at]
    by (simp add: unat_scast_nonneg m load_bytes_def take_Suc_conv_app_nth hd_drop_conv_nth
        take_Suc)
  have text0: "sbuf_text v c = take n c @ [c ! n]"
    using n small by (simp add: sbuf_text_def take_Suc_conv_app_nth)
  have unfold: "sbuf_trim_loop h s =
      (if isspace (c ! n) then sbuf_trim_loop (put_obj h s (v\<lparr>s_len := s_len v - 1\<rparr>)) s else Some h)"
    using n small sbuf_atD(1,2) [OF at] ch
    by (subst sbuf_trim_loop.simps) (simp add: zero_sless)
  show ?case
  proof (cases "isspace (c ! n)")
    case True
    let ?w = "v\<lparr>s_len := s_len v - 1\<rparr>"
    note shorter = sbuf_over_shorter [OF over, of "s_len v - 1"]
    have o1: "sbuf_over h0 X (put_obj h s ?w) s ?w b c" using shorter(1) m n by simp
    have "sbuf_text ?w c = take n c" by (simp add: sbuf_text_def m)
    then show ?thesis
      using Suc.hyps(1) [OF _ o1] m shorter(2) True
      by (simp add: unfold text0 n)
  next
    case False
    then show ?thesis using over by (auto simp: unfold text0 sbuf_view_def)
  qed
qed

lemma trim_refines:
  assumes over: "sbuf_over h0 X h s v b c"
  shows "\<exists>r h' v'. sbuf_trim h s = Some (r, h') \<and> sbuf_over h0 X h' s v' b c \<and>
    s_size v' = s_size v \<and> (r, sbuf_view v' c) = spec_trim (sbuf_view v c)"
  using trim_loop_refines [OF over] over sbuf_atD(1) [OF sbuf_overD [OF over]]
  by (cases "SBUF_HASOVERFLOWED v") (auto simp: sbuf_trim_def spec_trim_def)

lemma sbuf_readers:
  assumes over: "sbuf_over h0 X h s v b c"
  shows "sbuf_len h s = Some (if a_over (sbuf_view v c) then -1
      else of_nat (length (a_text (sbuf_view v c))))"
    and "sbuf_done h s = Some (if a_done (sbuf_view v c) then 1 else 0)"
    and "sbuf_overflowed h s = Some (if a_over (sbuf_view v c) then 1 else 0)"
    and "sbuf_data h s = Some (Some b)"
  using sbuf_atD(1,2) [OF sbuf_overD [OF over]] sbuf_text_length [OF sbuf_overD [OF over]]
  by (simp_all add: sbuf_len_def sbuf_done_def sbuf_overflowed_def sbuf_data_def)

section \<open>Destruction and construction\<close>

text \<open>
  The heap a buffer's life leaves behind: nothing is owned that was not owned before, character
  memory outside the lent blocks \<open>X\<close> is as before, and of the structures only those of \<open>S\<close> may
  have changed, but none appeared or vanished.
\<close>

definition restored :: "sbuf heap \<Rightarrow> addr set \<Rightarrow> addr set \<Rightarrow> sbuf heap \<Rightarrow> bool" where
  "restored h0 X S h \<longleftrightarrow> hp_owned h = hp_owned h0 \<and>
     (\<forall>a. a \<notin> X \<longrightarrow> hp_data h a = hp_data h0 a) \<and>
     (\<forall>a. a \<notin> S \<longrightarrow> hp_obj h a = hp_obj h0 a) \<and>
     (\<forall>a\<in>S. hp_obj h a = None \<longleftrightarrow> hp_obj h0 a = None)"

lemma delete_restores:
  assumes over: "sbuf_over h0 X h s v b c"
  shows "\<exists>h'. sbuf_delete h s = Some h' \<and> restored h0 X {s} h'"
proof -
  note over0 = over [unfolded sbuf_over_def sbuf_at_def]
  show ?thesis
    using over0
    by (cases "SBUF_ISDYNAMIC v"; cases "SBUF_ISDYNSTRUCT v")
      (auto simp: sbuf_delete_def kfree_data_def kfree_type_def free_data_def free_obj_def
        restored_def)
qed

text \<open>A structure that \<open>sbuf_new\<close> has just prepared.\<close>

definition sbuf_young :: "sbuf heap \<Rightarrow> sbuf heap \<Rightarrow> addr \<Rightarrow> sbuf \<Rightarrow> cint \<Rightarrow> bool" where
  "sbuf_young h0 h s v flags \<longleftrightarrow>
     hp_finite h0 \<and> hp_obj h s = Some v \<and> s_buf v = None \<and> s_len v = 0 \<and> \<not> SBUF_ISDYNAMIC v \<and>
     \<not> SBUF_ISFINISHED v \<and> \<not> SBUF_HASOVERFLOWED v \<and>
     SBUF_CANEXTEND v = (flags AND SBUF_AUTOEXTEND \<noteq> 0) \<and>
     (\<forall>a. a \<noteq> s \<longrightarrow> hp_obj h a = hp_obj h0 a) \<and> hp_data h = hp_data h0 \<and> hp_data h0 s = None \<and>
     (if SBUF_ISDYNSTRUCT v then hp_obj h0 s = None \<and> s \<notin> hp_owned h0 else hp_obj h0 s \<noteq> None) \<and>
     hp_owned h = hp_owned h0 \<union> (if SBUF_ISDYNSTRUCT v then {s} else {})"

lemma young_finite:
  assumes "sbuf_young h0 h s v flags"
  shows "hp_finite h"
proof -
  have "dom (hp_obj h) \<subseteq> insert s (dom (hp_obj h0))"
  proof
    fix a assume "a \<in> dom (hp_obj h)"
    then show "a \<in> insert s (dom (hp_obj h0))"
      using assms by (cases "a = s") (auto simp: sbuf_young_def)
  qed
  then show ?thesis using assms
    by (auto simp: sbuf_young_def hp_finite_def intro: finite_subset)
qed

lemma young_fails:
  assumes "sbuf_young h0 h s v flags"
  shows "\<exists>h'. sbuf_new_fail h s = Some (None, h') \<and> restored h0 {} {s} h'"
  using assms
  by (cases "SBUF_ISDYNSTRUCT v")
    (auto simp: sbuf_young_def sbuf_new_fail_def sbuf_delete_def kfree_type_def free_obj_def
      restored_def)

lemma young_buffer:
  assumes "sbuf_young h0 h s v flags" "hp_data h0 b = Some c" "unat n \<le> length c"
    "unat n < 2 ^ 31" "0 < unat n"
  shows "sbuf_over h0 {b} (put_obj h s (v\<lparr>s_size := int_of_size n, s_buf := Some b\<rparr>)) s
    (v\<lparr>s_size := int_of_size n, s_buf := Some b\<rparr>) b c"
proof -
  have "unat (int_of_size n) = unat n" using assms(4) by (rule unat_int_of_size)
  moreover have "b \<noteq> s" using assms(1,2) by (auto simp: sbuf_young_def)
  ultimately show ?thesis
    using assms unfolding sbuf_young_def
    by (cases "SBUF_ISDYNSTRUCT v") (auto simp: sbuf_over_def sbuf_at_def flag_simps)
qed

lemma young_allocated:
  assumes young: "sbuf_young h0 h s v flags"
    and new: "hp_data h b = None" "hp_obj h b = None" "b \<notin> hp_owned h" "length c = unat n"
    and n: "unat n < 2 ^ 31" "0 < unat n"
  defines "w \<equiv> SBUF_SETFLAG (v\<lparr>s_buf := Some b, s_size := int_of_size n\<rparr>) SBUF_DYNAMIC"
  shows "sbuf_over h0 {} (put_obj (put_data (h\<lparr>hp_owned := insert b (hp_owned h)\<rparr>) b c) s w) s w b c"
proof -
  have u: "unat (int_of_size n) = unat n" using n(1) by (rule unat_int_of_size)
  have bs: "b \<noteq> s" using young new by (auto simp: sbuf_young_def)
  then have h0: "hp_data h0 b = None" "hp_obj h0 b = None" "b \<notin> hp_owned h0"
    using young new by (auto simp: sbuf_young_def)
  have w: "SBUF_ISDYNAMIC w" "SBUF_ISDYNSTRUCT w = SBUF_ISDYNSTRUCT v" "s_buf w = Some b"
      "unat (s_size w) = unat n" "s_len w = s_len v"
    by (simp_all add: w_def flag_simps u)
  show ?thesis
    using young bs h0 w n new(4) unfolding sbuf_young_def
    by (cases "SBUF_ISDYNSTRUCT v") (auto simp: sbuf_over_def sbuf_at_def)
qed

lemma young_view:
  assumes "sbuf_young h0 h s v flags"
  shows "sbuf_view (v\<lparr>s_size := n, s_buf := x\<rparr>) c =
      \<lparr>a_text = [], a_over = False, a_done = False, a_auto = (flags AND SBUF_AUTOEXTEND \<noteq> 0)\<rparr>"
    and "sbuf_view (SBUF_SETFLAG (v\<lparr>s_buf := x, s_size := n\<rparr>) SBUF_DYNAMIC) c =
      \<lparr>a_text = [], a_over = False, a_done = False, a_auto = (flags AND SBUF_AUTOEXTEND \<noteq> 0)\<rparr>"
  using assms by (simp_all add: sbuf_young_def sbuf_view_def sbuf_text_def flag_simps)

lemma user_flags:
  assumes "flags AND NOT SBUF_USRFLAGMSK = 0" "f AND SBUF_USRFLAGMSK = 0"
  shows "flags AND f = 0"
proof -
  have "flags AND f = (flags AND NOT SBUF_USRFLAGMSK) AND f OR flags AND (f AND SBUF_USRFLAGMSK)"
    by (auto simp: bit_eq_iff bit_simps)
  then show ?thesis using assms by simp
qed

text \<open>A new buffer, and when \<open>sbuf_new\<close> accepts its arguments.\<close>

definition sbuf_fresh :: "cint \<Rightarrow> asbuf" where
  "sbuf_fresh flags = \<lparr>a_text = [], a_over = False, a_done = False,
     a_auto = (flags AND SBUF_AUTOEXTEND \<noteq> 0)\<rparr>"

definition new_accepts_args :: "addr option \<Rightarrow> cint \<Rightarrow> cint \<Rightarrow> bool" where
  "new_accepts_args bopt n flags \<longleftrightarrow> unat n < 2 ^ 31 \<and> flags AND NOT SBUF_USRFLAGMSK = 0 \<and>
     (bopt = None \<longrightarrow> flags AND SBUF_AUTOEXTEND \<noteq> 0 \<or> n \<noteq> 0)"

definition new_accepts :: "kenv \<Rightarrow> addr option \<Rightarrow> cint \<Rightarrow> cint \<Rightarrow> bool" where
  "new_accepts E bopt n flags \<longleftrightarrow> new_accepts_args bopt n flags \<and>
     (bopt = None \<and> flags AND SBUF_AUTOEXTEND \<noteq> 0 \<longrightarrow> unat n + 2 ^ ke_page_shift E \<le> 2 ^ 31)"

lemma bzero_flags:
  assumes "flags AND NOT SBUF_USRFLAGMSK = 0"
  defines "v \<equiv> sbuf_bzero\<lparr>s_flags := flags\<rparr>"
  shows "\<not> SBUF_ISSET v SBUF_DYNAMIC" "\<not> SBUF_ISSET v SBUF_DYNSTRUCT"
    "\<not> SBUF_ISSET v SBUF_FINISHED" "\<not> SBUF_ISSET v SBUF_OVERFLOWED"
    "SBUF_ISSET v SBUF_AUTOEXTEND \<longleftrightarrow> flags AND SBUF_AUTOEXTEND \<noteq> 0"
  using user_flags [OF assms(1)] by (simp_all add: SBUF_ISSET_def v_def sbuf_flag_consts)

context sbuf_kernel begin

lemma new_struct_cases:
  assumes fin: "hp_finite h0" and fl: "flags AND NOT SBUF_USRFLAGMSK = 0"
    and s: "\<And>a. sopt = Some a \<Longrightarrow> hp_obj h0 a \<noteq> None \<and> hp_data h0 a = None"
  obtains (null) "sopt = None" "sbuf_new_struct E h0 sopt flags = Some (None, h0)"
      "fst (kalloc_type (ke_malloc E) h0 32 (Z_WAITOK OR Z_ZERO) sbuf_bzero) = None"
  | (made) s h v where "sbuf_new_struct E h0 sopt flags = Some (Some s, h)"
      "sbuf_young h0 h s v flags" "SBUF_ISDYNSTRUCT v \<longleftrightarrow> sopt = None"
      "sopt \<noteq> None \<Longrightarrow> sopt = Some s"
proof (cases sopt)
  case None
  show thesis
  proof (cases rule: kalloc_type_cases [of h0 32 "Z_WAITOK OR Z_ZERO" sbuf_bzero])
    case null
    then show thesis using that(1) None by (simp add: sbuf_new_struct_def)
  next
    case (new a)
    let ?v = "SBUF_SETFLAG (sbuf_bzero\<lparr>s_flags := flags\<rparr>) SBUF_DYNSTRUCT"
    let ?h = "put_obj (h0\<lparr>hp_owned := insert a (hp_owned h0)\<rparr>) a ?v"
    have "sbuf_new_struct E h0 sopt flags = Some (Some a, ?h)"
      using new(1) None by (simp add: sbuf_new_struct_def put_obj_def)
    moreover have "sbuf_young h0 ?h a ?v flags" "SBUF_ISDYNSTRUCT ?v"
      using fin new(2-4) bzero_flags [OF fl]
      by (auto simp: sbuf_young_def sbuf_bzero_def flag_simps)
    ultimately show thesis using None by (intro made) simp_all
  qed
next
  case (Some a)
  let ?v = "sbuf_bzero\<lparr>s_flags := flags\<rparr>"
  have "sbuf_new_struct E h0 sopt flags = Some (Some a, put_obj h0 a ?v)"
    using s [OF Some] Some by (auto simp: sbuf_new_struct_def)
  moreover have "sbuf_young h0 (put_obj h0 a ?v) a ?v flags" "\<not> SBUF_ISDYNSTRUCT ?v"
    using fin s [OF Some] bzero_flags [OF fl]
    by (auto simp: sbuf_young_def sbuf_bzero_def flag_simps)
  ultimately show thesis using Some by (intro made) simp_all
qed

lemma new_buf_lent:
  assumes young: "sbuf_young h0 h s v flags" and buf: "hp_data h0 b = Some c" "unat n \<le> length c"
    and n: "unat n < 2 ^ 31" "0 < unat n"
  shows "\<exists>h' v'. sbuf_new_buf E h s (Some b) n = Some (Some s, h') \<and>
    sbuf_over h0 {b} h' s v' b c \<and> unat (s_size v') = unat n \<and> sbuf_view v' c = sbuf_fresh flags"
  using young_buffer [OF young buf n] young_view(1) [OF young] young unat_int_of_size [OF n(1)]
  by (auto simp: sbuf_new_buf_def sbuf_young_def sbuf_fresh_def)

lemma new_buf_allocates:
  assumes young: "sbuf_young h0 h s v flags" and small: "unat n < 2 ^ 31"
  obtains (fails) h' where "sbuf_new_buf E h s None n = Some (None, h')" "restored h0 {} {s} h'"
      "\<not> SBUF_CANEXTEND v \<and> n = 0 \<or> SBUF_CANEXTEND v \<and> 2 ^ 31 < unat n + 2 ^ ke_page_shift E \<or>
        allocator_fails E"
  | (made) h' v' b c where "sbuf_new_buf E h s None n = Some (Some s, h')"
      "sbuf_over h0 {} h' s v' b c" "unat n \<le> unat (s_size v')" "0 < unat (s_size v')"
      "\<not> SBUF_CANEXTEND v \<Longrightarrow> unat (s_size v') = unat n" "sbuf_view v' c = sbuf_fresh flags"
proof -
  have hs: "hp_obj h s = Some v" using young by (simp add: sbuf_young_def)
  obtain h' where h': "sbuf_new_fail h s = Some (None, h')" "restored h0 {} {s} h'"
    using young_fails [OF young] by blast
  have alloc: thesis
    if size: "(if SBUF_CANEXTEND v then sbuf_extendsize E n else Some (0, n)) = Some (0, m)"
      and m: "unat n \<le> unat m" "0 < unat m" "unat m < 2 ^ 31"
        "\<not> SBUF_CANEXTEND v \<Longrightarrow> unat m = unat n" for m
  proof (cases rule: kalloc_data_cases [of h m "Z_WAITOK OR Z_ZERO"])
    case null
    then have "fst (kalloc_data (ke_malloc E) h m (Z_WAITOK OR Z_ZERO)) = None" by simp
    then have "allocator_fails E"
      using young_finite [OF young] unfolding allocator_fails_def by blast
    moreover have "sbuf_new_buf E h s None n = Some (None, h')"
      using null h'(1) size hs m(2) by (simp add: sbuf_new_buf_def)
    ultimately show thesis using fails h'(2) by blast
  next
    case (new b c)
    let ?w = "SBUF_SETFLAG (v\<lparr>s_buf := Some b, s_size := int_of_size m\<rparr>) SBUF_DYNAMIC"
    let ?h = "put_obj (put_data (h\<lparr>hp_owned := insert b (hp_owned h)\<rparr>) b c) s ?w"
    have "sbuf_new_buf E h s None n = Some (Some s, ?h)"
      using new(1) size hs m(2) by (auto simp: sbuf_new_buf_def)
    moreover have "sbuf_over h0 {} ?h s ?w b c"
      using young_allocated [OF young new(2-5) m(3,2)] .
    ultimately show thesis using m unat_int_of_size [OF m(3)] young_view(2) [OF young]
      by (intro made [of ?h ?w b c]) (simp_all add: sbuf_fresh_def)
  qed
  show thesis
  proof (cases "SBUF_CANEXTEND v")
    case False
    then show thesis using alloc [of n] small fails h' hs
      by (cases "n = 0") (auto simp: sbuf_new_buf_def unat_gt_0)
  next
    case True
    show thesis
    proof (cases rule: sbuf_extendsize_cases [of n])
      case fail
      then show thesis using fails fail True h' hs by (auto simp: sbuf_new_buf_def)
    next
      case (size m)
      then show thesis using alloc [of m] True by simp
    qed
  qed
qed

text \<open>\<open>sbuf_new\<close>: the structure and the buffer a client lends must be live and apart.\<close>

lemma new_refines:
  assumes fin: "hp_finite h0"
    and struct: "\<And>a. sopt = Some a \<Longrightarrow> hp_obj h0 a \<noteq> None \<and> hp_data h0 a = None"
    and buf: "\<And>b. bopt = Some b \<Longrightarrow> 0 < unat n \<and> (\<exists>c. hp_data h0 b = Some c \<and> unat n \<le> length c)"
  shows "\<exists>r h'. sbuf_new E h0 sopt bopt n flags = Some (r, h') \<and>
    (case r of
       None \<Rightarrow> restored h0 {} (set_option sopt) h' \<and> (new_accepts E bopt n flags \<longrightarrow> allocator_fails E)
     | Some s \<Rightarrow> new_accepts_args bopt n flags \<and> sopt \<in> {None, Some s} \<and>
         (sopt = None \<longrightarrow> hp_obj h0 s = None) \<and> (\<exists>v b c.
         sbuf_over h0 (set_option bopt) h' s v b c \<and> sbuf_view v c = sbuf_fresh flags \<and>
         unat n \<le> unat (s_size v) \<and>
         (bopt \<noteq> None \<or> \<not> a_auto (sbuf_fresh flags) \<longrightarrow> unat (s_size v) = unat n)))"
proof (cases "size_of_int n > INT_MAX \<or> flags AND NOT SBUF_USRFLAGMSK \<noteq> 0")
  case True
  then have "sbuf_new E h0 sopt bopt n flags = Some (None, h0)" by (simp add: sbuf_new_def)
  moreover have "\<not> new_accepts E bopt n flags"
    using True unat_scast_nonneg [of n]
    by (auto simp: new_accepts_def new_accepts_args_def word_less_nat_alt)
  ultimately show ?thesis by (auto simp: restored_def)
next
  case False
  then have fl: "flags AND NOT SBUF_USRFLAGMSK = 0" by simp
  have small: "unat n < 2 ^ 31"
    using False unat_scast_negative [of n] by (force simp: word_less_nat_alt not_less)
  note un = unat_scast_nonneg [OF small]
  show ?thesis
  proof (cases rule: new_struct_cases [OF fin fl struct, of sopt])
    case 2
    then have "allocator_fails E" using fin unfolding allocator_fails_def by blast
    with 2 False show ?thesis by (auto simp: sbuf_new_def restored_def)
  next
    case (3 s h v)
    then have top: "sbuf_new E h0 sopt bopt n flags = sbuf_new_buf E h s bopt (size_of_int n)"
      using False by (simp add: sbuf_new_def)
    have fresh: "sopt = None \<Longrightarrow> hp_obj h0 s = None" using 3(2,3) by (simp add: sbuf_young_def)
    have can: "SBUF_CANEXTEND v \<longleftrightarrow> flags AND SBUF_AUTOEXTEND \<noteq> 0"
      using 3(2) by (simp add: sbuf_young_def)
    show ?thesis
    proof (cases bopt)
      case (Some b)
      then obtain c where c: "0 < unat n" "hp_data h0 b = Some c" "unat n \<le> length c"
        using buf by blast
      then obtain h' v' where "sbuf_new_buf E h s (Some b) (size_of_int n) = Some (Some s, h')"
          "sbuf_over h0 {b} h' s v' b c" "unat (s_size v') = unat n" "sbuf_view v' c = sbuf_fresh flags"
        using new_buf_lent [OF 3(2), of b c "size_of_int n"] small un by auto
      then show ?thesis unfolding top using fresh 3(4) Some small fl
        by (intro exI [of _ "Some s"] exI [of _ h']) (cases sopt; force simp: new_accepts_args_def)
    next
      case None
      have sz: "unat (size_of_int n) < 2 ^ 31" using small un by simp
      show ?thesis
      proof (cases rule: new_buf_allocates [OF 3(2) sz])
        case (1 h')
        have "restored h0 {} (set_option sopt) h'"
          using fresh 1(2) 3(4) by (cases sopt) (auto simp: restored_def, metis)
        moreover have "\<not> new_accepts E bopt n flags \<or> allocator_fails E"
          using 1(3) None can un by (auto simp: new_accepts_def new_accepts_args_def unat_eq_0)
        ultimately show ?thesis unfolding top using 1(1) None
          by (intro exI [of _ None] exI [of _ h']) auto
      next
        case (2 h' v' b c)
        have "flags AND SBUF_AUTOEXTEND \<noteq> 0 \<or> n \<noteq> 0"
          using 2(4,5) can un by auto
        then show ?thesis unfolding top using fresh 2 None un can 3(4) small fl
          by (intro exI [of _ "Some s"] exI [of _ h'])
            (cases sopt; auto simp: new_accepts_args_def sbuf_fresh_def)
      qed
    qed
  qed (use struct in auto)
qed

end

end
