(* ===== verification/Sbuf_Run.thy ===== *)
theory Sbuf_Run imports Sbuf_Life begin

text \<open>
  Clients of the string buffer: every operation refines its abstract version, and so does every
  run of operations, from \<open>sbuf_new\<close> to \<open>sbuf_delete\<close>. The decision to accept an append is a
  parameter \<open>d\<close> of the abstract run; \<open>dec_ok\<close> bounds it, and for a fixed buffer, and for a growing
  one over an allocator that does not fail, it is determined.
\<close>

section \<open>Operations as data\<close>

datatype sbuf_op =
    Op_bcat ptr size_t
  | Op_bcpy ptr size_t
  | Op_cat ptr
  | Op_cpy ptr
  | Op_printf "byte list option"
  | Op_putc cint
  | Op_setpos cint
  | Op_clear
  | Op_trim
  | Op_finish

text \<open>A call of the operation; a \<open>void\<close> function counts as returning 0.\<close>

fun exec_op :: "kenv \<Rightarrow> sbuf heap \<Rightarrow> addr \<Rightarrow> sbuf_op \<Rightarrow> (cint \<times> sbuf heap) option" where
  "exec_op E h s (Op_bcat p n) = sbuf_bcat E h s p n"
| "exec_op E h s (Op_bcpy p n) = sbuf_bcpy E h s p n"
| "exec_op E h s (Op_cat p) = sbuf_cat E h s p"
| "exec_op E h s (Op_cpy p) = sbuf_cpy E h s p"
| "exec_op E h s (Op_printf out) = sbuf_printf E h s out"
| "exec_op E h s (Op_putc ch) = sbuf_putc E h s ch"
| "exec_op E h s (Op_setpos pos) = sbuf_setpos h s pos"
| "exec_op E h s Op_clear = map_option (Pair 0) (sbuf_clear h s)"
| "exec_op E h s Op_trim = sbuf_trim h s"
| "exec_op E h s Op_finish = map_option (Pair 0) (sbuf_finish h s)"

fun exec_run :: "kenv \<Rightarrow> sbuf heap \<Rightarrow> addr \<Rightarrow> sbuf_op list \<Rightarrow> (cint list \<times> sbuf heap) option" where
  "exec_run E h s [] = Some ([], h)"
| "exec_run E h s (op # ops) = do {
     (r, h) \<leftarrow> exec_op E h s op;
     (rs, h) \<leftarrow> exec_run E h s ops;
     Some (r # rs, h) }"

text \<open>The bytes an operation is given, read in the client's memory.\<close>

definition bytes_at :: "sbuf heap \<Rightarrow> ptr \<Rightarrow> nat \<Rightarrow> byte list" where
  "bytes_at h p n = the (load_bytes h p n)"

definition string_at :: "sbuf heap \<Rightarrow> ptr \<Rightarrow> byte list" where
  "string_at h p = takeWhile (\<lambda>x. x \<noteq> 0) (drop (snd p) (the (hp_data h (fst p))))"

text \<open>
  What a client must see to: the source is live memory it did not lend to the buffer, a string is
  terminated, the output of a format fits an int.
\<close>

fun op_ready :: "sbuf heap \<Rightarrow> addr set \<Rightarrow> sbuf_op \<Rightarrow> bool" where
  "op_ready h X (Op_bcat p n) \<longleftrightarrow> load_bytes h p (unat n) \<noteq> None \<and> fst p \<notin> X"
| "op_ready h X (Op_bcpy p n) \<longleftrightarrow> load_bytes h p (unat n) \<noteq> None \<and> fst p \<notin> X"
| "op_ready h X (Op_cat p) \<longleftrightarrow> cstring_at h p (string_at h p) \<and> fst p \<notin> X"
| "op_ready h X (Op_cpy p) \<longleftrightarrow> cstring_at h p (string_at h p) \<and> fst p \<notin> X"
| "op_ready h X (Op_printf out) \<longleftrightarrow> (case out of None \<Rightarrow> True | Some bs \<Rightarrow> length bs < 2 ^ 31)"
| "op_ready h X _ \<longleftrightarrow> True"

section \<open>The abstract run\<close>

fun spec_op :: "sbuf heap \<Rightarrow> sbuf_op \<Rightarrow> (asbuf \<Rightarrow> nat \<Rightarrow> bool) \<Rightarrow> asbuf \<Rightarrow> cint \<times> asbuf" where
  "spec_op h (Op_bcat p n) d a = spec_append (d a (unat n)) (bytes_at h p (unat n)) a"
| "spec_op h (Op_bcpy p n) d a =
     spec_append (d (spec_clear a) (unat n)) (bytes_at h p (unat n)) (spec_clear a)"
| "spec_op h (Op_cat p) d a = spec_append (d a (length (string_at h p))) (string_at h p) a"
| "spec_op h (Op_cpy p) d a =
     spec_append (d (spec_clear a) (length (string_at h p))) (string_at h p) (spec_clear a)"
| "spec_op h (Op_printf None) d a = (-1, a)"
| "spec_op h (Op_printf (Some bs)) d a = spec_append (d a (length bs)) bs a"
| "spec_op h (Op_putc ch) d a =
     spec_append (d a 1) (if (ucast ch :: byte) = 0 then [] else [ucast ch]) a"
| "spec_op h (Op_setpos pos) d a = spec_setpos pos a"
| "spec_op h Op_clear d a = (0, spec_clear a)"
| "spec_op h Op_trim d a = spec_trim a"
| "spec_op h Op_finish d a = (0, spec_finish a)"

fun spec_run ::
  "sbuf heap \<Rightarrow> sbuf_op list \<Rightarrow> (asbuf \<Rightarrow> nat \<Rightarrow> bool) list \<Rightarrow> asbuf \<Rightarrow> cint list \<times> asbuf" where
  "spec_run h (op # ops) (d # ds) a =
     (let (r, a) = spec_op h op d a; (rs, a) = spec_run h ops ds a in (r # rs, a))"
| "spec_run h ops ds a = ([], a)"

text \<open>What decides: a buffer of \<open>sz\<close> bytes takes what leaves room for a nul.\<close>

definition fits :: "nat \<Rightarrow> asbuf \<Rightarrow> nat \<Rightarrow> bool" where
  "fits sz a n \<longleftrightarrow> length (a_text a) + n < sz"

definition dec_ok :: "kenv \<Rightarrow> nat \<Rightarrow> (asbuf \<Rightarrow> nat \<Rightarrow> bool) \<Rightarrow> bool" where
  "dec_ok E sz d \<longleftrightarrow> (\<forall>a n.
     (fits sz a n \<longrightarrow> d a n) \<and> (\<not> fits sz a n \<and> \<not> a_auto a \<longrightarrow> \<not> d a n) \<and>
     (\<not> d a n \<and> a_auto a \<longrightarrow>
        2 ^ 31 < length (a_text a) + n + 1 + 2 ^ ke_page_shift E \<or> allocator_fails E))"

text \<open>The bytes an operation may add.\<close>

fun op_bytes :: "sbuf heap \<Rightarrow> sbuf_op \<Rightarrow> nat" where
  "op_bytes h (Op_bcat p n) = unat n"
| "op_bytes h (Op_bcpy p n) = unat n"
| "op_bytes h (Op_cat p) = length (string_at h p)"
| "op_bytes h (Op_cpy p) = length (string_at h p)"
| "op_bytes h (Op_printf out) = (case out of None \<Rightarrow> 0 | Some bs \<Rightarrow> length bs)"
| "op_bytes h (Op_putc ch) = 1"
| "op_bytes h _ = 0"

section \<open>Every operation refines its abstract version\<close>

text \<open>The conclusion of the refinement of one operation.\<close>

definition op_refines ::
  "kenv \<Rightarrow> sbuf heap \<Rightarrow> addr set \<Rightarrow> addr \<Rightarrow> sbuf \<Rightarrow> byte list \<Rightarrow> sbuf_op \<Rightarrow>
     (cint \<times> sbuf heap) option \<Rightarrow> bool" where
  "op_refines E h0 X s v c op res \<longleftrightarrow>
     (\<exists>d r h' v' b' c'. dec_ok E (unat (s_size v)) d \<and> res = Some (r, h') \<and>
        sbuf_over h0 X h' s v' b' c' \<and> (\<not> SBUF_CANEXTEND v \<longrightarrow> s_size v' = s_size v) \<and>
        (r, sbuf_view v' c') = spec_op h0 op d (sbuf_view v c))"

text \<open>A decision that answers \<open>ok\<close> at one point and is harmless elsewhere.\<close>

definition decide :: "nat \<Rightarrow> asbuf \<Rightarrow> nat \<Rightarrow> bool \<Rightarrow> asbuf \<Rightarrow> nat \<Rightarrow> bool" where
  "decide sz a n ok a' n' = (if a' = a \<and> n' = n then ok else fits sz a' n' \<or> a_auto a')"

lemma dec_ok_default: "dec_ok E sz (\<lambda>a n. fits sz a n \<or> a_auto a)"
  by (simp add: dec_ok_def)

lemma dec_ok_decide:
  assumes "sbuf_at h s v b c" "append_ok E v n ok"
  shows "dec_ok E (unat (s_size v)) (decide (unat (s_size v)) (sbuf_view v c) n ok)"
proof -
  have "refusal E v m \<Longrightarrow> SBUF_CANEXTEND v \<Longrightarrow>
      2 ^ 31 < unat (s_size v) + m + 2 ^ ke_page_shift E \<or> allocator_fails E" for m
    unfolding refusal_def by blast
  from this [of "unat (s_len v) + n + 1 - unat (s_size v)"] assms show ?thesis
    using sbuf_text_length [OF assms(1)]
    by (auto simp: dec_ok_def decide_def append_ok_def fits_def)
qed

lemma decide_same [simp]: "decide sz a n ok a n = ok"
  by (simp add: decide_def)

text \<open>An append, seen as the operation \<open>op\<close>.\<close>

lemma appends_op:
  assumes over: "sbuf_over h0 X h s v b c"
    and app: "\<exists>ok r h' v' b' c'. res = Some (r, h') \<and> sbuf_over h0 X h' s v' b' c' \<and>
      (r, sbuf_view v' c') = spec_append ok bs (sbuf_view v c) \<and>
      (\<not> SBUF_CANEXTEND v \<longrightarrow> s_size v' = s_size v) \<and>
      (\<not> SBUF_HASOVERFLOWED v \<longrightarrow> append_ok E v n ok)"
    and op: "\<And>d. spec_op h0 op d (sbuf_view v c) =
      spec_append (d (sbuf_view v c) n) bs (sbuf_view v c)"
  shows "op_refines E h0 X s v c op res"
proof -
  obtain ok r h' v' b' c' where res: "res = Some (r, h')" "sbuf_over h0 X h' s v' b' c'"
      "(r, sbuf_view v' c') = spec_append ok bs (sbuf_view v c)"
      "\<not> SBUF_CANEXTEND v \<longrightarrow> s_size v' = s_size v"
      "\<not> SBUF_HASOVERFLOWED v \<longrightarrow> append_ok E v n ok"
    using app by blast
  show ?thesis
  proof (cases "SBUF_HASOVERFLOWED v")
    case True
    then have "(r, sbuf_view v' c') =
        spec_op h0 op (\<lambda>a n. fits (unat (s_size v)) a n \<or> a_auto a) (sbuf_view v c)"
      using res(3) by (simp add: op spec_append_def)
    then show ?thesis unfolding op_refines_def using res(1,2,4) dec_ok_default by blast
  next
    case False
    let ?d = "decide (unat (s_size v)) (sbuf_view v c) n ok"
    have "(r, sbuf_view v' c') = spec_op h0 op ?d (sbuf_view v c)"
      using res(3) by (simp add: op)
    moreover have "dec_ok E (unat (s_size v)) ?d"
      using dec_ok_decide [OF sbuf_overD [OF over]] res(5) False by blast
    ultimately show ?thesis unfolding op_refines_def using res(1,2,4) by blast
  qed
qed

lemma op_refines_plain:
  assumes "sbuf_over h0 X h' s v' b' c'" "s_size v' = s_size v"
    and "\<And>d. (r, sbuf_view v' c') = spec_op h0 op d (sbuf_view v c)"
  shows "op_refines E h0 X s v c op (Some (r, h'))"
  unfolding op_refines_def using assms dec_ok_default by blast

lemma over_size_eq:
  assumes "sbuf_over h0 X h' s v' b c'" "h' = put_obj h s w" shows "v' = w"
  using sbuf_atD(1) [OF sbuf_overD [OF assms(1)]] assms(2) by simp

lemma clear_size:
  assumes over: "sbuf_over h0 X h s v b c"
  obtains v' where "sbuf_clear h s = Some (put_obj h s v')"
    "sbuf_over h0 X (put_obj h s v') s v' b c" "sbuf_view v' c = spec_clear (sbuf_view v c)"
    "s_size v' = s_size v" "SBUF_CANEXTEND v' = SBUF_CANEXTEND v"
proof -
  obtain v' where v': "sbuf_clear h s = Some (put_obj h s v')"
      "sbuf_over h0 X (put_obj h s v') s v' b c" "sbuf_view v' c = spec_clear (sbuf_view v c)"
      "s_size v' = s_size v"
    using clear_refines [OF over] by blast
  have "SBUF_CANEXTEND v' = SBUF_CANEXTEND v"
    using arg_cong [OF v'(3), of a_auto] by (simp add: spec_clear_def)
  then show thesis using that v' by blast
qed

text \<open>Clearing first, for \<open>sbuf_bcpy\<close> and \<open>sbuf_cpy\<close>.\<close>

lemma op_refines_cleared:
  assumes v': "s_size v' = s_size v" "SBUF_CANEXTEND v' = SBUF_CANEXTEND v"
    "sbuf_view v' c = spec_clear (sbuf_view v c)"
    and r: "op_refines E h0 X s v' c op' res"
    and op: "\<And>d. spec_op h0 op d (sbuf_view v c) = spec_op h0 op' d (spec_clear (sbuf_view v c))"
  shows "op_refines E h0 X s v c op res"
  using r unfolding op_refines_def v' op .

context sbuf_kernel begin

lemma exec_op_refines:
  assumes over: "sbuf_over h0 X h s v b c" and ready: "op_ready h0 X op"
  shows "op_refines E h0 X s v c op (exec_op E h s op)"
proof (cases op)
  case (Op_bcat p n)
  obtain bs where bs: "load_bytes h0 p (unat n) = Some bs" "fst p \<notin> X"
    using ready Op_bcat by auto
  show ?thesis
    using appends_op [OF over bcat_appends [OF over bs, unfolded appends_def], of op] length_load_bytes [OF bs(1)] bs(1)
    by (simp add: Op_bcat bytes_at_def)
next
  case (Op_bcpy p n)
  obtain bs where bs: "load_bytes h0 p (unat n) = Some bs" "fst p \<notin> X"
    using ready Op_bcpy by auto
  obtain v' where v': "sbuf_clear h s = Some (put_obj h s v')"
      "sbuf_over h0 X (put_obj h s v') s v' b c" "sbuf_view v' c = spec_clear (sbuf_view v c)"
      "s_size v' = s_size v" "SBUF_CANEXTEND v' = SBUF_CANEXTEND v"
    by (rule clear_size [OF over])
  have "op_refines E h0 X s v' c (Op_bcat p n) (sbuf_bcat E (put_obj h s v') s p n)"
    using appends_op [OF v'(2) bcat_appends [OF v'(2) bs, unfolded appends_def], of "Op_bcat p n"]
      length_load_bytes [OF bs(1)] bs(1) by (simp add: bytes_at_def)
  from op_refines_cleared [OF v'(4,5,3) this, of op] show ?thesis
    by (simp add: Op_bcpy sbuf_bcpy_def v'(1))
next
  case (Op_cat p)
  then show ?thesis
    using appends_op [OF over cat_appends [OF over, of p "string_at h0 p", unfolded appends_def], of op] ready by simp
next
  case (Op_cpy p)
  obtain v' where v': "sbuf_clear h s = Some (put_obj h s v')"
      "sbuf_over h0 X (put_obj h s v') s v' b c" "sbuf_view v' c = spec_clear (sbuf_view v c)"
      "s_size v' = s_size v" "SBUF_CANEXTEND v' = SBUF_CANEXTEND v"
    by (rule clear_size [OF over])
  have "op_refines E h0 X s v' c (Op_cat p) (sbuf_cat E (put_obj h s v') s p)"
    using appends_op [OF v'(2) cat_appends [OF v'(2), of p "string_at h0 p", unfolded appends_def],
        of "Op_cat p"]
      ready Op_cpy by simp
  from op_refines_cleared [OF v'(4,5,3) this, of op] show ?thesis
    by (simp add: Op_cpy sbuf_cpy_def v'(1))
next
  case (Op_printf out)
  show ?thesis
  proof (cases out)
    case None
    then show ?thesis using op_refines_plain [OF over refl, of "-1" op c E] vprintf_error [OF over]
      by (simp add: Op_printf sbuf_printf_def)
  next
    case (Some bs)
    then show ?thesis
      using appends_op [OF over vprintf_appends [OF over, of bs, unfolded appends_def], of op] ready
      by (simp add: Op_printf sbuf_printf_def)
  qed
next
  case (Op_putc ch)
  show ?thesis
  proof (cases "(ucast ch :: byte) = 0")
    case False
    then show ?thesis using appends_op [OF over putc_appends [OF over False, unfolded appends_def], of op]
      by (simp add: Op_putc)
  next
    case True
    then show ?thesis using appends_op [OF over putc_nul_appends [OF over True], of op]
      by (simp add: Op_putc)
  qed
next
  case (Op_setpos pos)
  obtain r h' v' where "sbuf_setpos h s pos = Some (r, h')" "sbuf_over h0 X h' s v' b c"
      "s_size v' = s_size v" "(r, sbuf_view v' c) = spec_setpos pos (sbuf_view v c)"
    using setpos_refines [OF over] by blast
  then show ?thesis by (simp add: Op_setpos op_refines_plain)
next
  case Op_clear
  obtain v' where v': "sbuf_clear h s = Some (put_obj h s v')"
      "sbuf_over h0 X (put_obj h s v') s v' b c" "sbuf_view v' c = spec_clear (sbuf_view v c)"
      "s_size v' = s_size v" "SBUF_CANEXTEND v' = SBUF_CANEXTEND v"
    by (rule clear_size [OF over])
  then show ?thesis using op_refines_plain [OF v'(2,4), of 0 op c E] by (simp add: Op_clear)
next
  case Op_trim
  obtain r h' v' where "sbuf_trim h s = Some (r, h')" "sbuf_over h0 X h' s v' b c"
      "s_size v' = s_size v" "(r, sbuf_view v' c) = spec_trim (sbuf_view v c)"
    using trim_refines [OF over] by blast
  then show ?thesis by (simp add: Op_trim op_refines_plain)
next
  case Op_finish
  obtain h' v' c' where "sbuf_finish h s = Some h'" "sbuf_over h0 X h' s v' b c'"
      "s_size v' = s_size v" "sbuf_view v' c' = spec_finish (sbuf_view v c)"
    using finish_refines [OF over] by blast
  then show ?thesis by (simp add: Op_finish op_refines_plain)
qed

end

section \<open>Runs\<close>

lemma spec_clear_auto [simp]: "a_auto (spec_clear a) = a_auto a"
  by (simp add: spec_clear_def)

lemma spec_append_auto [simp]: "a_auto (snd (spec_append ok bs a)) = a_auto a"
  by (simp add: spec_append_def)

lemma spec_op_auto: "a_auto (snd (spec_op h op d a)) = a_auto a"
  by (cases "(h, op, d, a)" rule: spec_op.cases)
    (simp_all add: spec_setpos_def spec_trim_def spec_finish_def)

lemma rstrip_length: "length (rstrip bs) \<le> length bs"
  using length_dropWhile_le [of isspace "rev bs"] by (simp add: rstrip_def)

lemma string_at_length: "op_ready h X (Op_cat p) \<Longrightarrow> length (string_at h p) < 2 ^ 64"
  by (simp add: cstring_at_def)

text \<open>Each operation adds at most its bytes.\<close>

lemma spec_append_length:
  "length (a_text (snd (spec_append ok bs a))) \<le> length (a_text a) + length bs"
  by (simp add: spec_append_def)

lemma bytes_at_length: "load_bytes h p n \<noteq> None \<Longrightarrow> length (bytes_at h p n) = n"
  by (auto simp: bytes_at_def dest: length_load_bytes)

lemma spec_op_length:
  assumes "op_ready h X op"
  shows "length (a_text (snd (spec_op h op d a))) \<le> length (a_text a) + op_bytes h op"
  using assms
proof (cases "(h, op, d, a)" rule: spec_op.cases)
  case (2 h p n d a)
  then show ?thesis
    using assms spec_append_length [of "d (spec_clear a) (unat n)" "bytes_at h p (unat n)" "spec_clear a"]
    by (simp add: bytes_at_length) (simp add: spec_clear_def)
next
  case (4 h p d a)
  then show ?thesis
    using spec_append_length [of "d (spec_clear a) (length (string_at h p))" "string_at h p" "spec_clear a"]
    by simp (simp add: spec_clear_def)
qed (auto simp: spec_append_def bytes_at_length spec_setpos_def spec_clear_def spec_trim_def
    spec_finish_def rstrip_length)

lemma spec_op_fixed:
  assumes "dec_ok E sz d" "\<not> a_auto a"
  shows "spec_op h op d a = spec_op h op (fits sz) a"
proof -
  have "d a' n = fits sz a' n" if "\<not> a_auto a'" for a' n
    using assms(1) that by (auto simp: dec_ok_def)
  then show ?thesis using assms(2)
    by (cases "(h, op, d, a)" rule: spec_op.cases) simp_all
qed

lemma spec_op_growing:
  assumes "dec_ok E sz d" "a_auto a" "\<not> allocator_fails E" "op_ready h X op"
    and "length (a_text a) + op_bytes h op + 1 + 2 ^ ke_page_shift E \<le> 2 ^ 31"
  shows "spec_op h op d a = spec_op h op (\<lambda>_ _. True) a"
proof -
  have "d a' n" if "a_auto a'" "length (a_text a') + n + 1 + 2 ^ ke_page_shift E \<le> 2 ^ 31" for a' n
    using assms(1,3) that by (force simp: dec_ok_def not_less)
  moreover have "length (a_text (spec_clear a)) = 0" by (simp add: spec_clear_def)
  ultimately show ?thesis using assms(2,5)
    by (cases "(h, op, d, a)" rule: spec_op.cases) simp_all
qed

context sbuf_kernel begin

lemma exec_op_step:
  assumes over: "sbuf_over h0 X h s v b c" and ready: "op_ready h0 X op"
  obtains d r h' v' b' c' where "exec_op E h s op = Some (r, h')" "sbuf_over h0 X h' s v' b' c'"
    "(r, sbuf_view v' c') = spec_op h0 op d (sbuf_view v c)" "dec_ok E (unat (s_size v)) d"
    "\<not> a_auto (sbuf_view v c) \<Longrightarrow> s_size v' = s_size v"
    "a_auto (sbuf_view v' c') = a_auto (sbuf_view v c)"
proof -
  obtain d r h' v' b' c' where r: "exec_op E h s op = Some (r, h')" "sbuf_over h0 X h' s v' b' c'"
    "(r, sbuf_view v' c') = spec_op h0 op d (sbuf_view v c)" "dec_ok E (unat (s_size v)) d"
    "\<not> SBUF_CANEXTEND v \<longrightarrow> s_size v' = s_size v"
    using exec_op_refines [OF assms] unfolding op_refines_def by blast
  have "a_auto (sbuf_view v' c') = a_auto (sbuf_view v c)"
    using spec_op_auto [of h0 op d "sbuf_view v c"] unfolding r(3) [symmetric] by simp
  then show thesis using r by (intro that [of r h' v' b' c' d]) simp_all
qed

lemma exec_run_refines:
  assumes "sbuf_over h0 X h s v b c" "list_all (op_ready h0 X) ops"
  shows "\<exists>ds rs h' v' b' c'. exec_run E h s ops = Some (rs, h') \<and> sbuf_over h0 X h' s v' b' c' \<and>
    length ds = length ops \<and> (rs, sbuf_view v' c') = spec_run h0 ops ds (sbuf_view v c)"
  using assms
proof (induction ops arbitrary: h v b c)
  case Nil
  then show ?case by (intro exI [of _ "[]"]) auto
next
  case (Cons op ops)
  obtain d r h' v' b' c' where st: "exec_op E h s op = Some (r, h')" "sbuf_over h0 X h' s v' b' c'"
    "(r, sbuf_view v' c') = spec_op h0 op d (sbuf_view v c)"
    by (rule exec_op_step [OF Cons.prems(1), of op]) (use Cons.prems(2) in auto)
  obtain ds rs h2 v2 b2 c2 where IH: "exec_run E h' s ops = Some (rs, h2)"
      "sbuf_over h0 X h2 s v2 b2 c2" "length ds = length ops"
      "(rs, sbuf_view v2 c2) = spec_run h0 ops ds (sbuf_view v' c')"
    using Cons.IH [OF st(2)] Cons.prems(2) by auto
  show ?case using st(1) IH
    by (intro exI [of _ "d # ds"] exI [of _ "r # rs"] exI [of _ h2] exI [of _ v2] exI [of _ b2]
        exI [of _ c2]) (simp add: st(3) [symmetric] IH(4) [symmetric])
qed

lemma exec_run_fixed:
  assumes "sbuf_over h0 X h s v b c" "list_all (op_ready h0 X) ops" "\<not> a_auto (sbuf_view v c)"
  shows "\<exists>rs h' v' b' c'. exec_run E h s ops = Some (rs, h') \<and> sbuf_over h0 X h' s v' b' c' \<and>
    s_size v' = s_size v \<and> (rs, sbuf_view v' c') =
      spec_run h0 ops (replicate (length ops) (fits (unat (s_size v)))) (sbuf_view v c)"
  using assms
proof (induction ops arbitrary: h v b c)
  case Nil
  then show ?case by auto
next
  case (Cons op ops)
  obtain d r h' v' b' c' where st: "exec_op E h s op = Some (r, h')" "sbuf_over h0 X h' s v' b' c'"
    "(r, sbuf_view v' c') = spec_op h0 op d (sbuf_view v c)" "dec_ok E (unat (s_size v)) d"
    "s_size v' = s_size v" "\<not> a_auto (sbuf_view v' c')"
    by (rule exec_op_step [OF Cons.prems(1), of op]) (use Cons.prems(2,3) in auto)
  have sp: "(r, sbuf_view v' c') = spec_op h0 op (fits (unat (s_size v))) (sbuf_view v c)"
    using st(3) spec_op_fixed [OF st(4) Cons.prems(3)] by simp
  obtain rs h2 v2 b2 c2 where IH: "exec_run E h' s ops = Some (rs, h2)"
      "sbuf_over h0 X h2 s v2 b2 c2" "s_size v2 = s_size v"
      "(rs, sbuf_view v2 c2) = spec_run h0 ops (replicate (length ops) (fits (unat (s_size v))))
        (sbuf_view v' c')"
    using Cons.IH [OF st(2) _ st(6)] Cons.prems(2) st(5) by auto
  show ?case using st(1) IH
    by (intro exI [of _ "r # rs"] exI [of _ h2] exI [of _ v2] exI [of _ b2]
        exI [of _ c2]) (simp add: sp [symmetric] IH(4) [symmetric])
qed

lemma exec_run_growing:
  assumes "sbuf_over h0 X h s v b c" "list_all (op_ready h0 X) ops" "a_auto (sbuf_view v c)"
    and "\<not> allocator_fails E"
    and "length (a_text (sbuf_view v c)) + sum_list (map (op_bytes h0) ops) + 1 +
      2 ^ ke_page_shift E \<le> 2 ^ 31"
  shows "\<exists>rs h' v' b' c'. exec_run E h s ops = Some (rs, h') \<and> sbuf_over h0 X h' s v' b' c' \<and>
    (rs, sbuf_view v' c') =
      spec_run h0 ops (replicate (length ops) (\<lambda>_ _. True)) (sbuf_view v c)"
  using assms(1-3,5)
proof (induction ops arbitrary: h v b c)
  case Nil
  then show ?case by auto
next
  case (Cons op ops)
  obtain d r h' v' b' c' where st: "exec_op E h s op = Some (r, h')" "sbuf_over h0 X h' s v' b' c'"
    "(r, sbuf_view v' c') = spec_op h0 op d (sbuf_view v c)" "dec_ok E (unat (s_size v)) d"
    "a_auto (sbuf_view v' c')"
    by (rule exec_op_step [OF Cons.prems(1), of op]) (use Cons.prems(2,3) in auto)
  have ready: "op_ready h0 X op" using Cons.prems(2) by simp
  have sp: "(r, sbuf_view v' c') = spec_op h0 op (\<lambda>_ _. True) (sbuf_view v c)"
    using st(3) spec_op_growing [OF st(4) Cons.prems(3) assms(4) ready] Cons.prems(4) by simp
  have "length (a_text (sbuf_view v' c')) \<le> length (a_text (sbuf_view v c)) + op_bytes h0 op"
    using spec_op_length [OF ready, of d "sbuf_view v c"] unfolding st(3) [symmetric] by simp
  then obtain rs h2 v2 b2 c2 where IH: "exec_run E h' s ops = Some (rs, h2)"
      "sbuf_over h0 X h2 s v2 b2 c2"
      "(rs, sbuf_view v2 c2) = spec_run h0 ops (replicate (length ops) (\<lambda>_ _. True))
        (sbuf_view v' c')"
    using Cons.IH [OF st(2) _ st(5)] Cons.prems(2,4) by auto
  show ?case using st(1) IH
    by (intro exI [of _ "r # rs"] exI [of _ h2] exI [of _ v2] exI [of _ b2]
        exI [of _ c2]) (simp add: sp [symmetric] IH(3) [symmetric])
qed

end

end
