(* ===== verification/Klog.thy ===== *)
theory Klog imports Prelude begin

text \<open>
  What the kext's translation units share (\<open>kext/kernel.h\<close>): the two levels of logging, the trace
  gate, and constants of the kernel SDK. A call of the kernel's \<open>printf\<close> is an effect: the format
  and its arguments, in the order of the calls.
\<close>

section \<open>printf as an effect\<close>

datatype parg = A_int cint | A_str "byte list" | A_text string | A_ptr "64 word" | A_long "64 word"

type_synonym line = "string \<times> parg list"

definition SEBSD_TAG :: string where "SEBSD_TAG = ''SEDarwin''"

text \<open>The newline that ends every line.\<close>

definition newline :: string where "newline = [CHR 0x0A]"

definition kprintf :: "string \<Rightarrow> parg list \<Rightarrow> line list" where
  "kprintf fmt args = [(fmt, args)]"

definition sebsd_log :: "string \<Rightarrow> parg list \<Rightarrow> line list" where
  "sebsd_log fmt args = kprintf (SEBSD_TAG @ '': '' @ fmt @ newline) args"

definition sebsd_log_debug :: "cint \<Rightarrow> string \<Rightarrow> parg list \<Rightarrow> line list" where
  "sebsd_log_debug sebsd_trace_enabled fmt args =
     (if sebsd_trace_enabled \<noteq> 0 then kprintf (SEBSD_TAG @ '': debug: '' @ fmt @ newline) args
      else [])"

definition sebsd_tracing :: "cint \<Rightarrow> bool" where
  "sebsd_tracing sebsd_trace_enabled = (sebsd_trace_enabled \<noteq> 0)"

section \<open>Constants of the kernel SDK\<close>

abbreviation (input) EPERM :: cint where "EPERM \<equiv> 1"
abbreviation (input) EINVAL :: cint where "EINVAL \<equiv> 22"
abbreviation (input) KERN_SUCCESS :: cint where "KERN_SUCCESS \<equiv> 0"
abbreviation (input) KERN_FAILURE :: cint where "KERN_FAILURE \<equiv> 5"

end
