(* ===== verification/Sbuf_Tests.thy ===== *)
theory Sbuf_Tests imports Sbuf_Run Klog begin

text \<open>
  The self-test of \<open>sbuf.c\<close> (\<open>sysctl_sbuf_tests\<close>): its statements in their order, one list per
  \<open>SBUF_TESTING\<close> section. A statement works on the test's variables and the heap; \<open>None\<close> is undefined
  behaviour, for instance a \<open>NULL\<close> from \<open>sbuf_new\<close> that is followed. A failed assertion prints and
  jumps to \<open>fail\<close>, behind the last statement. The text of an assertion is the condition as the source
  writes it, with macro names not expanded and with a string in place of the variable that holds it.
\<close>

section \<open>The test harness\<close>

text \<open>Where the string literals and the block's locals \<open>existing\<close> and \<open>buf\<close> lie.\<close>

record test_env =
  te_lit :: "string \<Rightarrow> addr"
  te_existing :: addr
  te_buf :: addr

text \<open>The heap, the variables of the function, what it printed, whether it jumped to \<open>fail\<close>.\<close>

record tst =
  t_heap :: "sbuf heap"
  t_s :: "addr option"
  t_size_before :: cint
  t_len_before :: cint
  t_passed :: size_t
  t_what :: "string option"
  t_should :: "string option"
  t_log :: "line list"
  t_failed :: bool

type_synonym stmt = "tst \<Rightarrow> tst option"

fun run_stmts :: "stmt list \<Rightarrow> tst \<Rightarrow> tst option" where
  "run_stmts [] t = Some t"
| "run_stmts (c # cs) t = do { t \<leftarrow> c t; if t_failed t then Some t else run_stmts cs t }"

definition SBUF_FAIL :: "string \<Rightarrow> tst \<Rightarrow> tst" where
  "SBUF_FAIL a t = t\<lparr>t_failed := True, t_log := t_log t @
     kprintf (''sbuf_tests: failed assertion: %s'' @ newline) [A_text a] @
     (case (t_what t, t_should t) of
        (Some what, Some should) \<Rightarrow>
          kprintf (''sbuf_tests: while testing: %s should %s'' @ newline) [A_text what, A_text should]
      | _ \<Rightarrow> [])\<rparr>"

definition SBUF_ASSERT :: "string \<Rightarrow> bool \<Rightarrow> tst \<Rightarrow> tst" where
  "SBUF_ASSERT a x t = (if x then t\<lparr>t_passed := t_passed t + 1\<rparr> else SBUF_FAIL a t)"

definition SBUF_TESTING :: "string \<Rightarrow> stmt" where
  "SBUF_TESTING f t = Some (t\<lparr>t_what := Some f\<rparr>)"

definition SBUF_SHOULD :: "string \<Rightarrow> stmt" where
  "SBUF_SHOULD a t = Some (t\<lparr>t_should := Some a\<rparr>)"

section \<open>Statements\<close>

text \<open>\<open>char buf[4] = { 0 }\<close>, and \<open>struct sbuf existing\<close> with its contents.\<close>

definition local_buf :: "test_env \<Rightarrow> stmt" where
  "local_buf T t = Some (t\<lparr>t_heap := put_data (t_heap t) (te_buf T) [0, 0, 0, 0]\<rparr>)"

definition local_existing :: "test_env \<Rightarrow> sbuf \<Rightarrow> stmt" where
  "local_existing T v t = Some (t\<lparr>t_heap := put_obj (t_heap t) (te_existing T) v\<rparr>)"

text \<open>\<open>memset(&existing, 0x41, sizeof(existing))\<close>.\<close>

definition memset_0x41 :: sbuf where
  "memset_0x41 = \<lparr>s_buf = Some 0x4141414141414141, s_unused = Some 0x4141414141414141,
     s_size = 0x41414141, s_len = 0x41414141, s_flags = 0x41414141\<rparr>"

text \<open>\<open>s = sbuf_new(...)\<close>.\<close>

definition do_new :: "kenv \<Rightarrow> addr option \<Rightarrow> addr option \<Rightarrow> cint \<Rightarrow> cint \<Rightarrow> stmt" where
  "do_new E s buf n flags t = do {
     (s, h) \<leftarrow> sbuf_new E (t_heap t) s buf n flags;
     Some (t\<lparr>t_heap := h, t_s := s\<rparr>) }"

text \<open>A call of a \<open>void\<close> function, an assignment to a member, and one to \<open>s->s_buf[s->s_len]\<close>.\<close>

definition do_call :: "(sbuf heap \<Rightarrow> addr \<Rightarrow> sbuf heap option) \<Rightarrow> stmt" where
  "do_call f t = do { s \<leftarrow> t_s t; h \<leftarrow> f (t_heap t) s; Some (t\<lparr>t_heap := h\<rparr>) }"

definition do_assign :: "(sbuf \<Rightarrow> sbuf) \<Rightarrow> stmt" where
  "do_assign f = do_call (\<lambda>h s. do { v \<leftarrow> hp_obj h s; Some (put_obj h s (f v)) })"

definition put_char :: "char \<Rightarrow> sbuf heap \<Rightarrow> addr \<Rightarrow> sbuf heap option" where
  "put_char ch h s = do {
     v \<leftarrow> hp_obj h s;
     b \<leftarrow> s_buf v;
     store_bytes h (b, unat (size_of_int (s_len v))) [of_char ch] }"

definition save_size :: stmt where
  "save_size t = do { s \<leftarrow> t_s t; v \<leftarrow> hp_obj (t_heap t) s; Some (t\<lparr>t_size_before := s_size v\<rparr>) }"

definition save_len :: stmt where
  "save_len t = do { s \<leftarrow> t_s t; v \<leftarrow> hp_obj (t_heap t) s; Some (t\<lparr>t_len_before := s_len v\<rparr>) }"

text \<open>
  Assertions: on the pointer \<open>s\<close>; on the variables and \<open>*s\<close>; on the result of a call; on what a
  function without effect answers.
\<close>

definition check_s :: "string \<Rightarrow> (addr option \<Rightarrow> bool) \<Rightarrow> stmt" where
  "check_s a P t = Some (SBUF_ASSERT a (P (t_s t)) t)"

definition check_mem :: "string \<Rightarrow> (tst \<Rightarrow> sbuf \<Rightarrow> bool) \<Rightarrow> stmt" where
  "check_mem a P t = do { s \<leftarrow> t_s t; v \<leftarrow> hp_obj (t_heap t) s; Some (SBUF_ASSERT a (P t v) t) }"

definition check_call :: "string \<Rightarrow> cint \<Rightarrow> (sbuf heap \<Rightarrow> addr \<Rightarrow> (cint \<times> sbuf heap) option) \<Rightarrow> stmt" where
  "check_call a e f t = do {
     s \<leftarrow> t_s t;
     (r, h) \<leftarrow> f (t_heap t) s;
     Some (SBUF_ASSERT a (r = e) (t\<lparr>t_heap := h\<rparr>)) }"

definition check_fun :: "string \<Rightarrow> (sbuf heap \<Rightarrow> addr \<Rightarrow> 'a option) \<Rightarrow> ('a \<Rightarrow> bool) \<Rightarrow> stmt" where
  "check_fun a f P t = do { s \<leftarrow> t_s t; r \<leftarrow> f (t_heap t) s; Some (SBUF_ASSERT a (P r) t) }"

definition check_grew :: stmt where
  "check_grew = check_mem ''s->s_size > size_before'' (\<lambda>t v. t_size_before t <s s_size v)"

text \<open>How the source writes a character, alone and in a string literal.\<close>

definition escaped :: "char \<Rightarrow> string" where
  "escaped c = (if c = CHR 0x00 then [CHR 0x5C, CHR ''0''] else if c = CHR 0x09 then [CHR 0x5C, CHR ''t'']
     else if c = CHR 0x0A then [CHR 0x5C, CHR ''n''] else [c])"

definition char_text :: "char \<Rightarrow> string" where
  "char_text c = [CHR 0x27] @ escaped c @ [CHR 0x27]"

definition quoted :: "string \<Rightarrow> string" where
  "quoted cs = [CHR 0x22] @ concat (map escaped cs) @ [CHR 0x22]"

text \<open>Characters of the buffer: \<open>s->s_buf[i]\<close>.\<close>

definition char_at :: "sbuf heap \<Rightarrow> addr \<Rightarrow> (sbuf \<Rightarrow> nat) \<Rightarrow> byte option" where
  "char_at h s i = do {
     v \<leftarrow> hp_obj h s; b \<leftarrow> s_buf v; bs \<leftarrow> load_bytes h (b, i v) 1; Some (hd bs) }"

definition index_text :: "nat \<Rightarrow> string" where
  "index_text i = (if i < 10 then [''0123456789'' ! i] else [CHR ''1'', ''0123456789'' ! (i - 10)])"

fun check_chars :: "nat \<Rightarrow> string \<Rightarrow> stmt list" where
  "check_chars i [] = []"
| "check_chars i (c # cs) =
     check_fun (''s->s_buf['' @ index_text i @ ''] == '' @ char_text c) (\<lambda>h s. char_at h s (\<lambda>_. i))
       (\<lambda>x. x = of_char c) # check_chars (Suc i) cs"

text \<open>Literals, and \<open>strlen\<close> of one against \<open>s->s_len\<close>.\<close>

definition lit :: "test_env \<Rightarrow> string \<Rightarrow> ptr" where
  "lit T cs = (te_lit T cs, 0)"

definition check_strlen :: "test_env \<Rightarrow> string \<Rightarrow> stmt" where
  "check_strlen T cs = check_fun ''s->s_len == strlen(test)''
     (\<lambda>h s. do { v \<leftarrow> hp_obj h s; n \<leftarrow> strlen h (lit T cs); Some (v, n) })
     (\<lambda>(v, n). size_of_int (s_len v) = n)"

text \<open>\<open>for (n = 0; n < strlen(data); ++n) SBUF_ASSERT_EQ(data[n], s->s_buf[n])\<close>.\<close>

definition check_copy :: "test_env \<Rightarrow> string \<Rightarrow> stmt" where
  "check_copy T cs t = do {
     k \<leftarrow> strlen (t_heap t) (lit T cs);
     run_stmts (map (\<lambda>n. check_fun ''s->s_buf[n] == data[n]''
       (\<lambda>h s. do { x \<leftarrow> char_at h s (\<lambda>_. n); y \<leftarrow> load_bytes h (te_lit T cs, n) 1; Some (x, hd y) })
       (\<lambda>(x, y). x = y)) [0..<unat k]) t }"

definition ascii :: "string \<Rightarrow> byte list" where
  "ascii cs = map of_char cs"

section \<open>sbuf_new and sbuf_clear\<close>

definition test_sbuf_new :: "kenv \<Rightarrow> test_env \<Rightarrow> stmt list" where
  "test_sbuf_new E T =
    [SBUF_TESTING ''sbuf_new'',
     SBUF_SHOULD ''fail to allocate >INT_MAX'',
     do_new E None None INT_MIN 0,
     check_s ''s == NULL'' (\<lambda>s. s = None),
     SBUF_SHOULD ''fail when claiming a backing buffer >INT_MAX'',
     local_buf T,
     do_new E None (Some (te_buf T)) INT_MIN 0,
     check_s ''s == NULL'' (\<lambda>s. s = None),
     SBUF_SHOULD ''fail to allocate a zero-length sbuf'',
     do_new E None None 0 0,
     check_s ''s == NULL'' (\<lambda>s. s = None),
     SBUF_SHOULD ''not accept invalid flags'',
     do_new E None None 16 0x10000,
     check_s ''s == NULL'' (\<lambda>s. s = None),
     SBUF_SHOULD ''succeed when passed an existing sbuf'',
     local_existing T memset_0x41,
     do_new E (Some (te_existing T)) None 16 SBUF_AUTOEXTEND,
     check_s ''s == &existing'' (\<lambda>s. s = Some (te_existing T)),
     check_mem ''SBUF_ISSET(s, SBUF_AUTOEXTEND)'' (\<lambda>t v. SBUF_ISSET v SBUF_AUTOEXTEND),
     check_mem ''SBUF_ISSET(s, SBUF_DYNAMIC)'' (\<lambda>t v. SBUF_ISSET v SBUF_DYNAMIC),
     check_mem ''s->s_buf != NULL'' (\<lambda>t v. s_buf v \<noteq> None),
     check_mem ''s->s_size != 0'' (\<lambda>t v. s_size v \<noteq> 0),
     check_mem ''s->s_len == 0'' (\<lambda>t v. s_len v = 0),
     do_call sbuf_delete,
     SBUF_SHOULD ''succeed when passed an existing sbuf and buffer'',
     local_buf T,
     local_existing T memset_0x41,
     do_new E (Some (te_existing T)) (Some (te_buf T)) 4 0,
     check_s ''s == &existing'' (\<lambda>s. s = Some (te_existing T)),
     check_mem ''s->s_buf == buf'' (\<lambda>t v. s_buf v = Some (te_buf T)),
     check_mem ''s->s_size == 4'' (\<lambda>t v. s_size v = 4),
     check_mem ''s->s_len == 0'' (\<lambda>t v. s_len v = 0),
     do_call sbuf_delete,
     SBUF_SHOULD ''succeed without an existing sbuf or buffer'',
     do_new E None None 16 0,
     check_s ''s != NULL'' (\<lambda>s. s \<noteq> None),
     check_mem ''SBUF_ISSET(s, SBUF_DYNAMIC)'' (\<lambda>t v. SBUF_ISSET v SBUF_DYNAMIC),
     check_mem ''SBUF_ISSET(s, SBUF_DYNSTRUCT)'' (\<lambda>t v. SBUF_ISSET v SBUF_DYNSTRUCT),
     check_mem ''s->s_buf != NULL'' (\<lambda>t v. s_buf v \<noteq> None),
     check_mem ''s->s_size != 0'' (\<lambda>t v. s_size v \<noteq> 0),
     check_mem ''s->s_len == 0'' (\<lambda>t v. s_len v = 0),
     do_call sbuf_delete,
     SBUF_SHOULD ''succeed without an existing sbuf, but with a buffer'',
     local_buf T,
     do_new E None (Some (te_buf T)) 4 0,
     check_s ''s != NULL'' (\<lambda>s. s \<noteq> None),
     check_mem ''SBUF_ISSET(s, SBUF_DYNSTRUCT)'' (\<lambda>t v. SBUF_ISSET v SBUF_DYNSTRUCT),
     check_mem ''s->s_buf == buf'' (\<lambda>t v. s_buf v = Some (te_buf T)),
     check_mem ''s->s_size == 4'' (\<lambda>t v. s_size v = 4),
     check_mem ''s->s_len == 0'' (\<lambda>t v. s_len v = 0),
     do_call sbuf_delete,
     SBUF_SHOULD ''round up the requested size if SBUF_AUTOEXTEND'',
     do_new E None None 1 SBUF_AUTOEXTEND,
     check_mem ''s->s_size > 1'' (\<lambda>t v. 1 <s s_size v),
     do_call sbuf_delete]"

definition test_sbuf_clear :: "kenv \<Rightarrow> stmt list" where
  "test_sbuf_clear E =
    [SBUF_TESTING ''sbuf_clear'',
     SBUF_SHOULD ''clear the overflowed and finished flags'',
     do_new E None None 16 0,
     do_assign (\<lambda>v. SBUF_SETFLAG v SBUF_OVERFLOWED),
     check_mem ''SBUF_ISSET(s, SBUF_OVERFLOWED)'' (\<lambda>t v. SBUF_ISSET v SBUF_OVERFLOWED),
     do_assign (\<lambda>v. SBUF_SETFLAG v SBUF_FINISHED),
     check_mem ''SBUF_ISSET(s, SBUF_FINISHED)'' (\<lambda>t v. SBUF_ISSET v SBUF_FINISHED),
     do_call sbuf_clear,
     check_mem ''!(SBUF_ISSET(s, SBUF_OVERFLOWED))'' (\<lambda>t v. \<not> SBUF_ISSET v SBUF_OVERFLOWED),
     check_mem ''!(SBUF_ISSET(s, SBUF_FINISHED))'' (\<lambda>t v. \<not> SBUF_ISSET v SBUF_FINISHED),
     do_call sbuf_delete,
     SBUF_SHOULD ''reset the position to zero'',
     do_new E None None 16 0,
     do_assign (\<lambda>v. v\<lparr>s_len := 1\<rparr>),
     do_call sbuf_clear,
     check_mem ''s->s_len == 0'' (\<lambda>t v. s_len v = 0),
     do_call sbuf_delete]"

section \<open>Growth\<close>

definition test_sbuf_extend :: "kenv \<Rightarrow> test_env \<Rightarrow> stmt list" where
  "test_sbuf_extend E T =
    [SBUF_TESTING ''sbuf_extend'',
     SBUF_SHOULD ''allow zero'',
     do_new E None None 16 SBUF_AUTOEXTEND,
     save_size,
     check_call ''sbuf_extend(s, 0) == 0'' 0 (\<lambda>h s. sbuf_extend E h s 0),
     check_mem ''s->s_size == size_before'' (\<lambda>t v. s_size v = t_size_before t),
     do_call sbuf_delete,
     SBUF_SHOULD ''fail for sbuf not marked as SBUF_AUTOEXTEND'',
     do_new E None None 16 SBUF_FIXEDLEN,
     check_call ''sbuf_extend(s, 10) == -1'' (-1) (\<lambda>h s. sbuf_extend E h s 10),
     do_call sbuf_delete,
     SBUF_SHOULD ''accommodate reasonable requests'',
     do_new E None None 16 SBUF_AUTOEXTEND,
     save_size,
     check_call ''sbuf_extend(s, 10) == 0'' 0 (\<lambda>h s. sbuf_extend E h s 10),
     check_mem ''s->s_size - size_before >= 10'' (\<lambda>t v. 10 \<le>s s_size v - t_size_before t),
     do_call sbuf_delete,
     SBUF_SHOULD ''reject requests that cause overflows'',
     do_new E None None 16 SBUF_AUTOEXTEND,
     check_call ''sbuf_extend(s, SIZE_MAX) == -1'' (-1) (\<lambda>h s. sbuf_extend E h s SIZE_MAX),
     check_call ''sbuf_extend(s, INT_MAX) == -1'' (-1) (\<lambda>h s. sbuf_extend E h s INT_MAX),
     do_call sbuf_delete,
     SBUF_SHOULD ''transform the sbuf into an SBUF_DYNAMIC one'',
     local_buf T,
     do_new E None (Some (te_buf T)) 4 SBUF_AUTOEXTEND,
     check_mem ''!(SBUF_ISSET(s, SBUF_DYNAMIC))'' (\<lambda>t v. \<not> SBUF_ISSET v SBUF_DYNAMIC),
     check_call ''sbuf_extend(s, 10) == 0'' 0 (\<lambda>h s. sbuf_extend E h s 10),
     check_mem ''SBUF_ISSET(s, SBUF_DYNAMIC)'' (\<lambda>t v. SBUF_ISSET v SBUF_DYNAMIC),
     do_call sbuf_delete]"

text \<open>The difference of ints becomes a \<open>size_t\<close> in the comparison.\<close>

definition test_sbuf_capacity :: "kenv \<Rightarrow> stmt list" where
  "test_sbuf_capacity E =
    [SBUF_TESTING ''sbuf_capacity'',
     SBUF_SHOULD ''account for the trailing nul byte'',
     do_new E None None 16 0,
     check_mem ''sbuf_capacity(s) == s->s_size - s->s_len - 1''
       (\<lambda>t v. sbuf_capacity v = size_of_int (s_size v - s_len v - 1)),
     do_call sbuf_delete]"

definition test_sbuf_ensure_capacity :: "kenv \<Rightarrow> stmt list" where
  "test_sbuf_ensure_capacity E =
    [SBUF_TESTING ''sbuf_ensure_capacity'',
     SBUF_SHOULD ''return 0 if the sbuf already has enough capacity'',
     do_new E None None 16 SBUF_AUTOEXTEND,
     save_size,
     check_call ''sbuf_ensure_capacity(s, 5) == 0'' 0 (\<lambda>h s. sbuf_ensure_capacity E h s 5),
     check_mem ''s->s_size == size_before'' (\<lambda>t v. s_size v = t_size_before t),
     do_call sbuf_delete,
     SBUF_SHOULD ''extend the buffer as needed'',
     do_new E None None 16 SBUF_AUTOEXTEND,
     save_size,
     check_call ''sbuf_ensure_capacity(s, 30) == 0'' 0 (\<lambda>h s. sbuf_ensure_capacity E h s 30),
     check_grew,
     do_call sbuf_delete]"

section \<open>The writers\<close>

text \<open>
  A writer of literals: the text of the call and the call. The sections of \<open>sbuf_bcat\<close>, \<open>sbuf_bcpy\<close>,
  \<open>sbuf_cat\<close> and \<open>sbuf_cpy\<close> repeat the blocks below for their function.
\<close>

type_synonym writer = "string \<Rightarrow> string \<times> (sbuf heap \<Rightarrow> addr \<Rightarrow> (cint \<times> sbuf heap) option)"

definition w_bcat :: "kenv \<Rightarrow> test_env \<Rightarrow> writer" where
  "w_bcat E T cs = (''sbuf_bcat(s, '' @ quoted cs @ '', '' @ index_text (length cs) @ '')'',
     \<lambda>h s. sbuf_bcat E h s (lit T cs) (of_nat (length cs)))"

definition w_bcpy :: "kenv \<Rightarrow> test_env \<Rightarrow> writer" where
  "w_bcpy E T cs = (''sbuf_bcpy(s, '' @ quoted cs @ '', '' @ index_text (length cs) @ '')'',
     \<lambda>h s. sbuf_bcpy E h s (lit T cs) (of_nat (length cs)))"

definition w_cat :: "kenv \<Rightarrow> test_env \<Rightarrow> writer" where
  "w_cat E T cs = (''sbuf_cat(s, '' @ quoted cs @ '')'', \<lambda>h s. sbuf_cat E h s (lit T cs))"

definition w_cpy :: "kenv \<Rightarrow> test_env \<Rightarrow> writer" where
  "w_cpy E T cs = (''sbuf_cpy(s, '' @ quoted cs @ '')'', \<lambda>h s. sbuf_cpy E h s (lit T cs))"

text \<open>Of \<open>sbuf_printf\<close> a parameter gives what the format and its arguments print.\<close>

definition w_printf :: "kenv \<Rightarrow> writer" where
  "w_printf E cs = (''sbuf_printf(s, '' @ quoted cs @ '')'', \<lambda>h s. sbuf_printf E h s (Some (ascii cs)))"

definition check_write :: "writer \<Rightarrow> string \<Rightarrow> cint \<Rightarrow> stmt" where
  "check_write w cs e =
     check_call (fst (w cs) @ '' == '' @ (if e = 0 then ''0'' else ''-1'')) e (snd (w cs))"

definition check_len :: "nat \<Rightarrow> stmt" where
  "check_len n = check_mem (''s->s_len == '' @ index_text n) (\<lambda>t v. s_len v = of_nat n)"

definition check_overflowed :: stmt where
  "check_overflowed = check_mem ''SBUF_ISSET(s, SBUF_OVERFLOWED)'' (\<lambda>t v. SBUF_ISSET v SBUF_OVERFLOWED)"

definition set_overflowed :: stmt where
  "set_overflowed = do_assign (\<lambda>v. SBUF_SETFLAG v SBUF_OVERFLOWED)"

definition blk_overflowed :: "kenv \<Rightarrow> writer \<Rightarrow> cint \<Rightarrow> stmt list" where
  "blk_overflowed E w e =
    [do_new E None None 16 SBUF_AUTOEXTEND,
     set_overflowed,
     check_write w ''A'' e,
     do_call sbuf_delete]"

definition blk_too_long ::
  "kenv \<Rightarrow> string \<Rightarrow> (sbuf heap \<Rightarrow> addr \<Rightarrow> (cint \<times> sbuf heap) option) \<Rightarrow> stmt list" where
  "blk_too_long E a f =
    [SBUF_SHOULD ''fail if len is too big'',
     do_new E None None 16 SBUF_AUTOEXTEND,
     check_call a (-1) f,
     check_overflowed,
     do_call sbuf_delete]"

definition blk_within :: "kenv \<Rightarrow> writer \<Rightarrow> stmt list" where
  "blk_within E w =
    [SBUF_SHOULD ''succeed for a fixed buf within limits'',
     do_new E None None 16 SBUF_FIXEDLEN,
     check_write w ''ABC'' 0,
     check_len 3] @
     check_chars 0 ''ABC'' @
    [do_call sbuf_delete]"

definition blk_append :: "kenv \<Rightarrow> writer \<Rightarrow> stmt list" where
  "blk_append E w =
    [SBUF_SHOULD ''append to existing data'',
     do_new E None None 16 SBUF_FIXEDLEN,
     check_write w ''ABC'' 0,
     check_len 3] @
     check_chars 0 ''ABC'' @
    [check_write w ''DEF'' 0,
     check_len 6] @
     check_chars 3 ''DEF'' @
    [do_call sbuf_delete]"

definition blk_overwrite :: "kenv \<Rightarrow> writer \<Rightarrow> stmt list" where
  "blk_overwrite E w =
    [SBUF_SHOULD ''overwrite any existing data'',
     do_new E None None 16 0,
     check_write w ''ABC'' 0,
     check_len 3] @
     check_chars 0 ''ABC'' @
    [check_write w ''XYZ123'' 0,
     check_len 6] @
     check_chars 0 ''XYZ123'' @
    [do_call sbuf_delete]"

definition blk_limit :: "kenv \<Rightarrow> writer \<Rightarrow> stmt list" where
  "blk_limit E w =
    [SBUF_SHOULD ''succeed for a fixed buf right up to the limit'',
     do_new E None None 16 SBUF_FIXEDLEN,
     check_write w ''0123456789abcde'' 0,
     check_len 15,
     do_call sbuf_delete]"

definition blk_too_big :: "kenv \<Rightarrow> writer \<Rightarrow> stmt list" where
  "blk_too_big E w =
    [SBUF_SHOULD ''fail for a fixed buf if too big'',
     do_new E None None 16 SBUF_FIXEDLEN,
     check_write w ''0123456789abcdef'' (-1),
     check_overflowed,
     do_call sbuf_delete]"

definition blk_expand :: "kenv \<Rightarrow> writer \<Rightarrow> stmt list" where
  "blk_expand E w =
    [SBUF_SHOULD ''expand the backing buffer as needed'',
     do_new E None None 16 SBUF_AUTOEXTEND,
     save_size,
     check_write w ''0123456789abcdef'' 0,
     check_grew,
     check_len 16,
     do_call sbuf_delete]"

definition test_sbuf_bcat :: "kenv \<Rightarrow> test_env \<Rightarrow> stmt list" where
  "test_sbuf_bcat E T =
    [SBUF_TESTING ''sbuf_bcat'',
     SBUF_SHOULD ''fail if the sbuf is marked as overflowed''] @
     blk_overflowed E (w_bcat E T) (-1) @
     blk_too_long E ''sbuf_bcat(s, \"A\", INT_MAX) == -1'' (\<lambda>h s. sbuf_bcat E h s (lit T ''A'') INT_MAX) @
     blk_within E (w_bcat E T) @
    [SBUF_SHOULD ''succeed for binary data, even with nul bytes'',
     do_new E None None 16 SBUF_FIXEDLEN,
     check_write (w_bcat E T) [CHR ''A'', CHR 0x00, CHR ''C''] 0,
     check_len 3] @
     check_chars 0 [CHR ''A'', CHR 0x00, CHR ''C''] @
    [do_call sbuf_delete] @
     blk_append E (w_bcat E T) @
     blk_limit E (w_bcat E T) @
     blk_too_big E (w_bcat E T) @
     blk_expand E (w_bcat E T)"

definition test_sbuf_bcpy :: "kenv \<Rightarrow> test_env \<Rightarrow> stmt list" where
  "test_sbuf_bcpy E T =
    [SBUF_TESTING ''sbuf_bcpy''] @
     blk_overwrite E (w_bcpy E T) @
    [SBUF_SHOULD ''succeed if the sbuf is marked as overflowed, but there is space''] @
     blk_overflowed E (w_bcpy E T) 0 @
     blk_too_long E ''sbuf_bcpy(s, \"A\", INT_MAX) == -1'' (\<lambda>h s. sbuf_bcpy E h s (lit T ''A'') INT_MAX) @
     blk_within E (w_bcpy E T) @
     blk_limit E (w_bcpy E T) @
     blk_too_big E (w_bcpy E T) @
     blk_expand E (w_bcpy E T)"

definition test_sbuf_cat :: "kenv \<Rightarrow> test_env \<Rightarrow> stmt list" where
  "test_sbuf_cat E T =
    [SBUF_TESTING ''sbuf_cat'',
     SBUF_SHOULD ''fail if the sbuf is marked as overflowed''] @
     blk_overflowed E (w_cat E T) (-1) @
     blk_within E (w_cat E T) @
    [SBUF_SHOULD ''only copy up to a nul byte'',
     do_new E None None 16 SBUF_FIXEDLEN,
     check_write (w_cat E T) [CHR ''A'', CHR 0x00, CHR ''C''] 0,
     check_len 1] @
     check_chars 0 ''A'' @
    [do_call sbuf_delete] @
     blk_append E (w_cat E T) @
     blk_limit E (w_cat E T) @
     blk_too_big E (w_cat E T) @
     blk_expand E (w_cat E T)"

text \<open>The second block of the section on \<open>sbuf_cpy\<close> calls \<open>sbuf_bcpy\<close>, as in the source.\<close>

definition test_sbuf_cpy :: "kenv \<Rightarrow> test_env \<Rightarrow> stmt list" where
  "test_sbuf_cpy E T =
    [SBUF_TESTING ''sbuf_cpy''] @
     blk_overwrite E (w_cpy E T) @
    [SBUF_SHOULD ''succeed if the sbuf is marked as overflowed, but there is space''] @
     blk_overflowed E (w_bcpy E T) 0 @
     blk_within E (w_cpy E T) @
     blk_limit E (w_cpy E T) @
     blk_too_big E (w_cpy E T) @
     blk_expand E (w_cpy E T)"

section \<open>Printing and characters\<close>

definition test_sbuf_printf :: "kenv \<Rightarrow> test_env \<Rightarrow> stmt list" where
  "test_sbuf_printf E T =
    [SBUF_TESTING ''sbuf_printf'',
     SBUF_SHOULD ''support simple printing'',
     do_new E None None 16 SBUF_AUTOEXTEND,
     check_write (w_printf E) ''hello'' 0,
     check_len 5] @
     check_chars 0 ''hello'' @
    [do_call sbuf_delete,
     SBUF_SHOULD ''support format strings'',
     do_new E None None 16 SBUF_AUTOEXTEND,
     check_write (w_printf E) ''A 123 foo'' 0,
     check_len 9] @
     check_chars 0 ''A 123 foo'' @
    [do_call sbuf_delete,
     SBUF_SHOULD ''work with the fact we reserve a nul byte at the end'',
     do_new E None None 16 SBUF_FIXEDLEN,
     check_write (w_printf E) ''0123456789abcde'' 0,
     check_mem ''!(SBUF_ISSET(s, SBUF_OVERFLOWED))'' (\<lambda>t v. \<not> SBUF_ISSET v SBUF_OVERFLOWED),
     do_call sbuf_delete,
     SBUF_SHOULD ''mark the sbuf as overflowed if we try to write too much'',
     do_new E None None 16 SBUF_FIXEDLEN,
     check_write (w_printf E) ''0123456789abcdef'' (-1),
     check_overflowed,
     do_call sbuf_delete,
     SBUF_SHOULD ''auto-extend as necessary'',
     do_new E None None 16 SBUF_AUTOEXTEND,
     save_size,
     check_write (w_printf E) ''0123456789abcdef'' 0,
     check_grew,
     check_copy T ''0123456789abcdef'',
     do_call sbuf_delete,
     SBUF_SHOULD ''fail if the sbuf is marked as overflowed'',
     do_new E None None 16 SBUF_FIXEDLEN,
     set_overflowed,
     check_write (w_printf E) ''A'' (-1),
     do_call sbuf_delete]"

definition check_putc :: "kenv \<Rightarrow> char \<Rightarrow> cint \<Rightarrow> stmt" where
  "check_putc E ch e = check_call (''sbuf_putc(s, '' @ char_text ch @ '') == '' @ (if e = 0 then ''0'' else ''-1'')) e
     (\<lambda>h s. sbuf_putc E h s (of_char ch))"

definition test_sbuf_putc :: "kenv \<Rightarrow> test_env \<Rightarrow> stmt list" where
  "test_sbuf_putc E T =
    [SBUF_TESTING ''sbuf_putc'',
     SBUF_SHOULD ''work where we have capacity'',
     do_new E None None 16 0,
     check_putc E (CHR ''a'') 0,
     check_len 1] @
     check_chars 0 ''a'' @
    [do_call sbuf_delete,
     SBUF_SHOULD ''fail if we have a full, fixedlen sbuf'',
     do_new E None None 16 SBUF_FIXEDLEN,
     check_write (w_cpy E T) ''0123456789abcd'' 0,
     check_putc E (CHR ''e'') 0,
     check_putc E (CHR ''f'') (-1),
     check_overflowed,
     do_call sbuf_delete,
     SBUF_SHOULD ''ignore nul'',
     do_new E None None 16 SBUF_AUTOEXTEND,
     check_putc E (CHR 0x00) 0,
     check_len 0,
     do_call sbuf_delete,
     SBUF_SHOULD ''auto-extend if necessary'',
     do_new E None None 16 SBUF_AUTOEXTEND,
     check_write (w_cpy E T) ''0123456789abcde'' 0,
     save_len,
     save_size,
     check_putc E (CHR ''f'') 0,
     check_mem ''s->s_len == len_before + 1'' (\<lambda>t v. s_len v = t_len_before t + 1),
     check_grew,
     check_fun (''s->s_buf[s->s_len - 1] == '' @ char_text (CHR ''f''))
       (\<lambda>h s. char_at h s (\<lambda>v. unat (size_of_int (s_len v - 1)))) (\<lambda>x. x = of_char CHR ''f''),
     do_call sbuf_delete,
     SBUF_SHOULD ''fail if the sbuf is overflowed'',
     do_new E None None 16 SBUF_AUTOEXTEND,
     set_overflowed,
     check_putc E (CHR ''a'') (-1),
     do_call sbuf_delete]"

section \<open>The other functions\<close>

definition check_trim :: "cint \<Rightarrow> stmt" where
  "check_trim e = check_call (''sbuf_trim(s) == '' @ (if e = 0 then ''0'' else ''-1'')) e sbuf_trim"

text \<open>The string of the first block of \<open>sbuf_trim\<close>.\<close>

definition white_end :: string where
  "white_end = ''foo    '' @ [CHR 0x09, CHR 0x09, CHR 0x0A, CHR 0x09]"

definition test_sbuf_trim :: "kenv \<Rightarrow> test_env \<Rightarrow> stmt list" where
  "test_sbuf_trim E T =
    [SBUF_TESTING ''sbuf_trim'',
     SBUF_SHOULD ''remove trailing spaces, tabs and newlines'',
     do_new E None None 16 0,
     check_write (w_cpy E T) white_end 0,
     check_strlen T white_end,
     check_trim 0,
     check_len 3,
     do_call sbuf_delete,
     SBUF_SHOULD ''do nothing if there is no trailing whitespace'',
     do_new E None None 16 0,
     check_write (w_cpy E T) ''foo'' 0,
     check_strlen T ''foo'',
     check_trim 0,
     check_strlen T ''foo'',
     do_call sbuf_delete,
     SBUF_SHOULD ''fail if the sbuf is overflowed'',
     do_new E None None 16 0,
     check_write (w_cpy E T) ''foo   '' 0,
     set_overflowed,
     check_trim (-1),
     check_strlen T ''foo   '',
     do_call sbuf_delete,
     SBUF_SHOULD ''work on empty strings'',
     do_new E None None 16 0,
     check_trim 0,
     check_len 0,
     do_call sbuf_delete]"

definition test_sbuf_overflowed :: "kenv \<Rightarrow> stmt list" where
  "test_sbuf_overflowed E =
    [SBUF_TESTING ''sbuf_overflowed'',
     SBUF_SHOULD ''return false if it hasn't overflowed'',
     do_new E None None 16 0,
     check_fun ''!(sbuf_overflowed(s))'' sbuf_overflowed (\<lambda>r. r = 0),
     do_call sbuf_delete,
     SBUF_SHOULD ''return true if it has overflowed'',
     do_new E None None 16 0,
     set_overflowed,
     check_fun ''sbuf_overflowed(s)'' sbuf_overflowed (\<lambda>r. r \<noteq> 0),
     do_call sbuf_delete]"

definition test_sbuf_finish :: "kenv \<Rightarrow> stmt list" where
  "test_sbuf_finish E =
    [SBUF_TESTING ''sbuf_finish'',
     SBUF_SHOULD ''insert a nul byte, clear the overflowed flag and set the finished flag'',
     do_new E None None 16 0,
     check_putc E (CHR ''A'') 0,
     do_call (put_char CHR ''x''),
     set_overflowed,
     check_mem ''!(SBUF_ISSET(s, SBUF_FINISHED))'' (\<lambda>t v. \<not> SBUF_ISSET v SBUF_FINISHED),
     do_call sbuf_finish,
     check_fun ''s->s_buf[s->s_len] == 0'' (\<lambda>h s. char_at h s (\<lambda>v. unat (size_of_int (s_len v))))
       (\<lambda>x. x = 0),
     check_mem ''!(SBUF_ISSET(s, SBUF_OVERFLOWED))'' (\<lambda>t v. \<not> SBUF_ISSET v SBUF_OVERFLOWED),
     check_mem ''SBUF_ISSET(s, SBUF_FINISHED)'' (\<lambda>t v. SBUF_ISSET v SBUF_FINISHED),
     do_call sbuf_delete]"

definition test_sbuf_data :: "kenv \<Rightarrow> test_env \<Rightarrow> stmt list" where
  "test_sbuf_data E T =
    [SBUF_TESTING ''sbuf_data'',
     SBUF_SHOULD ''return the s_buf pointer'',
     do_new E None None 16 0,
     check_fun ''sbuf_data(s) == s->s_buf''
       (\<lambda>h s. do { v \<leftarrow> hp_obj h s; d \<leftarrow> sbuf_data h s; Some (s_buf v, d) }) (\<lambda>(b, d). d = b),
     do_call sbuf_delete,
     SBUF_SHOULD ''return the buffer we gave it'',
     local_buf T,
     do_new E None (Some (te_buf T)) 4 0,
     check_fun ''sbuf_data(s) == buf'' sbuf_data (\<lambda>d. d = Some (te_buf T)),
     do_call sbuf_delete]"

definition test_sbuf_len :: "kenv \<Rightarrow> test_env \<Rightarrow> stmt list" where
  "test_sbuf_len E T =
    [SBUF_TESTING ''sbuf_len'',
     SBUF_SHOULD ''return the length of the sbuf data'',
     do_new E None None 16 0,
     check_write (w_cpy E T) ''hello'' 0,
     check_fun ''sbuf_len(s) == 5'' sbuf_len (\<lambda>n. n = 5),
     do_call sbuf_delete,
     SBUF_SHOULD ''return -1 if the sbuf is overflowed'',
     do_new E None None 16 0,
     check_write (w_cpy E T) ''hello'' 0,
     check_fun ''sbuf_len(s) == 5'' sbuf_len (\<lambda>n. n = 5),
     set_overflowed,
     check_fun ''sbuf_len(s) == -1'' sbuf_len (\<lambda>n. n = -1),
     do_call sbuf_delete]"

definition test_sbuf_done :: "kenv \<Rightarrow> stmt list" where
  "test_sbuf_done E =
    [SBUF_TESTING ''sbuf_done'',
     SBUF_SHOULD ''return false if the sbuf isn't finished'',
     do_new E None None 16 0,
     check_fun ''!(sbuf_done(s))'' sbuf_done (\<lambda>r. r = 0),
     do_call sbuf_delete,
     SBUF_SHOULD ''return true if the sbuf has finished'',
     do_new E None None 16 0,
     check_fun ''!(sbuf_done(s))'' sbuf_done (\<lambda>r. r = 0),
     do_assign (\<lambda>v. SBUF_SETFLAG v SBUF_FINISHED),
     check_fun ''sbuf_done(s)'' sbuf_done (\<lambda>r. r \<noteq> 0),
     do_call sbuf_delete]"

text \<open>The last assertion looks at \<open>existing\<close>, which outlives its buffer.\<close>

definition test_sbuf_delete :: "kenv \<Rightarrow> test_env \<Rightarrow> stmt list" where
  "test_sbuf_delete E T =
    [SBUF_TESTING ''sbuf_delete'',
     SBUF_SHOULD ''just free the backing buffer if we supplied an sbuf'',
     local_existing T sbuf_bzero,
     do_new E (Some (te_existing T)) None 16 0,
     check_mem ''s->s_buf != NULL'' (\<lambda>t v. s_buf v \<noteq> None),
     do_call sbuf_delete,
     check_mem ''s->s_buf == NULL'' (\<lambda>t v. s_buf v = None)]"

section \<open>sysctl_sbuf_tests\<close>

definition sbuf_tests :: "kenv \<Rightarrow> test_env \<Rightarrow> stmt list" where
  "sbuf_tests E T =
     test_sbuf_new E T @
     test_sbuf_clear E @
     test_sbuf_extend E T @
     test_sbuf_capacity E @
     test_sbuf_ensure_capacity E @
     test_sbuf_bcat E T @
     test_sbuf_bcpy E T @
     test_sbuf_cat E T @
     test_sbuf_cpy E T @
     test_sbuf_printf E T @
     test_sbuf_putc E T @
     test_sbuf_trim E T @
     test_sbuf_overflowed E @
     test_sbuf_finish E @
     test_sbuf_data E T @
     test_sbuf_len E T @
     test_sbuf_done E @
     test_sbuf_delete E T"

abbreviation (input) ENOTRECOVERABLE :: cint where "ENOTRECOVERABLE \<equiv> 104"

definition test_start :: "sbuf heap \<Rightarrow> tst" where
  "test_start h = \<lparr>t_heap = h, t_s = None, t_size_before = 0, t_len_before = 0, t_passed = 0,
     t_what = None, t_should = None, t_log = [], t_failed = False\<rparr>"

text \<open>
  The handler: \<open>rval\<close> is what \<open>sysctl_handle_string\<close> returned, \<open>newptr\<close> and \<open>newlen\<close> are the request's.
  It gives its result, the lines it prints and the heap.
\<close>

definition sysctl_sbuf_tests ::
  "kenv \<Rightarrow> test_env \<Rightarrow> cint \<Rightarrow> 64 word \<Rightarrow> size_t \<Rightarrow> sbuf heap \<Rightarrow>
     (cint \<times> line list \<times> sbuf heap) option" where
  "sysctl_sbuf_tests E T rval newptr newlen h =
     (if rval \<noteq> 0 \<or> newptr = 0 \<or> newlen < 1 then Some (rval, [], h)
      else do {
        t \<leftarrow> run_stmts (sbuf_tests E T) (test_start h);
        Some (if t_failed t then (ENOTRECOVERABLE, t_log t, t_heap t)
          else (0, t_log t @ kprintf (''sbuf_tests: %zu assertions passed'' @ newline)
            [A_long (t_passed t)], t_heap t)) })"

end
