(* ===== verification/Sbuf_Spec.thy ===== *)
theory Sbuf_Spec imports Sbuf_Run begin

text \<open>
  The properties of the string buffer: sessions from \<open>sbuf_new\<close> to \<open>sbuf_delete\<close>, growth,
  overflow, the contract its writers share, and the two ways a client can leave it.
\<close>

section \<open>Sessions\<close>

text \<open>What a client can observe of the buffer at \<open>s\<close>.\<close>

definition sbuf_state :: "sbuf heap \<Rightarrow> addr \<Rightarrow> asbuf option" where
  "sbuf_state h s = do { v \<leftarrow> hp_obj h s; b \<leftarrow> s_buf v; c \<leftarrow> hp_data h b; Some (sbuf_view v c) }"

lemma sbuf_state_at: "sbuf_at h s v b c \<Longrightarrow> sbuf_state h s = Some (sbuf_view v c)"
  by (simp add: sbuf_state_def sbuf_at_def)

text \<open>
  Make a buffer, perform the operations, look at it, delete it. The inner \<open>None\<close> is \<open>sbuf_new\<close>
  returning \<open>NULL\<close>.
\<close>

definition sbuf_session ::
  "kenv \<Rightarrow> sbuf heap \<Rightarrow> addr option \<Rightarrow> addr option \<Rightarrow> cint \<Rightarrow> cint \<Rightarrow> sbuf_op list \<Rightarrow>
     ((cint list \<times> asbuf) option \<times> sbuf heap) option" where
  "sbuf_session E h0 sopt bopt n flags ops = do {
     (r, h) \<leftarrow> sbuf_new E h0 sopt bopt n flags;
     case r of
       None \<Rightarrow> Some (None, h)
     | Some s \<Rightarrow> do {
         (rs, h) \<leftarrow> exec_run E h s ops;
         a \<leftarrow> sbuf_state h s;
         h \<leftarrow> sbuf_delete h s;
         Some (Some (rs, a), h) } }"

text \<open>What the client may lend: a live structure, and a live buffer of at least \<open>n > 0\<close> bytes.\<close>

definition client_lends :: "sbuf heap \<Rightarrow> addr option \<Rightarrow> addr option \<Rightarrow> cint \<Rightarrow> bool" where
  "client_lends h0 sopt bopt n \<longleftrightarrow> hp_finite h0 \<and>
     (case sopt of None \<Rightarrow> True | Some a \<Rightarrow> hp_obj h0 a \<noteq> None \<and> hp_data h0 a = None) \<and>
     (case bopt of None \<Rightarrow> True
      | Some b \<Rightarrow> 0 < unat n \<and>
          (case hp_data h0 b of None \<Rightarrow> False | Some c \<Rightarrow> unat n \<le> length c))"

text \<open>After deletion, the heap as the session found it.\<close>

definition session_leaves :: "sbuf heap \<Rightarrow> addr option \<Rightarrow> addr option \<Rightarrow> sbuf heap \<Rightarrow> bool" where
  "session_leaves h0 sopt bopt h \<longleftrightarrow> restored h0 (set_option bopt) (set_option sopt) h"

lemma restored_struct:
  assumes "restored h0 X {s} h" "sopt \<in> {None, Some s}" "sopt = None \<Longrightarrow> hp_obj h0 s = None"
  shows "restored h0 X (set_option sopt) h"
  using assms by (cases sopt) (auto simp: restored_def, metis)

lemma sbuf_over_dynstruct:
  "sbuf_over h0 X h s v b c \<Longrightarrow> SBUF_ISDYNSTRUCT v \<longleftrightarrow> hp_obj h0 s = None"
  by (simp add: sbuf_over_def split: if_splits)

context sbuf_kernel begin

lemma session_new:
  assumes "client_lends h0 sopt bopt n"
  obtains (null) h where "sbuf_new E h0 sopt bopt n flags = Some (None, h)"
      "restored h0 {} (set_option sopt) h" "new_accepts E bopt n flags \<Longrightarrow> allocator_fails E"
  | (made) s h v b c where "sbuf_new E h0 sopt bopt n flags = Some (Some s, h)"
      "sbuf_over h0 (set_option bopt) h s v b c" "sbuf_view v c = sbuf_fresh flags"
      "sopt \<in> {None, Some s}" "sopt = None \<Longrightarrow> hp_obj h0 s = None" "unat n \<le> unat (s_size v)" "new_accepts_args bopt n flags"
      "\<not> a_auto (sbuf_fresh flags) \<Longrightarrow> unat (s_size v) = unat n"
proof -
  have fin: "hp_finite h0" using assms by (simp add: client_lends_def)
  have "\<And>a. sopt = Some a \<Longrightarrow> hp_obj h0 a \<noteq> None \<and> hp_data h0 a = None"
    and "\<And>b. bopt = Some b \<Longrightarrow> 0 < unat n \<and> (\<exists>c. hp_data h0 b = Some c \<and> unat n \<le> length c)"
    using assms by (auto simp: client_lends_def split: option.splits)
  from new_refines [where sopt = sopt and bopt = bopt and flags = flags, OF fin this] obtain r h where
    r: "sbuf_new E h0 sopt bopt n flags = Some (r, h)"
      "case r of
       None \<Rightarrow> restored h0 {} (set_option sopt) h \<and> (new_accepts E bopt n flags \<longrightarrow> allocator_fails E)
     | Some s \<Rightarrow> new_accepts_args bopt n flags \<and> sopt \<in> {None, Some s} \<and>
         (sopt = None \<longrightarrow> hp_obj h0 s = None) \<and> (\<exists>v b c.
         sbuf_over h0 (set_option bopt) h s v b c \<and> sbuf_view v c = sbuf_fresh flags \<and>
         unat n \<le> unat (s_size v) \<and>
         (bopt \<noteq> None \<or> \<not> a_auto (sbuf_fresh flags) \<longrightarrow> unat (s_size v) = unat n))" by auto
  show thesis
  proof (cases r)
    case None
    then show thesis using null r by simp
  next
    case (Some s)
    then show thesis using made r by fastforce
  qed
qed

text \<open>The end of a session, from the state after the run.\<close>

lemma session_end:
  assumes over: "sbuf_over h0 (set_option bopt) h s v b c" and s: "sopt \<in> {None, Some s}"
    and new: "sbuf_new E h0 sopt bopt n flags = Some (Some s, h')"
    and run: "exec_run E h' s ops = Some (rs, h)"
    and lends: "client_lends h0 sopt bopt n"
    and fresh: "sopt = None \<Longrightarrow> hp_obj h0 s = None"
  shows "\<exists>h2. sbuf_session E h0 sopt bopt n flags ops = Some (Some (rs, sbuf_view v c), h2) \<and>
    session_leaves h0 sopt bopt h2"
proof -
  obtain h2 where h2: "sbuf_delete h s = Some h2" "restored h0 (set_option bopt) {s} h2"
    using delete_restores [OF over] by blast
  have "restored h0 (set_option bopt) (set_option sopt) h2"
    using restored_struct [OF h2(2) s fresh] .
  then show ?thesis
    using new run h2(1) sbuf_state_at [OF sbuf_overD [OF over]]
    by (simp add: sbuf_session_def session_leaves_def)
qed

end

lemma arm64_allocates: "\<not> allocator_fails arm64_kernel"
proof -
  have "fst (kalloc_data first_fit h m fl) \<noteq> None" if "hp_finite h"
    for h :: "sbuf heap" and m fl
    using first_fit_total [OF that, of m M_TEMP M_WAITOK]
      first_fit_total [OF that, of m M_TEMP "M_WAITOK OR M_ZERO"]
    by (cases "fl AND Z_ZERO = 0") (auto simp: kalloc_data_def)
  moreover have "fst (kalloc_type first_fit h m fl z) \<noteq> None" if "hp_finite h"
    for h :: "sbuf heap" and m fl z
    using first_fit_total [OF that, of m M_TEMP M_WAITOK]
      first_fit_total [OF that, of m M_TEMP "M_WAITOK OR M_ZERO"]
    by (cases "fl AND Z_ZERO = 0") (auto simp: kalloc_type_def)
  ultimately show ?thesis by (auto simp: allocator_fails_def arm64_kernel_def)
qed

lemma arm64_page: "unat (PAGE_SIZE arm64_kernel) = 16384"
  using sbuf_kernel.unat_PAGE_SIZE [OF sbuf_kernel_arm64] by (simp add: arm64_kernel_def)

text \<open>
  A small client memory: the string "abc" at 5, a structure at 2 and eight bytes of buffer at 3.
\<close>

definition client0 :: "sbuf heap" where
  "client0 = \<lparr>hp_data = [5 \<mapsto> [97, 98, 99, 0], 3 \<mapsto> [119, 119, 119, 119, 119, 119, 119, 119]],
     hp_obj = [2 \<mapsto> sbuf_bzero], hp_owned = {}\<rparr>"

lemma client0_lends:
  "client_lends client0 None None n"
  "client_lends client0 (Some 2) (Some 3) 8"
  by (simp_all add: client_lends_def client0_def hp_finite_def)

lemma client0_string: "string_at client0 (5, 0) = [97, 98, 99]"
  by (simp add: string_at_def client0_def)

lemma client0_ready:
  "5 \<notin> X \<Longrightarrow> op_ready client0 X (Op_cat (5, 0))"
  "5 \<notin> X \<Longrightarrow> op_ready client0 X (Op_cpy (5, 0))"
  "5 \<notin> X \<Longrightarrow> op_ready client0 X (Op_bcat (5, 0) 2)"
proof -
  have "load_bytes client0 (5, 0) (Suc (Suc (Suc (Suc 0)))) = Some [97, 98, 99, 0]"
    "load_bytes client0 (5, 0) 2 = Some [97, 98]"
    by (simp_all add: load_bytes_def client0_def)
  then show "5 \<notin> X \<Longrightarrow> op_ready client0 X (Op_cat (5, 0))"
    "5 \<notin> X \<Longrightarrow> op_ready client0 X (Op_cpy (5, 0))"
    "5 \<notin> X \<Longrightarrow> op_ready client0 X (Op_bcat (5, 0) 2)"
    by (simp_all add: client0_string cstring_at_def)
qed

section \<open>Writers\<close>

text \<open>
  The contract the appending functions share: \<open>wr\<close> appends the bytes of its source, or marks the
  buffer. What a client relies on is proved here once, for any writer.
\<close>

locale sbuf_writer =
  fixes wr :: "kenv \<Rightarrow> sbuf heap \<Rightarrow> addr \<Rightarrow> 'src \<Rightarrow> (cint \<times> sbuf heap) option"
    and src_bytes :: "sbuf heap \<Rightarrow> 'src \<Rightarrow> byte list"
    and src_ok :: "sbuf heap \<Rightarrow> addr set \<Rightarrow> 'src \<Rightarrow> bool"
  assumes wr_appends: "sbuf_kernel E \<Longrightarrow> sbuf_over h0 X h s v b c \<Longrightarrow> src_ok h0 X src \<Longrightarrow>
    appends E h0 X s v c (src_bytes h0 src) (wr E h s src)"
begin

lemma wr_result:
  assumes "sbuf_kernel E" "sbuf_over h0 X h s v b c" "src_ok h0 X src"
  obtains ok r h' v' b' c' where "wr E h s src = Some (r, h')" "sbuf_over h0 X h' s v' b' c'"
    "(r, sbuf_view v' c') = spec_append ok (src_bytes h0 src) (sbuf_view v c)"
    "\<not> SBUF_HASOVERFLOWED v \<Longrightarrow> append_ok E v (length (src_bytes h0 src)) ok"
  using wr_appends [OF assms] unfolding appends_def by blast

text \<open>All or nothing.\<close>

lemma wr_atomic:
  assumes "sbuf_kernel E" "sbuf_over h0 X h s v b c" "src_ok h0 X src"
  shows "\<exists>r h' a'. wr E h s src = Some (r, h') \<and> sbuf_state h' s = Some a' \<and>
    a_text a' = sbuf_text v c @ (if r = 0 then src_bytes h0 src else []) \<and> (r = 0 \<or> r = -1) \<and>
    (r = -1 \<longleftrightarrow> a_over a')"
proof -
  obtain ok r h' v' b' c' where r: "wr E h s src = Some (r, h')" "sbuf_over h0 X h' s v' b' c'"
    "(r, sbuf_view v' c') = spec_append ok (src_bytes h0 src) (sbuf_view v c)"
    by (rule wr_result [OF assms])
  have "a_text (sbuf_view v' c') = sbuf_text v c @ (if r = 0 then src_bytes h0 src else []) \<and>
      (r = 0 \<or> r = -1) \<and> (r = -1 \<longleftrightarrow> a_over (sbuf_view v' c'))"
    using r(3) unfolding spec_append_def by (simp only: prod.inject split: if_splits) auto
  then show ?thesis using r(1) sbuf_state_at [OF sbuf_overD [OF r(2)]] by blast
qed

text \<open>Clearing and writing sets the whole text.\<close>

lemma clear_wr:
  assumes "sbuf_kernel E" "sbuf_over h0 X h s v b c" "src_ok h0 X src"
  shows "\<exists>r h' a'. Option.bind (sbuf_clear h s) (\<lambda>h. wr E h s src) = Some (r, h') \<and>
    sbuf_state h' s = Some a' \<and> a_text a' = (if r = 0 then src_bytes h0 src else []) \<and>
    (r = -1 \<longleftrightarrow> a_over a') \<and> \<not> a_done a'"
proof -
  obtain v1 where v1: "sbuf_clear h s = Some (put_obj h s v1)"
      "sbuf_over h0 X (put_obj h s v1) s v1 b c" "sbuf_view v1 c = spec_clear (sbuf_view v c)"
    using clear_refines [OF assms(2)] by blast
  obtain ok r h' v' b' c' where r: "wr E (put_obj h s v1) s src = Some (r, h')"
    "sbuf_over h0 X h' s v' b' c'"
    "(r, sbuf_view v' c') = spec_append ok (src_bytes h0 src) (spec_clear (sbuf_view v c))"
    by (rule wr_result [OF assms(1) v1(2) assms(3)]) (simp add: v1(3))
  have "a_text (sbuf_view v' c') = (if r = 0 then src_bytes h0 src else []) \<and>
      (r = -1 \<longleftrightarrow> a_over (sbuf_view v' c')) \<and> \<not> a_done (sbuf_view v' c')"
    using r(3) unfolding spec_append_def spec_clear_def
    by (simp only: prod.inject split: if_splits) auto
  then show ?thesis using r(1) v1(1) sbuf_state_at [OF sbuf_overD [OF r(2)]] by auto
qed

end

text \<open>Two writers of the same bytes cannot be told apart on a buffer of fixed length.\<close>

locale sbuf_two_writers =
  one: sbuf_writer wr1 bytes1 ok1 + two: sbuf_writer wr2 bytes2 ok2
  for wr1 :: "kenv \<Rightarrow> sbuf heap \<Rightarrow> addr \<Rightarrow> 'src1 \<Rightarrow> (cint \<times> sbuf heap) option" and bytes1 ok1
    and wr2 :: "kenv \<Rightarrow> sbuf heap \<Rightarrow> addr \<Rightarrow> 'src2 \<Rightarrow> (cint \<times> sbuf heap) option" and bytes2 ok2
begin

lemma same_outcome:
  assumes E: "sbuf_kernel E" and over: "sbuf_over h0 X h s v b c"
    and ok: "ok1 h0 X src1" "ok2 h0 X src2"
    and same: "bytes1 h0 src1 = bytes2 h0 src2" and fixed: "\<not> SBUF_CANEXTEND v"
  shows "\<exists>r h1 h2. wr1 E h s src1 = Some (r, h1) \<and> wr2 E h s src2 = Some (r, h2) \<and>
    sbuf_state h1 s = sbuf_state h2 s \<and> sbuf_state h1 s \<noteq> None"
proof -
  obtain k1 r1 h1 v1 b1 c1 where r1: "wr1 E h s src1 = Some (r1, h1)" "sbuf_over h0 X h1 s v1 b1 c1"
    "(r1, sbuf_view v1 c1) = spec_append k1 (bytes1 h0 src1) (sbuf_view v c)"
    "\<not> SBUF_HASOVERFLOWED v \<Longrightarrow> append_ok E v (length (bytes1 h0 src1)) k1"
    by (rule one.wr_result [OF E over ok(1)]) blast
  obtain k2 r2 h2 v2 b2 c2 where r2: "wr2 E h s src2 = Some (r2, h2)" "sbuf_over h0 X h2 s v2 b2 c2"
    "(r2, sbuf_view v2 c2) = spec_append k2 (bytes2 h0 src2) (sbuf_view v c)"
    "\<not> SBUF_HASOVERFLOWED v \<Longrightarrow> append_ok E v (length (bytes2 h0 src2)) k2"
    by (rule two.wr_result [OF E over ok(2)]) blast
  have "spec_append k1 (bytes1 h0 src1) (sbuf_view v c) = spec_append k2 (bytes2 h0 src2) (sbuf_view v c)"
  proof (cases "SBUF_HASOVERFLOWED v")
    case True
    then show ?thesis by (simp add: spec_append_def)
  next
    case False
    then have "k1 = k2" using r1(4) r2(4) fixed same
      by (metis append_ok_def not_less)
    then show ?thesis by (simp add: same)
  qed
  then show ?thesis
    using r1 r2 sbuf_state_at [OF sbuf_overD [OF r1(2)]] sbuf_state_at [OF sbuf_overD [OF r2(2)]]
    by (metis option.distinct(1) prod.inject)
qed

end

definition bcat_ok :: "sbuf heap \<Rightarrow> addr set \<Rightarrow> ptr \<times> size_t \<Rightarrow> bool" where
  "bcat_ok h X src = op_ready h X (Op_bcat (fst src) (snd src))"

definition cat_ok :: "sbuf heap \<Rightarrow> addr set \<Rightarrow> ptr \<Rightarrow> bool" where
  "cat_ok h X src = op_ready h X (Op_cat src)"

interpretation bcat: sbuf_writer "\<lambda>E h s (p, n). sbuf_bcat E h s p n"
  "\<lambda>h (p, n). bytes_at h p (unat n)" bcat_ok
  by unfold_locales
    (auto simp: bcat_ok_def bytes_at_def intro: sbuf_kernel.bcat_appends)

interpretation cat: sbuf_writer sbuf_cat string_at cat_ok
  by unfold_locales (simp add: cat_ok_def sbuf_kernel.cat_appends)

interpretation putc: sbuf_writer sbuf_putc "\<lambda>h ch. [ucast ch]" "\<lambda>h X ch. (ucast ch :: byte) \<noteq> 0"
  by unfold_locales (rule sbuf_kernel.putc_appends)

interpretation printf: sbuf_writer "\<lambda>E h s out. sbuf_printf E h s (Some out)" "\<lambda>h out. out"
  "\<lambda>h X out. length out < 2 ^ 31"
  by unfold_locales (simp add: sbuf_printf_def sbuf_kernel.vprintf_appends)

interpretation printf_bcat: sbuf_two_writers
  "\<lambda>E h s out. sbuf_printf E h s (Some out)" "\<lambda>h out. out" "\<lambda>h X out. length out < 2 ^ 31"
  "\<lambda>E h s (p, n). sbuf_bcat E h s p n" "\<lambda>h (p, n). bytes_at h p (unat n)" bcat_ok
  by unfold_locales

section \<open>Properties\<close>

text \<open>
  C1. The life of a string buffer is memory safe, returns, and leaks nothing: for every allocator
  that keeps its contract, every way of lending memory to \<open>sbuf_new\<close> and every sequence of
  operations on readable client data, the session is defined. Afterwards nothing is owned that was
  not owned before, all memory outside the lent buffer is as it was, and \<open>sbuf_new\<close> returned
  \<open>NULL\<close> only for arguments it rejects or when the allocator did.
\<close>

theorem sbuf_session_safe:
  assumes "sbuf_kernel E" "client_lends h0 sopt bopt n"
    and "list_all (op_ready h0 (set_option bopt)) ops"
  shows "\<exists>res h. sbuf_session E h0 sopt bopt n flags ops = Some (res, h) \<and>
    session_leaves h0 sopt bopt h \<and>
    (res = None \<longrightarrow> \<not> new_accepts E bopt n flags \<or> allocator_fails E)"
proof (cases rule: sbuf_kernel.session_new [OF assms(1,2), of flags])
  case (1 h)
  moreover have "restored h0 (set_option bopt) (set_option sopt) h"
    using 1(2) by (simp add: restored_def)
  ultimately show ?thesis by (auto simp: sbuf_session_def session_leaves_def)
next
  case (2 s h v b c)
  obtain rs h' v' b' c' where run: "exec_run E h s ops = Some (rs, h')"
      and over: "sbuf_over h0 (set_option bopt) h' s v' b' c'"
    using sbuf_kernel.exec_run_refines [OF assms(1) 2(2) assms(3)] by blast
  show ?thesis
    using sbuf_kernel.session_end [OF assms(1) over 2(4,1) run assms(2) 2(5)] by blast
qed

theorem sbuf_session_safe_witness:
  "\<exists>res h. sbuf_session arm64_kernel client0 None None 4 SBUF_AUTOEXTEND
      [Op_cat (5, 0), Op_bcat (5, 0) 2, Op_finish] = Some (res, h) \<and>
    session_leaves client0 None None h \<and>
    (res = None \<longrightarrow> \<not> new_accepts arm64_kernel None 4 SBUF_AUTOEXTEND \<or> allocator_fails arm64_kernel)"
  by (rule sbuf_session_safe [OF sbuf_kernel_arm64 client0_lends(1)])
    (use client0_ready [of "{}"] in simp)

text \<open>
  C4. A buffer of fixed length behaves exactly as the abstract buffer: of \<open>n\<close> bytes, an append is
  accepted iff the text stays below \<open>n\<close> bytes (one is kept for the nul); a refused append leaves
  the text alone and marks the buffer, and every return value is the abstract one.
\<close>

theorem sbuf_fixed_exact:
  assumes "sbuf_kernel E" "client_lends h0 sopt bopt n"
    and "list_all (op_ready h0 (set_option bopt)) ops"
    and "new_accepts E bopt n flags" "\<not> allocator_fails E" "flags AND SBUF_AUTOEXTEND = 0"
  shows "\<exists>h. sbuf_session E h0 sopt bopt n flags ops =
      Some (Some (spec_run h0 ops (replicate (length ops) (fits (unat n))) (sbuf_fresh flags)), h)"
proof (cases rule: sbuf_kernel.session_new [OF assms(1,2), of flags])
  case (1 h)
  then show ?thesis using assms(4,5) by simp
next
  case (2 s h v b c)
  have fixed: "\<not> a_auto (sbuf_fresh flags)" using assms(6) by (simp add: sbuf_fresh_def)
  then have "\<not> a_auto (sbuf_view v c)" "unat (s_size v) = unat n" using 2(3,8) by simp_all
  then obtain rs h' v' b' c' where run: "exec_run E h s ops = Some (rs, h')"
      and over: "sbuf_over h0 (set_option bopt) h' s v' b' c'"
      and spec: "(rs, sbuf_view v' c') =
        spec_run h0 ops (replicate (length ops) (fits (unat n))) (sbuf_fresh flags)"
    using sbuf_kernel.exec_run_fixed [OF assms(1) 2(2) assms(3)] 2(3) by auto
  show ?thesis
    using sbuf_kernel.session_end [OF assms(1) over 2(4,1) run assms(2) 2(5)]
    unfolding spec [symmetric] by blast
qed

theorem sbuf_fixed_exact_witness:
  "\<exists>h. sbuf_session arm64_kernel client0 (Some 2) (Some 3) 8 SBUF_FIXEDLEN
      [Op_cat (5, 0), Op_cat (5, 0), Op_putc 33, Op_putc 33, Op_putc 33] =
    Some (Some ([0, 0, 0, -1, -1],
      \<lparr>a_text = [97, 98, 99, 97, 98, 99, 33], a_over = True, a_done = False, a_auto = False\<rparr>), h)"
  using sbuf_fixed_exact [OF sbuf_kernel_arm64 client0_lends(2),
      of "[Op_cat (5, 0), Op_cat (5, 0), Op_putc 33, Op_putc 33, Op_putc 33]" SBUF_FIXEDLEN]
    client0_ready(1) [of "{3}"] arm64_allocates
  by (simp add: new_accepts_def new_accepts_args_def client0_string sbuf_fresh_def fits_def
      spec_append_def sbuf_flag_consts)

text \<open>
  C7. A growing buffer loses nothing: over an allocator that does not fail, and while everything
  appended, a nul and a page stay within an int, every append of the session is accepted, so the
  text is the exact outcome of the operations whatever size the buffer started with.
\<close>

theorem sbuf_growing_exact:
  assumes "sbuf_kernel E" "client_lends h0 sopt bopt n"
    and "list_all (op_ready h0 (set_option bopt)) ops"
    and "new_accepts E bopt n flags" "\<not> allocator_fails E" "flags AND SBUF_AUTOEXTEND \<noteq> 0"
    and "sum_list (map (op_bytes h0) ops) + 1 + 2 ^ ke_page_shift E \<le> 2 ^ 31"
  shows "\<exists>h. sbuf_session E h0 sopt bopt n flags ops =
      Some (Some (spec_run h0 ops (replicate (length ops) (\<lambda>_ _. True)) (sbuf_fresh flags)), h)"
proof (cases rule: sbuf_kernel.session_new [OF assms(1,2), of flags])
  case (1 h)
  then show ?thesis using assms(4,5) by simp
next
  case (2 s h v b c)
  have grows: "a_auto (sbuf_view v c)" "a_text (sbuf_view v c) = []"
    unfolding 2(3) using assms(6) by (simp_all add: sbuf_fresh_def)
  obtain rs h' v' b' c' where run: "exec_run E h s ops = Some (rs, h')"
      and over: "sbuf_over h0 (set_option bopt) h' s v' b' c'"
      and spec: "(rs, sbuf_view v' c') =
        spec_run h0 ops (replicate (length ops) (\<lambda>_ _. True)) (sbuf_fresh flags)"
    using sbuf_kernel.exec_run_growing [OF assms(1) 2(2) assms(3) grows(1) assms(5)] assms(7)
    unfolding grows(2) unfolding 2(3) by auto
  show ?thesis
    using sbuf_kernel.session_end [OF assms(1) over 2(4,1) run assms(2) 2(5)]
    unfolding spec [symmetric] by blast
qed

theorem sbuf_growing_exact_witness:
  "\<exists>h. sbuf_session arm64_kernel client0 (Some 2) (Some 3) 8 SBUF_AUTOEXTEND
      [Op_cat (5, 0), Op_printf (Some [32, 32]), Op_trim, Op_cat (5, 0), Op_cat (5, 0)] =
    Some (Some ([0, 0, 0, 0, 0],
      \<lparr>a_text = [97, 98, 99, 97, 98, 99, 97, 98, 99], a_over = False, a_done = False, a_auto = True\<rparr>), h)"
  using sbuf_growing_exact [OF sbuf_kernel_arm64 client0_lends(2),
      of "[Op_cat (5, 0), Op_printf (Some [32, 32]), Op_trim, Op_cat (5, 0), Op_cat (5, 0)]"
      SBUF_AUTOEXTEND] client0_ready(1) [of "{3}"] arm64_allocates
  by (simp add: new_accepts_def new_accepts_args_def client0_string sbuf_fresh_def spec_trim_def
      spec_append_def rstrip_def isspace_def sbuf_flag_consts arm64_kernel_def)

text \<open>
  C36. \<open>sbuf_extendsize\<close> returns for every request. It fails only within a page of \<open>INT_MAX\<close> or
  above, leaving the request as it was; below a page it answers the least power of two from 16 up
  that holds the request, from a page on the least multiple of the page size.
\<close>

theorem sbuf_extendsize_least:
  assumes "sbuf_kernel E"
  shows "\<exists>r m. sbuf_extendsize E t = Some (r, m) \<and>
    (if r = -1 then m = t \<and> 2 ^ 31 < unat t + unat (PAGE_SIZE E)
     else r = 0 \<and> unat t \<le> unat m \<and> unat m < 2 ^ 31 \<and>
       (if unat t < unat (PAGE_SIZE E)
        then (\<exists>k. unat m = 2 ^ k) \<and> 16 \<le> unat m \<and> (unat m = 16 \<or> unat m < 2 * unat t)
        else unat (PAGE_SIZE E) dvd unat m \<and> unat m < unat t + unat (PAGE_SIZE E)))"
  (is "\<exists>r m. _ \<and> ?P r m")
proof -
  note page = sbuf_kernel.unat_PAGE_SIZE [OF assms]
  let ?p = "2 ^ ke_page_shift E :: nat"
  show ?thesis
  proof (cases "unat t < ?p")
    case True
    then obtain m k where m: "sbuf_extendsize E t = Some (0, m)" "unat m = 2 ^ k" "4 \<le> k"
        "unat t \<le> 2 ^ k" "k = 4 \<or> 2 ^ k < 2 * unat t"
      by (rule sbuf_kernel.sbuf_extendsize_small [OF assms])
    have "16 \<le> unat m" using power_increasing [OF m(3), of "2 :: nat"] m(2) by simp
    moreover have "unat m < 2 ^ 31"
      using m(2,5) True sbuf_kernel.page_power(2) [OF assms] by auto
    ultimately have "?P 0 m" using m(2,4,5) True page by auto
    then show ?thesis using m(1) by blast
  next
    case False
    show ?thesis
    proof (cases rule: sbuf_kernel.sbuf_extendsize_cases [OF assms, of t])
      case 1
      then have "?P (-1) t" using page by simp
      then show ?thesis using 1(1) by blast
    next
      case (2 m)
      have "unat t \<le> unat INT_MAX" using 2(2,4) by simp
      note pg = sbuf_kernel.sbuf_extendsize_page [OF assms this] sbuf_kernel.unat_round_up [OF assms, of t]
      have m: "unat m = (unat t + ?p - 1) div ?p * ?p"
        using pg 2(1,2,4) False by (auto split: if_splits)
      then have "unat m = unat t + ?p - 1 - (unat t + ?p - 1) mod ?p"
        by (simp only: minus_mod_eq_div_mult)
      moreover have "0 < ?p" by simp
      ultimately have "unat m < unat t + ?p" by linarith
      moreover have "?p dvd unat m" by (simp add: m)
      ultimately have "?P 0 m" using 2(2,4) False page by simp
      then show ?thesis using 2(1) by blast
    qed
  qed
qed

theorem sbuf_extendsize_least_witness:
  "\<exists>m. sbuf_extendsize arm64_kernel 100 = Some (0, m) \<and> 100 \<le> unat m \<and> unat m < 200 \<and>
    (\<exists>k. unat m = 2 ^ k)"
  using sbuf_extendsize_least [OF sbuf_kernel_arm64, of 100]
  by (auto simp: arm64_page split: if_splits)

text \<open>The operations that refuse a marked buffer.\<close>

definition appending :: "sbuf heap \<Rightarrow> sbuf_op \<Rightarrow> bool" where
  "appending h op \<longleftrightarrow> (case op of
     Op_bcat p n \<Rightarrow> True | Op_cat p \<Rightarrow> strlen h p \<noteq> None | Op_printf out \<Rightarrow> True
   | Op_putc ch \<Rightarrow> True | Op_trim \<Rightarrow> True | _ \<Rightarrow> False)"

text \<open>
  The overflow mark is sticky: on a marked buffer, whatever the rest of memory holds, every
  appending operation and \<open>sbuf_trim\<close> returns -1 and changes nothing.
\<close>

theorem sbuf_overflow_sticky:
  assumes "hp_obj h s = Some v" "SBUF_HASOVERFLOWED v" "list_all (appending h) ops"
  shows "exec_run E h s ops = Some (replicate (length ops) (-1), h)"
  using assms(3)
proof (induction ops)
  case (Cons op ops)
  then have "exec_op E h s op = Some (-1, h)"
    using assms(1,2)
    by (cases op) (auto simp: appending_def sbuf_bcat_def sbuf_cat_def sbuf_printf_def
        sbuf_vprintf_def sbuf_putc_def sbuf_trim_def)
  then show ?case using Cons by simp
qed simp

theorem sbuf_overflow_sticky_witness:
  "exec_run arm64_kernel (put_obj client0 2 (SBUF_SETFLAG sbuf_bzero SBUF_OVERFLOWED)) 2
     [Op_putc 65, Op_printf None, Op_bcat (5, 0) 3, Op_trim] =
   Some ([-1, -1, -1, -1], put_obj client0 2 (SBUF_SETFLAG sbuf_bzero SBUF_OVERFLOWED))"
  using sbuf_overflow_sticky [of "put_obj client0 2 (SBUF_SETFLAG sbuf_bzero SBUF_OVERFLOWED)" 2
      "SBUF_SETFLAG sbuf_bzero SBUF_OVERFLOWED"
      "[Op_putc 65, Op_printf None, Op_bcat (5, 0) 3, Op_trim]" arm64_kernel]
  by (simp add: appending_def flag_simps del: exec_run.simps)

text \<open>
  C37. \<open>sbuf_finish\<close> makes the text a C string: afterwards \<open>sbuf_data\<close> points to the text with a nul
  behind it, \<open>sbuf_len\<close> is its length and \<open>sbuf_done\<close> holds.
\<close>

theorem sbuf_finish_string:
  assumes at: "sbuf_at h s v b c" and "0 \<notin> set (sbuf_text v c)"
  shows "\<exists>h'. sbuf_finish h s = Some h' \<and> sbuf_data h' s = Some (Some b) \<and>
    cstring_at h' (b, 0) (sbuf_text v c) \<and> sbuf_len h' s = Some (s_len v) \<and>
    sbuf_done h' s = Some 1"
proof -
  let ?w = "SBUF_SETFLAG (SBUF_CLEARFLAG v SBUF_OVERFLOWED) SBUF_FINISHED"
  let ?c = "splice c (unat (s_len v)) [0]"
  let ?h = "put_obj (put_data h b ?c) s ?w"
  have fit: "unat (s_len v) + length [0 :: byte] \<le> length c" using sbuf_atD(5,7) [OF at] by simp
  have fin: "sbuf_finish h s = Some ?h"
    using sbuf_atD(1,2) [OF at] store_bytes_in [OF sbuf_atD(3) [OF at] fit] sbuf_at_len [OF at]
    by (simp add: sbuf_finish_def)
  have "\<not> SBUF_ISSET ?w SBUF_OVERFLOWED"
    using isset_clearflag_same [of v SBUF_OVERFLOWED]
    by (simp add: isset_setflag) (simp add: sbuf_flag_consts)
  moreover have "SBUF_ISSET ?w SBUF_FINISHED" by (simp add: flag_simps)
  moreover have "load_bytes ?h (b, 0) (Suc (length (sbuf_text v c))) = Some (sbuf_text v c @ [0])"
    using fit sbuf_text_length [OF at] take_splice_through [OF fit]
    by (subst load_bytes_whole [of _ b ?c]) (simp_all add: sbuf_text_def)
  moreover have "length (sbuf_text v c) < 2 ^ 64"
    using sbuf_text_length [OF at] sbuf_atD(6,7) [OF at] by simp
  ultimately show ?thesis using fin assms(2) sbuf_atD(2) [OF at]
    by (simp add: sbuf_data_def sbuf_len_def sbuf_done_def cstring_at_def SBUF_HASOVERFLOWED_def
        SBUF_ISFINISHED_def)
qed

text \<open>A buffer over \<open>client0\<close> that holds "ww".\<close>

definition client_sbuf :: sbuf where
  "client_sbuf = \<lparr>s_buf = Some 3, s_unused = None, s_size = 8, s_len = 2, s_flags = 0\<rparr>"

lemma client_sbuf_over:
  "sbuf_over client0 {3} (put_obj client0 2 client_sbuf) 2 client_sbuf 3
    [119, 119, 119, 119, 119, 119, 119, 119]"
  by (simp add: sbuf_over_def sbuf_at_def client_sbuf_def flag_simps SBUF_ISSET_def hp_finite_def)
    (simp add: client0_def)

theorem sbuf_finish_string_witness:
  "\<exists>h'. sbuf_finish (put_obj client0 2 client_sbuf) 2 = Some h' \<and> sbuf_data h' 2 = Some (Some 3) \<and>
    cstring_at h' (3, 0) [119, 119] \<and> sbuf_len h' 2 = Some 2 \<and> sbuf_done h' 2 = Some 1"
  using sbuf_finish_string [OF sbuf_overD [OF client_sbuf_over]]
  by (simp add: sbuf_text_def client_sbuf_def)

text \<open>
  Printing and copying agree: on a buffer of fixed length, \<open>sbuf_printf\<close> of a format that
  prints \<open>out\<close> (which writes a truncated text first and then retries) and \<open>sbuf_bcat\<close> of the same
  bytes return the same and leave the same buffer.
\<close>

theorem sbuf_printf_as_bcat:
  assumes "sbuf_kernel E" "sbuf_over h0 X h s v b c" "\<not> SBUF_CANEXTEND v"
    and "load_bytes h0 p (unat n) = Some out" "fst p \<notin> X" "length out < 2 ^ 31"
  shows "\<exists>r h1 h2. sbuf_printf E h s (Some out) = Some (r, h1) \<and> sbuf_bcat E h s p n = Some (r, h2) \<and>
    sbuf_state h1 s = sbuf_state h2 s \<and> sbuf_state h1 s \<noteq> None"
proof -
  have "bcat_ok h0 X (p, n)" "bytes_at h0 p (unat n) = out"
    using assms(4,5) by (simp_all add: bcat_ok_def bytes_at_def)
  then show ?thesis
    using printf_bcat.same_outcome [OF assms(1,2,6), of "(p, n)"] assms(3) by (simp only: prod.case not_False_eq_True simp_thms)
qed

theorem sbuf_printf_as_bcat_witness:
  "\<exists>r h1 h2. sbuf_printf arm64_kernel (put_obj client0 2 client_sbuf) 2 (Some [97, 98]) = Some (r, h1) \<and>
    sbuf_bcat arm64_kernel (put_obj client0 2 client_sbuf) 2 (5, 0) 2 = Some (r, h2) \<and>
    sbuf_state h1 2 = sbuf_state h2 2 \<and> sbuf_state h1 2 \<noteq> None"
proof -
  have "load_bytes client0 (5, 0) (unat (2 :: size_t)) = Some [97, 98]"
    by (simp add: load_bytes_def client0_def)
  then show ?thesis
    by (intro sbuf_printf_as_bcat [OF sbuf_kernel_arm64 client_sbuf_over])
      (simp_all add: client_sbuf_def flag_simps SBUF_ISSET_def)
qed

text \<open>
  \<open>sbuf_cpy\<close> sets the text: whatever the buffer held and even if it was marked or finished, it
  then holds exactly the string, or nothing and the mark if the string does not fit.
\<close>

theorem sbuf_cpy_sets:
  assumes "sbuf_kernel E" "sbuf_over h0 X h s v b c" "op_ready h0 X (Op_cpy p)"
  shows "\<exists>r h' a. sbuf_cpy E h s p = Some (r, h') \<and> sbuf_state h' s = Some a \<and>
    a_text a = (if r = 0 then string_at h0 p else []) \<and> (r = -1 \<longleftrightarrow> a_over a) \<and> \<not> a_done a"
  using cat.clear_wr [OF assms(1,2), of p] assms(3)
  by (simp add: sbuf_cpy_def cat_ok_def)

theorem sbuf_cpy_sets_witness:
  "\<exists>r h' a. sbuf_cpy arm64_kernel (put_obj client0 2 client_sbuf) 2 (5, 0) = Some (r, h') \<and>
    sbuf_state h' 2 = Some a \<and> a_text a = (if r = 0 then [97, 98, 99] else []) \<and>
    (r = -1 \<longleftrightarrow> a_over a) \<and> \<not> a_done a"
  by (rule sbuf_cpy_sets [OF sbuf_kernel_arm64 client_sbuf_over client0_ready(2), unfolded client0_string])
    simp

text \<open>
  C40. A lent buffer of length 0 is not refused: \<open>sbuf_new\<close> returns early for a lent buffer, before
  the check that guards against a size of 0, so the capacity wraps around to \<open>SIZE_MAX\<close> and the next
  append writes past the end of the lent memory, even with \<open>SBUF_FIXEDLEN\<close>.
\<close>

theorem sbuf_zero_length_overrun:
  assumes "hp_obj h0 s \<noteq> None" "hp_data h0 b = Some c" "load_bytes h0 p (unat n) = Some bs"
    and "length c < unat n"
  shows "\<exists>h v. sbuf_new E h0 (Some s) (Some b) 0 SBUF_FIXEDLEN = Some (Some s, h) \<and>
    hp_obj h s = Some v \<and> sbuf_capacity v = SIZE_MAX \<and> sbuf_bcat E h s p n = None"
proof -
  let ?v = "sbuf_bzero\<lparr>s_size := 0, s_buf := Some b\<rparr>"
  let ?h = "put_obj h0 s ?v"
  have new: "sbuf_new E h0 (Some s) (Some b) 0 SBUF_FIXEDLEN = Some (Some s, ?h)"
    using assms(1)
    by (auto simp: sbuf_new_def sbuf_new_struct_def sbuf_new_buf_def sbuf_flag_consts put_obj_def
        sbuf_bzero_def)
  have cap: "sbuf_capacity ?v = SIZE_MAX" by (simp add: sbuf_capacity_def sbuf_bzero_def)
  have "SIZE_MAX = -1" by simp
  then have "n \<le> SIZE_MAX" by (simp only: word_n1_ge)
  then have ens: "sbuf_ensure_capacity E ?h s n = Some (0, ?h)"
    using cap by (simp add: sbuf_ensure_capacity_def)
  have ld: "load_bytes ?h p (unat n) = Some bs"
    using assms(3) load_bytes_cong [of ?h p h0] by simp
  have "length bs = unat n" using assms(3) by (rule length_load_bytes)
  then have "store_bytes ?h (b, 0) bs = None"
    using assms(2,4) by (auto simp: store_bytes_def)
  then have "sbuf_bcat E ?h s p n = None"
    using ens ld by (simp add: sbuf_bcat_def bcopy_def sbuf_bzero_def flag_simps SBUF_ISSET_def)
  then show ?thesis using new cap by auto
qed

theorem sbuf_zero_length_overrun_witness:
  "\<exists>h v. sbuf_new arm64_kernel client0 (Some 2) (Some 5) 0 SBUF_FIXEDLEN = Some (Some 2, h) \<and>
    hp_obj h 2 = Some v \<and> sbuf_capacity v = SIZE_MAX \<and> sbuf_bcat arm64_kernel h 2 (3, 0) 5 = None"
  by (rule sbuf_zero_length_overrun [of _ _ _ "[97, 98, 99, 0]" _ _ "[119, 119, 119, 119, 119]"])
    (simp_all add: client0_def load_bytes_def)

text \<open>
  A buffer must not be appended to itself when that grows it: \<open>sbuf_bcat\<close> of the buffer's own
  \<open>sbuf_data\<close> reads the old backing buffer after \<open>sbuf_extend\<close> has freed it.
\<close>

theorem sbuf_self_append_dangles:
  assumes E: "sbuf_kernel E" and over: "sbuf_over h0 X h s v b c"
    and dyn: "SBUF_ISDYNAMIC v" "\<not> SBUF_HASOVERFLOWED v"
    and grows: "0 < unat n" "unat (s_size v) \<le> unat (s_len v) + unat n"
    and ok: "sbuf_ensure_capacity E h s n = Some (0, h1)"
  shows "sbuf_data h s = Some (Some b) \<and> sbuf_bcat E h s (b, 0) n = None"
proof (cases rule: sbuf_kernel.sbuf_ensure_capacity_cases [OF E over, of n])
  case 1
  then show ?thesis using ok by simp
next
  case (2 h' v' b' c')
  have h1: "h' = h1" using 2(1) ok by simp
  have "b' \<noteq> b" using 2(4,5) grows(2) by auto
  moreover have "b \<notin> X" "hp_data h0 b = None" using over dyn(1) by (simp_all add: sbuf_over_def)
  ultimately have "hp_data h1 b = None" using 2(2) h1 by (simp add: sbuf_over_def)
  then have "load_bytes h1 (b, 0) (unat n) = None" using grows(1) by (simp add: load_bytes_def)
  then show ?thesis
    using ok dyn(2) sbuf_atD(1,2) [OF sbuf_overD [OF over]] sbuf_atD(1,2) [OF sbuf_overD [OF 2(2)]] h1
    by (simp add: sbuf_bcat_def sbuf_data_def bcopy_def)
qed

definition client_dyn :: sbuf where
  "client_dyn = \<lparr>s_buf = Some 9, s_unused = None, s_size = 3, s_len = 2, s_flags = 0x10001\<rparr>"

definition client_dyn_heap :: "sbuf heap" where
  "client_dyn_heap = put_obj (put_data (client0\<lparr>hp_owned := {9}\<rparr>) 9 [120, 121, 0]) 2 client_dyn"

lemma client_dyn_over: "sbuf_over client0 {} client_dyn_heap 2 client_dyn 9 [120, 121, 0]"
  by (simp add: sbuf_over_def sbuf_at_def client_dyn_heap_def client_dyn_def flag_simps
      SBUF_ISSET_def hp_finite_def) (simp add: client0_def)

theorem sbuf_self_append_dangles_witness:
  "sbuf_data client_dyn_heap 2 = Some (Some 9) \<and>
   sbuf_bcat arm64_kernel client_dyn_heap 2 (9, 0) 2 = None"
proof -
  have "\<exists>h1. sbuf_ensure_capacity arm64_kernel client_dyn_heap 2 2 = Some (0, h1)"
  proof (cases rule: sbuf_kernel.sbuf_ensure_capacity_cases [OF sbuf_kernel_arm64 client_dyn_over, of 2])
    case 1
    then show ?thesis using arm64_allocates
      by (simp add: refusal_def client_dyn_def flag_simps SBUF_ISSET_def arm64_kernel_def)
  qed auto
  then show ?thesis
    using sbuf_self_append_dangles [OF sbuf_kernel_arm64 client_dyn_over, of 2]
    by (auto simp: client_dyn_def flag_simps SBUF_ISSET_def)
qed

text \<open>
  The library's \<open>malloc()\<close> macro, which strips \<open>M_ZERO\<close> from the flags and zeroes in place when
  both are constants, never zeroes through \<open>NULL\<close> and keeps the contract of \<open>_MALLOC()\<close>: fresh
  memory of the size asked for, zeroed if \<open>M_ZERO\<close> was given.
\<close>

theorem malloc_macro_contract:
  assumes "malloc_contract MALLOC"
  shows "\<exists>r. malloc_macro M_WAITOK MALLOC const h n ty fl = Some r \<and>
    (\<forall>a c. r = Some (a, c) \<longrightarrow> unused h a \<and> length c = unat n \<and>
      (fl AND M_ZERO \<noteq> 0 \<longrightarrow> c = replicate (unat n) 0))"
proof -
  obtain r where r: "malloc_macro M_WAITOK MALLOC const h n ty fl = Some r"
    using malloc_contract.malloc_macro_total [OF assms] by blast
  then show ?thesis
    using malloc_contract.malloc_macro_Some [OF assms, of const h n ty fl]
    by (auto simp: unused_def)
qed

theorem malloc_macro_contract_witness:
  "\<exists>r. malloc_macro M_WAITOK first_fit True client0 3 M_TEMP (M_ZERO OR M_WAITOK) = Some r \<and>
    (\<forall>a c. r = Some (a, c) \<longrightarrow> unused client0 a \<and> length c = 3 \<and> c = replicate 3 0)"
  using malloc_macro_contract [OF first_fit.malloc_contract_axioms, of True client0 3 M_TEMP "M_ZERO OR M_WAITOK"]
  by auto

end
