(* ===== verification/Sbuf_Test_State.thy ===== *)
theory Sbuf_Test_State imports Sbuf_Tests Sbuf_Spec begin

text \<open>
  What holds between two statements of the self-test. Between blocks (\<open>idle\<close>) all memory but the two
  locals is as at the start; in a block (\<open>busy\<close>) the buffer holds an abstract buffer of \<open>Sbuf_Ops\<close>.
  \<open>step\<close> is a triple for one statement, \<open>good\<close> for a list of them: defined, and no assertion fails.
  The triples of making and deleting a buffer.
\<close>

section \<open>Where the test runs\<close>

definition literals :: "string list" where
  "literals = [''A'', ''ABC'', ''DEF'', ''XYZ123'', [CHR ''A'', CHR 0x00, CHR ''C''], ''0123456789abcde'',
     ''0123456789abcdef'', ''0123456789abcd'', white_end, ''foo'', ''foo   '', ''hello'']"

definition tests_ready :: "test_env \<Rightarrow> sbuf heap \<Rightarrow> bool" where
  "tests_ready T h \<longleftrightarrow> hp_finite h \<and> hp_obj h (te_existing T) \<noteq> None \<and>
     hp_data h (te_existing T) = None \<and> te_buf T \<noteq> te_existing T \<and>
     list_all (\<lambda>cs. hp_data h (te_lit T cs) = Some (ascii cs @ [0]) \<and> te_lit T cs \<noteq> te_buf T) literals"

definition tests_leave :: "test_env \<Rightarrow> sbuf heap \<Rightarrow> sbuf heap \<Rightarrow> bool" where
  "tests_leave T H h \<longleftrightarrow> restored H {te_buf T} {te_existing T} h"

definition clean :: "size_t \<Rightarrow> tst \<Rightarrow> bool" where
  "clean p t \<longleftrightarrow> t_passed t = p \<and> t_log t = [] \<and> \<not> t_failed t"

definition idle :: "test_env \<Rightarrow> sbuf heap \<Rightarrow> size_t \<Rightarrow> tst \<Rightarrow> bool" where
  "idle T H p t \<longleftrightarrow> tests_ready T H \<and> tests_leave T H (t_heap t) \<and> clean p t"

text \<open>Whose array the buffer uses: its own, the local \<open>buf\<close>, or its own after \<open>buf\<close>.\<close>

datatype backing = Own | Lent | Moved

definition lent_by :: "test_env \<Rightarrow> backing \<Rightarrow> addr set" where
  "lent_by T k = (if k = Own then {} else {te_buf T})"

text \<open>
  A block at work on a buffer with the abstract contents \<open>A\<close> and at least \<open>lo\<close> bytes, exactly \<open>lo\<close> if
  \<open>ex\<close>. \<open>hs\<close>: the structure is the allocator's. \<open>sb\<close>, \<open>lb\<close>: the saved size and length.
\<close>

definition busy ::
  "test_env \<Rightarrow> sbuf heap \<Rightarrow> size_t \<Rightarrow> backing \<Rightarrow> bool \<Rightarrow> asbuf \<Rightarrow> nat \<Rightarrow> bool \<Rightarrow>
     nat option \<Rightarrow> nat option \<Rightarrow> tst \<Rightarrow> bool" where
  "busy T H p k hs A lo ex sb lb t \<longleftrightarrow> (\<exists>h0 s v b c. tests_ready T H \<and> tests_leave T H h0 \<and>
     clean p t \<and> t_s t = Some s \<and> sbuf_over h0 (lent_by T k) (t_heap t) s v b c \<and> sbuf_view v c = A \<and>
     lo \<le> unat (s_size v) \<and> (ex \<longrightarrow> unat (s_size v) = lo) \<and> (a_auto A \<or> ex) \<and>
     SBUF_ISDYNAMIC v = (k \<noteq> Lent) \<and> (if hs then hp_obj h0 s = None else s = te_existing T) \<and>
     sb \<in> {None, Some (unat (t_size_before t))} \<and> lb \<in> {None, Some (unat (t_len_before t))})"

definition step :: "stmt \<Rightarrow> (tst \<Rightarrow> bool) \<Rightarrow> (tst \<Rightarrow> bool) \<Rightarrow> bool" where
  "step c P Q \<longleftrightarrow> (\<forall>t. P t \<longrightarrow> (\<exists>t'. c t = Some t' \<and> \<not> t_failed t' \<and> Q t'))"

definition good :: "stmt list \<Rightarrow> (tst \<Rightarrow> bool) \<Rightarrow> (tst \<Rightarrow> bool) \<Rightarrow> bool" where
  "good cs P Q \<longleftrightarrow> (\<forall>t. P t \<and> \<not> t_failed t \<longrightarrow> (\<exists>t'. run_stmts cs t = Some t' \<and> \<not> t_failed t' \<and> Q t'))"

lemma good_nil [simp]: "good [] P P"
  by (simp add: good_def)

lemma good_cons: "step c P P' \<Longrightarrow> good cs P' Q \<Longrightarrow> good (c # cs) P Q"
  unfolding good_def step_def by fastforce

lemma run_append:
  "run_stmts xs t = Some t' \<Longrightarrow> \<not> t_failed t' \<Longrightarrow> run_stmts (xs @ ys) t = run_stmts ys t'"
  by (induction xs arbitrary: t) (auto split: bind_splits if_splits)

lemma good_append: "good xs P Q \<Longrightarrow> good ys Q R \<Longrightarrow> good (xs @ ys) P R"
  unfolding good_def using run_append by fastforce

section \<open>Heaps\<close>

lemma tests_leave_refl: "tests_leave T H H"
  by (simp add: tests_leave_def restored_def)

lemma tests_leave_trans:
  assumes "tests_leave T H h0" "restored h0 X {s} h" "X \<subseteq> {te_buf T}"
    "s = te_existing T \<or> hp_obj h0 s = None"
  shows "tests_leave T H h"
proof -
  note a = assms(1) [unfolded tests_leave_def restored_def]
  note b = assms(2) [unfolded restored_def]
  have "hp_obj h x = hp_obj H x" if "x \<noteq> te_existing T" for x
  proof (cases "x = s")
    case True
    then have "hp_obj h0 x = None" using assms(4) that by simp
    moreover have "hp_obj H x = hp_obj h0 x" using a that by simp
    moreover have "hp_obj h x = None \<longleftrightarrow> hp_obj h0 x = None" using b True by simp
    ultimately show ?thesis by simp
  qed (use a b that in simp)
  moreover have "hp_obj h (te_existing T) = None \<longleftrightarrow> hp_obj H (te_existing T) = None"
    using a b by (cases "te_existing T = s") auto
  moreover have "hp_data h x = hp_data H x" if "x \<noteq> te_buf T" for x
    using a b assms(3) that by auto
  ultimately show ?thesis using a b by (simp add: tests_leave_def restored_def)
qed

lemma tests_leave_ready:
  assumes "tests_ready T H" "tests_leave T H h"
  shows "hp_finite h" "hp_obj h (te_existing T) \<noteq> None" "hp_data h (te_existing T) = None"
    "cs \<in> set literals \<Longrightarrow> hp_data h (te_lit T cs) = Some (ascii cs @ [0])"
    "cs \<in> set literals \<Longrightarrow> te_lit T cs \<noteq> te_buf T"
proof -
  note r = assms [unfolded tests_ready_def tests_leave_def restored_def list_all_iff]
  have "dom (hp_data h) \<subseteq> insert (te_buf T) (dom (hp_data H))"
  proof
    fix a assume "a \<in> dom (hp_data h)"
    then show "a \<in> insert (te_buf T) (dom (hp_data H))" using r by (cases "a = te_buf T") auto
  qed
  moreover have "dom (hp_obj h) \<subseteq> insert (te_existing T) (dom (hp_obj H))"
  proof
    fix a assume "a \<in> dom (hp_obj h)"
    then show "a \<in> insert (te_existing T) (dom (hp_obj H))" using r by (cases "a = te_existing T") auto
  qed
  ultimately show "hp_finite h" using r unfolding hp_finite_def by (auto intro: finite_subset)
qed (use assms in \<open>auto simp: tests_ready_def tests_leave_def restored_def list_all_iff\<close>)

section \<open>Statements without the buffer\<close>

lemma step_testing [intro]: "step (SBUF_TESTING a) (idle T H p) (idle T H p)"
  by (simp add: step_def SBUF_TESTING_def idle_def clean_def)

lemma step_should [intro]: "step (SBUF_SHOULD a) (idle T H p) (idle T H p)"
  by (simp add: step_def SBUF_SHOULD_def idle_def clean_def)

lemma step_local_buf: "step (local_buf T) (idle T H p) (idle T H p)"
  by (auto simp: step_def local_buf_def idle_def clean_def tests_leave_def restored_def)

lemma step_check_s:
  assumes "\<And>t. P t \<Longrightarrow> Q (t_s t)" "\<And>t. P t \<Longrightarrow> clean p t"
    and "\<And>t. P t \<Longrightarrow> P' (t\<lparr>t_passed := p + 1\<rparr>)"
  shows "step (check_s a Q) P P'"
  using assms by (fastforce simp: step_def check_s_def SBUF_ASSERT_def clean_def)

section \<open>Statements on the buffer\<close>

lemma over_dynamic: "sbuf_over h0 X h s v b c \<Longrightarrow> SBUF_ISDYNAMIC v \<longleftrightarrow> b \<notin> X"
  by (simp add: sbuf_over_def split: if_splits)

lemma busyE:
  assumes "busy T H p k hs A lo ex sb lb t"
  obtains h0 s v b c where "tests_ready T H" "tests_leave T H h0" "clean p t" "t_s t = Some s"
    "sbuf_over h0 (lent_by T k) (t_heap t) s v b c" "sbuf_view v c = A" "lo \<le> unat (s_size v)"
    "ex \<Longrightarrow> unat (s_size v) = lo" "a_auto A \<or> ex" "SBUF_ISDYNAMIC v = (k \<noteq> Lent)"
    "if hs then hp_obj h0 s = None else s = te_existing T" "sb \<in> {None, Some (unat (t_size_before t))}"
    "lb \<in> {None, Some (unat (t_len_before t))}"
  using assms unfolding busy_def by blast

lemma busyI:
  assumes "tests_ready T H" "tests_leave T H h0" "clean p t" "t_s t = Some s"
    "sbuf_over h0 (lent_by T k) (t_heap t) s v b c" "sbuf_view v c = A" "lo \<le> unat (s_size v)"
    "ex \<longrightarrow> unat (s_size v) = lo" "a_auto A \<or> ex" "SBUF_ISDYNAMIC v = (k \<noteq> Lent)"
    "if hs then hp_obj h0 s = None else s = te_existing T" "sb \<in> {None, Some (unat (t_size_before t))}"
    "lb \<in> {None, Some (unat (t_len_before t))}"
  shows "busy T H p k hs A lo ex sb lb t"
  using assms unfolding busy_def by blast

lemma cleanI: "clean p t \<Longrightarrow> \<not> t_failed t" "clean p t \<Longrightarrow> clean p (t\<lparr>t_heap := h\<rparr>)"
  "clean p t \<Longrightarrow> clean (p + 1) (t\<lparr>t_passed := t_passed t + 1\<rparr>)"
  "clean p t \<Longrightarrow> clean (p + 1) (t\<lparr>t_heap := h, t_passed := t_passed t + 1\<rparr>)"
  by (simp_all add: clean_def)

lemma busy_passed:
  "busy T H p k hs A lo ex sb lb t \<Longrightarrow> busy T H (p + 1) k hs A lo ex sb lb (t\<lparr>t_passed := t_passed t + 1\<rparr>)"
  by (erule busyE, rule busyI) (simp_all add: clean_def)

lemma busy_passed': "busy T H p k hs A lo ex sb lb t \<Longrightarrow> busy T H (p + 1) k hs A lo ex sb lb (t\<lparr>t_passed := p + 1\<rparr>)"
proof -
  assume b: "busy T H p k hs A lo ex sb lb t"
  then have "t_passed t = p" by (elim busyE) (simp add: clean_def)
  then show ?thesis using busy_passed [OF b] by simp
qed

text \<open>An assertion on the structure, from what \<open>busy\<close> says of it.\<close>

lemma step_check_mem:
  assumes "\<And>t h0 s v b c. sbuf_over h0 (lent_by T k) (t_heap t) s v b c \<Longrightarrow> sbuf_view v c = A \<Longrightarrow>
      lo \<le> unat (s_size v) \<Longrightarrow> (ex \<Longrightarrow> unat (s_size v) = lo) \<Longrightarrow> SBUF_ISDYNAMIC v = (k \<noteq> Lent) \<Longrightarrow>
      (hs \<Longrightarrow> hp_obj h0 s = None) \<Longrightarrow> sb \<in> {None, Some (unat (t_size_before t))} \<Longrightarrow> lb \<in> {None, Some (unat (t_len_before t))} \<Longrightarrow> P t v"
  shows "step (check_mem a P) (busy T H p k hs A lo ex sb lb) (busy T H (p + 1) k hs A lo ex sb lb)"
  unfolding step_def
proof (intro allI impI)
  fix t assume b: "busy T H p k hs A lo ex sb lb t"
  then obtain h0 s v b c where *: "t_s t = Some s" "sbuf_over h0 (lent_by T k) (t_heap t) s v b c" "P t v"
      "clean p t"
    by (elim busyE) (use assms in \<open>auto split: if_splits\<close>)
  then show "\<exists>t'. check_mem a P t = Some t' \<and> \<not> t_failed t' \<and> busy T H (p + 1) k hs A lo ex sb lb t'"
    using busy_passed [OF b] sbuf_atD(1) [OF sbuf_overD [OF *(2)]]
    by (simp add: check_mem_def SBUF_ASSERT_def clean_def)
qed

text \<open>An assertion on what a function without effect answers.\<close>

lemma step_check_fun:
  assumes "\<And>h h0 s v b c. sbuf_over h0 (lent_by T k) h s v b c \<Longrightarrow> sbuf_view v c = A \<Longrightarrow>
      tests_ready T H \<Longrightarrow> tests_leave T H h0 \<Longrightarrow> SBUF_ISDYNAMIC v = (k \<noteq> Lent) \<Longrightarrow>
      \<exists>r. f h s = Some r \<and> P r"
  shows "step (check_fun a f P) (busy T H p k hs A lo ex sb lb) (busy T H (p + 1) k hs A lo ex sb lb)"
  unfolding step_def
proof (intro allI impI)
  fix t assume b: "busy T H p k hs A lo ex sb lb t"
  then obtain h0 s v b c where *: "t_s t = Some s" "sbuf_over h0 (lent_by T k) (t_heap t) s v b c"
      "clean p t" and "\<exists>r. f (t_heap t) s = Some r \<and> P r"
    by (elim busyE) (use assms in blast)
  then show "\<exists>t'. check_fun a f P t = Some t' \<and> \<not> t_failed t' \<and> busy T H (p + 1) k hs A lo ex sb lb t'"
    using busy_passed [OF b] by (auto simp: check_fun_def SBUF_ASSERT_def clean_def)
qed

text \<open>A call or an assignment: the new structure and contents.\<close>

lemma step_do_call:
  assumes "\<And>h h0 s v b c. sbuf_over h0 (lent_by T k) h s v b c \<Longrightarrow> sbuf_view v c = A \<Longrightarrow>
      \<exists>h' v' c'. f h s = Some h' \<and> sbuf_over h0 (lent_by T k) h' s v' b c' \<and> s_size v' = s_size v \<and>
        sbuf_view v' c' = A'"
    and "a_auto A' = a_auto A"
  shows "step (do_call f) (busy T H p k hs A lo ex sb lb) (busy T H p k hs A' lo ex sb lb)"
  unfolding step_def
proof (intro allI impI)
  fix t assume "busy T H p k hs A lo ex sb lb t"
  then show "\<exists>t'. do_call f t = Some t' \<and> \<not> t_failed t' \<and> busy T H p k hs A' lo ex sb lb t'"
  proof (cases rule: busyE)
    case (1 h0 s v b c)
    then obtain h' v' c' where r: "f (t_heap t) s = Some h'" "sbuf_over h0 (lent_by T k) h' s v' b c'"
        "s_size v' = s_size v" "sbuf_view v' c' = A'"
      using assms(1) by blast
    have "SBUF_ISDYNAMIC v' = (k \<noteq> Lent)"
      using 1(10) over_dynamic [OF 1(5)] over_dynamic [OF r(2)] by simp
    then have "busy T H p k hs A' lo ex sb lb (t\<lparr>t_heap := h'\<rparr>)"
      using 1 r assms(2)
      by (intro busyI [OF 1(1,2) _ _ _ r(4)]) (auto simp: clean_def)
    then show ?thesis using r(1) 1(3,4) by (simp add: do_call_def clean_def)
  qed
qed

section \<open>Making and deleting the buffer\<close>

lemma step_delete: "step (do_call sbuf_delete) (busy T H p k hs A lo ex sb lb) (idle T H p)"
  unfolding step_def
proof (intro allI impI)
  fix t assume "busy T H p k hs A lo ex sb lb t"
  then show "\<exists>t'. do_call sbuf_delete t = Some t' \<and> \<not> t_failed t' \<and> idle T H p t'"
  proof (cases rule: busyE)
    case (1 h0 s v b c)
    obtain h' where h': "sbuf_delete (t_heap t) s = Some h'" "restored h0 (lent_by T k) {s} h'"
      using delete_restores [OF 1(5)] by blast
    have "tests_leave T H h'"
      by (rule tests_leave_trans [OF 1(2) h'(2)]) (use 1(11) in \<open>auto simp: lent_by_def split: if_splits\<close>)
    then show ?thesis using 1(1,3,4) h'(1) by (simp add: do_call_def idle_def clean_def)
  qed
qed

text \<open>After the call that makes no buffer.\<close>

definition null_s :: "test_env \<Rightarrow> sbuf heap \<Rightarrow> size_t \<Rightarrow> tst \<Rightarrow> bool" where
  "null_s T H p t \<longleftrightarrow> idle T H p t \<and> t_s t = None"

lemma step_null: "step (check_s a (\<lambda>s. s = None)) (null_s T H p) (idle T H (p + 1))"
  by (simp add: step_def check_s_def SBUF_ASSERT_def null_s_def idle_def clean_def)

lemma step_new_rejected:
  assumes "size_of_int n > INT_MAX \<or> flags AND NOT SBUF_USRFLAGMSK \<noteq> 0"
  shows "step (do_new E sopt bopt n flags) (idle T H p) (null_s T H p)"
  using assms by (auto simp: step_def do_new_def sbuf_new_def null_s_def idle_def clean_def)

text \<open>With the local array \<open>buf\<close>.\<close>

definition idle_buf :: "test_env \<Rightarrow> sbuf heap \<Rightarrow> size_t \<Rightarrow> tst \<Rightarrow> bool" where
  "idle_buf T H p t \<longleftrightarrow> idle T H p t \<and> hp_data (t_heap t) (te_buf T) = Some [0, 0, 0, 0]"

context sbuf_kernel begin

lemma extendsize_16:
  assumes "unat t \<le> 16"
  shows "sbuf_extendsize E t = Some (0, 16)"
proof (cases "unat t < 2 ^ ke_page_shift E")
  case True
  then obtain n k where r: "sbuf_extendsize E t = Some (0, n)" "unat n = 2 ^ k" "4 \<le> k"
      "unat t \<le> 2 ^ k" "k = 4 \<or> 2 ^ k < 2 * unat t" by (rule sbuf_extendsize_small)
  have "k = 4"
  proof (rule ccontr)
    assume "k \<noteq> 4"
    then have "(2 :: nat) ^ k < 32" "5 \<le> k" using r(3,5) assms by auto
    then show False using power_increasing [of 5 k "2 :: nat"] by simp
  qed
  then have "n = 16" using r(2) by (simp add: word_unat_eq_iff)
  then show ?thesis using r(1) by simp
next
  case False
  then have t: "unat t = 16" "2 ^ ke_page_shift E = (16 :: nat)" using assms page_power by linarith+
  then have "(t + PAGE_SIZE E - 1) AND NOT (PAGE_MASK E) = 16"
    using unat_round_up [of t] by (simp add: word_unat_eq_iff)
  then show ?thesis using sbuf_extendsize_page [of t] t by simp
qed

lemma new_auto_exact:
  assumes "sbuf_new E h sopt None n SBUF_AUTOEXTEND = Some (Some s, h')" "unat n \<le> 16"
    and "hp_obj h' s = Some v"
  shows "s_size v = 16"
proof -
  have n: "sbuf_extendsize E (size_of_int n) = Some (0, 16)"
    using assms(2) unat_scast_nonneg [of n] by (intro extendsize_16) simp
  have can: "SBUF_CANEXTEND (SBUF_SETFLAG (w\<lparr>s_flags := SBUF_AUTOEXTEND\<rparr>) SBUF_DYNSTRUCT)"
    "SBUF_CANEXTEND (w\<lparr>s_flags := SBUF_AUTOEXTEND\<rparr>)" for w
    by (simp_all add: SBUF_CANEXTEND_def SBUF_ISSET_def SBUF_SETFLAG_def sbuf_flag_consts)
  show ?thesis
    using assms(1,3) n can
    by (auto simp: sbuf_new_def sbuf_new_struct_def sbuf_new_buf_def sbuf_new_fail_def
        split: if_splits bind_splits option.splits prod.splits)
qed

lemma new_lent_buf:
  assumes "sbuf_new E h sopt (Some b) n flags = Some (Some s, h')" "hp_obj h' s = Some v"
  shows "s_buf v = Some b"
  using assms
  by (auto simp: sbuf_new_def sbuf_new_buf_def split: if_splits bind_splits option.splits prod.splits)

lemma new_made:
  assumes "\<not> allocator_fails E" "new_accepts E bopt n flags"
    and r: "tests_ready T H" "tests_leave T H h0" "sopt \<in> {None, Some (te_existing T)}"
    and buf: "\<And>b. bopt = Some b \<Longrightarrow> 0 < unat n \<and> (\<exists>c. hp_data h0 b = Some c \<and> unat n \<le> length c)"
  obtains s h' v b c where "sbuf_new E h0 sopt bopt n flags = Some (Some s, h')"
    "sbuf_over h0 (set_option bopt) h' s v b c" "sbuf_view v c = sbuf_fresh flags"
    "bopt \<noteq> None \<or> \<not> a_auto (sbuf_fresh flags) \<longrightarrow> unat (s_size v) = unat n"
    "if sopt = None then hp_obj h0 s = None else s = te_existing T"
proof -
  note ready = tests_leave_ready [OF r(1,2)]
  obtain r h' where new: "sbuf_new E h0 sopt bopt n flags = Some (r, h')"
    "case r of
       None \<Rightarrow> restored h0 {} (set_option sopt) h' \<and> (new_accepts E bopt n flags \<longrightarrow> allocator_fails E)
     | Some s \<Rightarrow> new_accepts_args bopt n flags \<and> sopt \<in> {None, Some s} \<and>
         (sopt = None \<longrightarrow> hp_obj h0 s = None) \<and> (\<exists>v b c.
         sbuf_over h0 (set_option bopt) h' s v b c \<and> sbuf_view v c = sbuf_fresh flags \<and>
         unat n \<le> unat (s_size v) \<and>
         (bopt \<noteq> None \<or> \<not> a_auto (sbuf_fresh flags) \<longrightarrow> unat (s_size v) = unat n))"
    using new_refines [of h0 sopt bopt n flags] ready(1-3) r(3) buf by auto
  obtain s where "r = Some s" using new(2) assms(1,2) by (cases r) auto
  then obtain v b c where "sbuf_over h0 (set_option bopt) h' s v b c" "sbuf_view v c = sbuf_fresh flags"
    "bopt \<noteq> None \<or> \<not> a_auto (sbuf_fresh flags) \<longrightarrow> unat (s_size v) = unat n"
    and "if sopt = None then hp_obj h0 s = None else s = te_existing T"
    using new(2) r(3) by (cases sopt) auto
  then show thesis using that new(1) \<open>r = Some s\<close> by blast
qed

lemma step_new_own:
  assumes "\<not> allocator_fails E" "new_accepts E None n flags" "sopt \<in> {None, Some (te_existing T)}"
    and "unat n \<le> 16" "flags = 0 \<or> flags = SBUF_AUTOEXTEND"
  shows "step (do_new E sopt None n flags) (idle T H p)
    (busy T H p Own (sopt = None) (sbuf_fresh flags) (if flags = 0 then unat n else 16) True None None)"
  unfolding step_def
proof (intro allI impI)
  fix t assume i: "idle T H p t"
  then have r: "tests_ready T H" "tests_leave T H (t_heap t)" by (simp_all add: idle_def)
  obtain s h' v b c where new: "sbuf_new E (t_heap t) sopt None n flags = Some (Some s, h')"
    "sbuf_over (t_heap t) (set_option None) h' s v b c" "sbuf_view v c = sbuf_fresh flags"
    "None \<noteq> (None :: addr option) \<or> \<not> a_auto (sbuf_fresh flags) \<longrightarrow> unat (s_size v) = unat n"
    "if sopt = None then hp_obj (t_heap t) s = None else s = te_existing T"
    by (rule new_made [OF assms(1,2) r assms(3)]) simp
  have "unat (s_size v) = (if flags = 0 then unat n else 16)"
    using assms(5)
  proof
    assume "flags = 0"
    then show ?thesis using new(4) by (simp add: sbuf_fresh_def)
  next
    assume "flags = SBUF_AUTOEXTEND"
    then show ?thesis
      using new_auto_exact [OF new(1) [unfolded \<open>flags = _\<close>] assms(4) sbuf_atD(1) [OF sbuf_overD [OF new(2)]]]
      by (simp add: sbuf_flag_consts)
  qed
  moreover have "SBUF_ISDYNAMIC v" using over_dynamic [OF new(2)] by simp
  ultimately have "busy T H p Own (sopt = None) (sbuf_fresh flags) (if flags = 0 then unat n else 16)
      True None None (t\<lparr>t_heap := h', t_s := Some s\<rparr>)"
    using new(2,5) i by (intro busyI [OF r _ _ _ new(3)]) (auto simp: idle_def clean_def lent_by_def)
  then show "\<exists>t'. do_new E sopt None n flags t = Some t' \<and> \<not> t_failed t' \<and>
      busy T H p Own (sopt = None) (sbuf_fresh flags) (if flags = 0 then unat n else 16) True None None t'"
    using new(1) i by (simp add: do_new_def idle_def clean_def)
qed

lemma step_new_lent:
  assumes "\<not> allocator_fails E" "sopt \<in> {None, Some (te_existing T)}"
    and "flags = 0 \<or> flags = SBUF_AUTOEXTEND"
  shows "step (do_new E sopt (Some (te_buf T)) 4 flags) (idle_buf T H p)
    (busy T H p Lent (sopt = None) (sbuf_fresh flags) 4 True None None)"
  unfolding step_def
proof (intro allI impI)
  fix t assume "idle_buf T H p t"
  then have r: "tests_ready T H" "tests_leave T H (t_heap t)" and c: "clean p t"
    and buf: "hp_data (t_heap t) (te_buf T) = Some [0, 0, 0, 0]" by (simp_all add: idle_buf_def idle_def)
  have acc: "new_accepts E (Some (te_buf T)) 4 flags"
    using assms(3) by (auto simp: new_accepts_def new_accepts_args_def sbuf_flag_consts)
  obtain s h' v b c where new: "sbuf_new E (t_heap t) sopt (Some (te_buf T)) 4 flags = Some (Some s, h')"
    "sbuf_over (t_heap t) (set_option (Some (te_buf T))) h' s v b c" "sbuf_view v c = sbuf_fresh flags"
    "Some (te_buf T) \<noteq> None \<or> \<not> a_auto (sbuf_fresh flags) \<longrightarrow> unat (s_size v) = unat (4 :: cint)"
    "if sopt = None then hp_obj (t_heap t) s = None else s = te_existing T"
    by (rule new_made [OF assms(1) acc r assms(2)]) (use buf in force)
  have sz: "unat (s_size v) = 4" using new(4) by simp
  have "s_buf v = Some (te_buf T)"
    by (rule new_lent_buf [OF new(1) sbuf_atD(1) [OF sbuf_overD [OF new(2)]]])
  then have "b = te_buf T" using sbuf_atD(2) [OF sbuf_overD [OF new(2)]] by simp
  then have "\<not> SBUF_ISDYNAMIC v" using over_dynamic [OF new(2)] by simp
  then have "busy T H p Lent (sopt = None) (sbuf_fresh flags) 4 True None None
      (t\<lparr>t_heap := h', t_s := Some s\<rparr>)"
    using new(2,5) c sz by (intro busyI [OF r _ _ _ new(3)]) (simp_all add: clean_def lent_by_def)
  then show "\<exists>t'. do_new E sopt (Some (te_buf T)) 4 flags t = Some t' \<and> \<not> t_failed t' \<and>
      busy T H p Lent (sopt = None) (sbuf_fresh flags) 4 True None None t'"
    using new(1) c by (simp add: do_new_def clean_def)
qed

text \<open>A zero-length buffer is refused after the structure was made, and the structure is freed.\<close>

lemma step_new_empty: "step (do_new E None None 0 0) (idle T H p) (null_s T H p)"
  unfolding step_def
proof (intro allI impI)
  fix t assume "idle T H p t"
  then have r: "tests_ready T H" "tests_leave T H (t_heap t)" and c: "clean p t" by (simp_all add: idle_def)
  have "\<not> new_accepts_args None 0 0" by (simp add: new_accepts_args_def)
  then obtain h' where h': "sbuf_new E (t_heap t) None None 0 0 = Some (None, h')" "restored (t_heap t) {} {} h'"
    using new_refines [of "t_heap t" None None 0 0] tests_leave_ready(1) [OF r]
    by (fastforce split: option.splits)
  then have "tests_leave T H h'" using r(2) unfolding tests_leave_def restored_def by auto
  then show "\<exists>t'. do_new E None None 0 0 t = Some t' \<and> \<not> t_failed t' \<and> null_s T H p t'"
    using h'(1) c r(1) by (simp add: do_new_def null_s_def idle_def clean_def)
qed

end

lemma step_buf: "step (local_buf T) (idle T H p) (idle_buf T H p)"
  by (auto simp: step_def local_buf_def idle_buf_def idle_def clean_def tests_leave_def restored_def)

lemma tests_leave_existing:
  "tests_ready T H \<Longrightarrow> tests_leave T H h \<Longrightarrow> tests_leave T H (put_obj h (te_existing T) v)"
  by (auto simp: tests_leave_def restored_def tests_ready_def)

lemma step_existing:
  "step (local_existing T v) (idle T H p) (idle T H p)"
  "step (local_existing T v) (idle_buf T H p) (idle_buf T H p)"
  using tests_leave_existing [of T H]
  by (auto simp: step_def local_existing_def idle_buf_def idle_def clean_def)

end
