(* ===== verification/Sbuf_Test_Writes.thy ===== *)
theory Sbuf_Test_Writes imports Sbuf_Test_State begin

text \<open>
  Triples of the self-test's calls of the writers, each from the lemma of its operation in \<open>Sbuf_Ops\<close>
  or \<open>Sbuf_Life\<close>, and of its assertions on the structure.
\<close>

section \<open>Calls of the library\<close>

definition append_post :: "nat \<Rightarrow> byte list \<Rightarrow> asbuf \<Rightarrow> cint \<times> asbuf" where
  "append_post lo bs A = spec_append (a_auto A \<or> length (a_text A) + length bs < lo) bs A"

text \<open>The least size after an operation that leaves \<open>A\<close>.\<close>

definition grown_to :: "nat \<Rightarrow> asbuf \<Rightarrow> nat" where
  "grown_to lo A = (if a_auto A then length (a_text A) + 1 else lo)"

definition takes :: "nat \<Rightarrow> asbuf \<Rightarrow> nat \<Rightarrow> bool" where
  "takes lo A n \<longleftrightarrow> a_auto A \<or> length (a_text A) + n < lo"

context sbuf_kernel begin

text \<open>An operation whose effect is exact, because the buffer is of fixed size or may grow.\<close>

lemma step_op:
  assumes nofail: "\<not> allocator_fails E"
    and f: "\<And>h s. f h s = exec_op E h s op"
    and ready: "\<And>h0. tests_ready T H \<Longrightarrow> tests_leave T H h0 \<Longrightarrow> op_ready h0 {} op"
    and small: "\<And>h0. tests_ready T H \<Longrightarrow> tests_leave T H h0 \<Longrightarrow>
      length (a_text A) + op_bytes h0 op < 2 ^ 20"
    and spec: "\<And>h0. tests_ready T H \<Longrightarrow> tests_leave T H h0 \<Longrightarrow>
      spec_op h0 op (if a_auto A then (\<lambda>_ _. True) else fits lo) A = (e, A')"
  shows "step (check_call a e f) (busy T H p Own hs A lo ex sb lb)
    (busy T H (p + 1) Own hs A' (grown_to lo A') (\<not> a_auto A \<and> ex) sb lb)"
  unfolding step_def
proof (intro allI impI)
  fix t assume "busy T H p Own hs A lo ex sb lb t"
  then show "\<exists>t'. check_call a e f t = Some t' \<and> \<not> t_failed t' \<and>
      busy T H (p + 1) Own hs A' (grown_to lo A') (\<not> a_auto A \<and> ex) sb lb t'"
  proof (cases rule: busyE)
    case (1 h0 s v b c)
    note ready = ready [OF 1(1,2)]
    have over: "sbuf_over h0 {} (t_heap t) s v b c" using 1(5) by (simp add: lent_by_def)
    obtain d r h' v' b' c' where st: "exec_op E (t_heap t) s op = Some (r, h')"
        "sbuf_over h0 {} h' s v' b' c'"
        "(r, sbuf_view v' c') = spec_op h0 op d (sbuf_view v c)" "dec_ok E (unat (s_size v)) d"
        "\<not> a_auto (sbuf_view v c) \<longrightarrow> s_size v' = s_size v"
        "a_auto (sbuf_view v' c') = a_auto (sbuf_view v c)"
      by (rule exec_op_step [OF over ready]) blast
    have "(r, sbuf_view v' c') = (e, A')"
    proof (cases "a_auto A")
      case True
      have "length (a_text (sbuf_view v c)) + op_bytes h0 op + 1 + 2 ^ ke_page_shift E \<le> 2 ^ 31"
        using small [OF 1(1,2)] page_power 1(6) by simp
      then have "spec_op h0 op d (sbuf_view v c) = spec_op h0 op (\<lambda>_ _. True) (sbuf_view v c)"
        using True 1(6) by (intro spec_op_growing [OF st(4) _ nofail ready]) simp_all
      then show ?thesis using st(3) spec [OF 1(1,2)] True 1(6) by simp
    next
      case False
      then have "unat (s_size v) = lo" using 1(8,9) by simp
      then show ?thesis
        using st(3,4) spec_op_fixed [OF st(4)] spec [OF 1(1,2)] False 1(6) by simp
    qed
    then have r: "r = e" "sbuf_view v' c' = A'" by simp_all
    note at = sbuf_overD [OF st(2)]
    have len: "length (a_text A') < unat (s_size v')"
      using sbuf_text_length [OF at] sbuf_atD(7) [OF at] r(2) by auto
    have auto: "a_auto A' = a_auto A" using st(6) r(2) 1(6) by simp
    have size: "\<not> a_auto A \<Longrightarrow> unat (s_size v') = lo" using st(5) 1(6,8,9) by simp
    have dyn: "SBUF_ISDYNAMIC v'" using over_dynamic [OF st(2)] by simp
    have "busy T H (p + 1) Own hs A' (grown_to lo A') (\<not> a_auto A \<and> ex) sb lb
        (t\<lparr>t_heap := h', t_passed := t_passed t + 1\<rparr>)"
      using 1 st(2) len size dyn auto
      by (intro busyI [OF 1(1,2) _ _ _ r(2)]) (auto simp: clean_def lent_by_def grown_to_def)
    then show ?thesis using st(1) 1(3,4) r(1) by (simp add: check_call_def f SBUF_ASSERT_def clean_def)
  qed
qed

end

section \<open>Literals\<close>

lemma of_char_zero: "(of_char c :: byte) = 0 \<longleftrightarrow> c = CHR 0x00"
  by (cases c) (auto simp: of_char_Char horner_sum_simps split: if_splits)

lemma ascii_simps [simp]: "length (ascii cs) = length cs" "ascii [] = []"
  "ascii (c # cs) = of_char c # ascii cs"
  by (simp_all add: ascii_def)

lemma literal_length: "cs \<in> set literals \<Longrightarrow> length cs \<le> 16"
  by (auto simp: literals_def white_end_def)

lemma ascii_until: "takeWhile (\<lambda>x. x \<noteq> 0) (ascii cs @ [0]) = ascii (takeWhile (\<lambda>c. c \<noteq> CHR 0x00) cs)"
  by (induction cs) (simp_all add: of_char_zero)

lemma literal_at:
  assumes "tests_ready T H" "tests_leave T H h" "cs \<in> set literals"
  shows "load_bytes h (lit T cs) (length cs) = Some (ascii cs)"
    and "bytes_at h (lit T cs) (length cs) = ascii cs"
    and "string_at h (lit T cs) = ascii (takeWhile (\<lambda>c. c \<noteq> CHR 0x00) cs)"
    and "strlen h (lit T cs) = Some (of_nat (length (takeWhile (\<lambda>c. c \<noteq> CHR 0x00) cs)))"
    and "cstring_at h (lit T cs) (ascii (takeWhile (\<lambda>c. c \<noteq> CHR 0x00) cs))"
proof -
  note c = tests_leave_ready(4) [OF assms]
  show "load_bytes h (lit T cs) (length cs) = Some (ascii cs)"
    using c by (simp add: load_bytes_def lit_def)
  then show "bytes_at h (lit T cs) (length cs) = ascii cs" by (simp add: bytes_at_def)
  show "string_at h (lit T cs) = ascii (takeWhile (\<lambda>c. c \<noteq> CHR 0x00) cs)"
    using c by (simp add: string_at_def lit_def ascii_until)
  show "strlen h (lit T cs) = Some (of_nat (length (takeWhile (\<lambda>c. c \<noteq> CHR 0x00) cs)))"
    using c by (simp add: strlen_def lit_def ascii_until)
  let ?k = "takeWhile (\<lambda>c. c \<noteq> CHR 0x00) cs"
  have len: "length ?k \<le> 16" using literal_length [OF assms(3)] length_takeWhile_le le_trans by blast
  have "take (Suc (length (ascii ?k))) (ascii cs @ [0]) = ascii ?k @ [0]"
    by (induction cs) (simp_all add: of_char_zero)
  moreover have "0 \<notin> set (ascii ?k)"
    using set_takeWhileD [of _ "\<lambda>c. c \<noteq> CHR 0x00" cs] by (auto simp: ascii_def of_char_zero)
  moreover have "length ?k \<le> length cs" by (rule length_takeWhile_le)
  ultimately show "cstring_at h (lit T cs) (ascii ?k)"
    using c len by (simp add: cstring_at_def load_bytes_def lit_def)
qed

section \<open>The writers\<close>

text \<open>What a writer of the literal \<open>cs\<close> makes of \<open>A\<close> in a buffer of \<open>lo\<close> bytes.\<close>

definition write_post :: "nat \<Rightarrow> byte list \<Rightarrow> asbuf \<Rightarrow> cint \<Rightarrow> asbuf \<Rightarrow> bool" where
  "write_post lo bs A e A' \<longleftrightarrow> append_post lo bs A = (e, A') \<and> length (a_text A) < 2 ^ 16 \<and> length bs < 2 ^ 16"

lemma literal_small: "cs \<in> set literals \<Longrightarrow> unat (of_nat (length cs) :: size_t) = length cs"
  using literal_length [of cs] by (simp add: unat_of_nat take_bit_nat_eq_self)

lemma until_length: "cs \<in> set literals \<Longrightarrow> length (takeWhile P cs) \<le> 16"
  using literal_length length_takeWhile_le le_trans by blast

lemma clear_text [simp]: "a_text (spec_clear A) = []" "a_over (spec_clear A) = False"
  "a_done (spec_clear A) = False"
  by (simp_all add: spec_clear_def)

context sbuf_kernel begin

lemma step_bcat:
  assumes "\<not> allocator_fails E" "cs \<in> set literals" "write_post lo (ascii cs) A e A'"
  shows "step (check_write (w_bcat E T) cs e) (busy T H p Own hs A lo ex sb lb)
    (busy T H (p + 1) Own hs A' (grown_to lo A') (\<not> a_auto A \<and> ex) sb lb)"
  unfolding check_write_def
  by (rule step_op [OF assms(1), where op = "Op_bcat (lit T cs) (of_nat (length cs))"])
    (use assms(2,3) literal_length [OF assms(2)] in \<open>auto simp: w_bcat_def literal_small literal_at
      write_post_def append_post_def fits_def\<close>)

lemma step_bcpy:
  assumes "\<not> allocator_fails E" "cs \<in> set literals" "write_post lo (ascii cs) (spec_clear A) e A'"
    and "length (a_text A) < 2 ^ 16"
  shows "step (check_write (w_bcpy E T) cs e) (busy T H p Own hs A lo ex sb lb)
    (busy T H (p + 1) Own hs A' (grown_to lo A') (\<not> a_auto A \<and> ex) sb lb)"
  unfolding check_write_def
  by (rule step_op [OF assms(1), where op = "Op_bcpy (lit T cs) (of_nat (length cs))"])
    (use assms(2-4) literal_length [OF assms(2)] in \<open>auto simp: w_bcpy_def literal_small literal_at
      write_post_def append_post_def fits_def\<close>)

lemma step_cat:
  assumes "\<not> allocator_fails E" "cs \<in> set literals"
    "write_post lo (ascii (takeWhile (\<lambda>c. c \<noteq> CHR 0x00) cs)) A e A'"
  shows "step (check_write (w_cat E T) cs e) (busy T H p Own hs A lo ex sb lb)
    (busy T H (p + 1) Own hs A' (grown_to lo A') (\<not> a_auto A \<and> ex) sb lb)"
  unfolding check_write_def
  by (rule step_op [OF assms(1), where op = "Op_cat (lit T cs)"])
    (use assms(2,3) in \<open>auto simp: w_cat_def literal_at write_post_def append_post_def fits_def\<close>)

lemma step_cpy:
  assumes "\<not> allocator_fails E" "cs \<in> set literals"
    "write_post lo (ascii (takeWhile (\<lambda>c. c \<noteq> CHR 0x00) cs)) (spec_clear A) e A'"
    and "length (a_text A) < 2 ^ 16"
  shows "step (check_write (w_cpy E T) cs e) (busy T H p Own hs A lo ex sb lb)
    (busy T H (p + 1) Own hs A' (grown_to lo A') (\<not> a_auto A \<and> ex) sb lb)"
  unfolding check_write_def
  by (rule step_op [OF assms(1), where op = "Op_cpy (lit T cs)"])
    (use assms(2-4) in \<open>auto simp: w_cpy_def literal_at write_post_def append_post_def fits_def\<close>)

lemma step_printf:
  assumes "\<not> allocator_fails E" "write_post lo (ascii cs) A e A'"
  shows "step (check_write (w_printf E) cs e) (busy T H p Own hs A lo ex sb lb)
    (busy T H (p + 1) Own hs A' (grown_to lo A') (\<not> a_auto A \<and> ex) sb lb)"
  unfolding check_write_def
  by (rule step_op [OF assms(1), where op = "Op_printf (Some (ascii cs))"])
    (use assms(2) in \<open>auto simp: w_printf_def write_post_def append_post_def fits_def\<close>)

lemma step_putc:
  assumes "\<not> allocator_fails E" "length (a_text A) < 2 ^ 16"
    and "spec_append (a_auto A \<or> length (a_text A) + 1 < lo) (if c = CHR 0x00 then [] else [of_char c]) A
      = (e, A')"
  shows "step (check_putc E c e) (busy T H p Own hs A lo ex sb lb)
    (busy T H (p + 1) Own hs A' (grown_to lo A') (\<not> a_auto A \<and> ex) sb lb)"
proof -
  have "(ucast (of_char c :: cint) :: byte) = of_char c"
    by (cases c) (simp add: of_char_Char horner_sum_simps)
  then show ?thesis unfolding check_putc_def
    by (intro step_op [OF assms(1), where op = "Op_putc (of_char c)"])
      (use assms(2,3) in \<open>auto simp: fits_def of_char_zero\<close>)
qed

lemma step_trim:
  assumes "\<not> allocator_fails E" "length (a_text A) < 2 ^ 16" "spec_trim A = (e, A')"
  shows "step (check_trim e) (busy T H p Own hs A lo ex sb lb)
    (busy T H (p + 1) Own hs A' (grown_to lo A') (\<not> a_auto A \<and> ex) sb lb)"
  unfolding check_trim_def
  by (rule step_op [OF assms(1), where op = Op_trim]) (use assms(2,3) in auto)

end

section \<open>Assertions and assignments\<close>

lemma over_len:
  assumes "sbuf_over h0 X h s v b c"
  shows "unat (s_len v) = length (a_text (sbuf_view v c))"
  using sbuf_text_length [OF sbuf_overD [OF assms]] by simp

lemma step_len:
  assumes "length (a_text A) = n" "n < 2 ^ 16"
  shows "step (check_len n) (busy T H p k hs A lo ex sb lb) (busy T H (p + 1) k hs A lo ex sb lb)"
  unfolding check_len_def
  by (rule step_check_mem)
    (use assms in \<open>auto simp: word_unat_eq_iff unat_of_nat take_bit_nat_eq_self dest!: over_len\<close>)

lemma step_flags:
  "a_over A \<Longrightarrow> step (check_mem a (\<lambda>t v. SBUF_ISSET v SBUF_OVERFLOWED)) (busy T H p k hs A lo ex sb lb)
      (busy T H (p + 1) k hs A lo ex sb lb)"
  "\<not> a_over A \<Longrightarrow> step (check_mem a (\<lambda>t v. \<not> SBUF_ISSET v SBUF_OVERFLOWED)) (busy T H p k hs A lo ex sb lb)
      (busy T H (p + 1) k hs A lo ex sb lb)"
  "a_done A \<Longrightarrow> step (check_mem a (\<lambda>t v. SBUF_ISSET v SBUF_FINISHED)) (busy T H p k hs A lo ex sb lb)
      (busy T H (p + 1) k hs A lo ex sb lb)"
  "\<not> a_done A \<Longrightarrow> step (check_mem a (\<lambda>t v. \<not> SBUF_ISSET v SBUF_FINISHED)) (busy T H p k hs A lo ex sb lb)
      (busy T H (p + 1) k hs A lo ex sb lb)"
  "a_auto A \<Longrightarrow> step (check_mem a (\<lambda>t v. SBUF_ISSET v SBUF_AUTOEXTEND)) (busy T H p k hs A lo ex sb lb)
      (busy T H (p + 1) k hs A lo ex sb lb)"
  by (rule step_check_mem; auto simp: sbuf_view_def sbuf_flag_tests)+

lemma step_overflowed:
  "a_over A \<Longrightarrow> step check_overflowed (busy T H p k hs A lo ex sb lb) (busy T H (p + 1) k hs A lo ex sb lb)"
  unfolding check_overflowed_def by (rule step_flags(1))

lemma step_dynamic:
  "k \<noteq> Lent \<Longrightarrow> step (check_mem a (\<lambda>t v. SBUF_ISSET v SBUF_DYNAMIC)) (busy T H p k hs A lo ex sb lb)
      (busy T H (p + 1) k hs A lo ex sb lb)"
  "step (check_mem a (\<lambda>t v. \<not> SBUF_ISSET v SBUF_DYNAMIC)) (busy T H p Lent hs A lo ex sb lb)
      (busy T H (p + 1) Lent hs A lo ex sb lb)"
  by (auto intro!: step_check_mem simp: SBUF_ISDYNAMIC_def)

lemma step_dynstruct:
  "step (check_mem a (\<lambda>t v. SBUF_ISSET v SBUF_DYNSTRUCT)) (busy T H p k True A lo ex sb lb)
      (busy T H (p + 1) k True A lo ex sb lb)"
  by (auto intro!: step_check_mem simp: SBUF_ISDYNSTRUCT_def sbuf_over_def split: if_splits)

lemma step_buffer:
  "step (check_mem a (\<lambda>t v. s_buf v \<noteq> None)) (busy T H p k hs A lo ex sb lb)
      (busy T H (p + 1) k hs A lo ex sb lb)"
  "step (check_mem a (\<lambda>t v. s_buf v = Some (te_buf T))) (busy T H p Lent hs A lo ex sb lb)
      (busy T H (p + 1) Lent hs A lo ex sb lb)"
proof -
  show "step (check_mem a (\<lambda>t v. s_buf v \<noteq> None)) (busy T H p k hs A lo ex sb lb)
      (busy T H (p + 1) k hs A lo ex sb lb)"
    by (rule step_check_mem) (auto dest!: sbuf_overD sbuf_atD(2))
  show "step (check_mem a (\<lambda>t v. s_buf v = Some (te_buf T))) (busy T H p Lent hs A lo ex sb lb)
      (busy T H (p + 1) Lent hs A lo ex sb lb)"
  proof (rule step_check_mem)
    fix t :: tst and h0 s v b c
    assume o: "sbuf_over h0 (lent_by T Lent) (t_heap t) s v b c" "SBUF_ISDYNAMIC v = (Lent \<noteq> Lent)"
    then show "s_buf v = Some (te_buf T)"
      using over_dynamic [OF o(1)] sbuf_atD(2) [OF sbuf_overD [OF o(1)]] by (simp add: lent_by_def)
  qed
qed

lemma step_empty:
  assumes "a_text A = []"
  shows "step (check_mem a (\<lambda>t v. s_len v = 0)) (busy T H p k hs A lo ex sb lb)
      (busy T H (p + 1) k hs A lo ex sb lb)"
  by (rule step_check_mem) (use assms in \<open>auto simp: unat_eq_0 dest!: over_len\<close>)

lemma step_size:
  "0 < lo \<Longrightarrow> step (check_mem a (\<lambda>t v. s_size v \<noteq> 0)) (busy T H p k hs A lo ex sb lb)
      (busy T H (p + 1) k hs A lo ex sb lb)"
  "step (check_mem a (\<lambda>t v. s_size v = 4)) (busy T H p k hs A 4 True sb lb)
      (busy T H (p + 1) k hs A 4 True sb lb)"
  by (rule step_check_mem; auto simp: word_unat_eq_iff)+

lemma over_size: "sbuf_over h0 X h s v b c \<Longrightarrow> unat (s_size v) < 2 ^ 31"
  by (rule sbuf_atD(6) [OF sbuf_overD])

lemma step_rounded:
  assumes "1 < lo"
  shows "step (check_mem a (\<lambda>t v. 1 <s s_size v)) (busy T H p k hs A lo ex sb lb)
      (busy T H (p + 1) k hs A lo ex sb lb)"
  by (rule step_check_mem) (use assms sless_small [of 1] in \<open>auto dest!: over_size\<close>)

lemma step_grew:
  assumes "n < lo"
  shows "step check_grew (busy T H p k hs A lo ex (Some n) lb) (busy T H (p + 1) k hs A lo ex (Some n) lb)"
  unfolding check_grew_def
proof (rule step_check_mem)
  fix t :: tst and h0 s v b c
  assume "sbuf_over h0 (lent_by T k) (t_heap t) s v b c" "lo \<le> unat (s_size v)"
    "Some n \<in> {None, Some (unat (t_size_before t))}"
  then show "t_size_before t <s s_size v"
    using over_size assms by (subst sless_small) force+
qed

lemma step_same_size:
  "step (check_mem a (\<lambda>t v. s_size v = t_size_before t)) (busy T H p k hs A lo True (Some lo) lb)
      (busy T H (p + 1) k hs A lo True (Some lo) lb)"
  by (rule step_check_mem) (auto simp: word_unat_eq_iff)

lemma step_diff:
  assumes "n + 10 \<le> lo"
  shows "step (check_mem a (\<lambda>t v. 10 \<le>s s_size v - t_size_before t)) (busy T H p k hs A lo ex (Some n) lb)
      (busy T H (p + 1) k hs A lo ex (Some n) lb)"
proof (rule step_check_mem)
  fix t :: tst and h0 s v b c
  assume o: "sbuf_over h0 (lent_by T k) (t_heap t) s v b c" "lo \<le> unat (s_size v)"
    "Some n \<in> {None, Some (unat (t_size_before t))}"
  then have le: "unat (t_size_before t) + 10 \<le> unat (s_size v)" using assms by simp
  then have "unat (s_size v - t_size_before t) = unat (s_size v) - unat (t_size_before t)"
    by (simp add: unat_sub word_le_nat_alt)
  moreover from this have "sint (s_size v - t_size_before t) = int (unat (s_size v - t_size_before t))"
    using over_size [OF o(1)] by (intro sint_nonneg) simp
  ultimately have "10 \<le> sint (s_size v - t_size_before t)" using le by linarith
  then show "10 \<le>s s_size v - t_size_before t" by (simp only: word_sle_eq) simp
qed

lemma step_capacity:
  "step (check_mem a (\<lambda>t v. sbuf_capacity v = size_of_int (s_size v - s_len v - 1)))
      (busy T H p k hs A lo ex sb lb) (busy T H (p + 1) k hs A lo ex sb lb)"
  by (rule step_check_mem) (simp add: sbuf_capacity_def)

lemma step_len_before:
  assumes "length (a_text A) = n + 1" "n < 2 ^ 16"
  shows "step (check_mem a (\<lambda>t v. s_len v = t_len_before t + 1)) (busy T H p k hs A lo ex sb (Some n))
      (busy T H (p + 1) k hs A lo ex sb (Some n))"
  by (rule step_check_mem)
    (use assms in \<open>auto simp: word_unat_eq_iff unat_word_ariths dest!: over_len\<close>)

lemma step_save_size: "step save_size (busy T H p k hs A lo True sb lb) (busy T H p k hs A lo True (Some lo) lb)"
  unfolding step_def
proof (intro allI impI)
  fix t assume "busy T H p k hs A lo True sb lb t"
  then show "\<exists>t'. save_size t = Some t' \<and> \<not> t_failed t' \<and> busy T H p k hs A lo True (Some lo) lb t'"
  proof (cases rule: busyE)
    case (1 h0 s v b c)
    then have "busy T H p k hs A lo True (Some lo) lb (t\<lparr>t_size_before := s_size v\<rparr>)"
      by (intro busyI [OF 1(1,2) _ _ _ 1(6)]) (auto simp: clean_def)
    then show ?thesis using 1(3,4) sbuf_atD(1) [OF sbuf_overD [OF 1(5)]]
      by (simp add: save_size_def clean_def)
  qed
qed

lemma step_save_len:
  "step save_len (busy T H p k hs A lo ex sb lb) (busy T H p k hs A lo ex sb (Some (length (a_text A))))"
  unfolding step_def
proof (intro allI impI)
  fix t assume "busy T H p k hs A lo ex sb lb t"
  then show "\<exists>t'. save_len t = Some t' \<and> \<not> t_failed t' \<and>
      busy T H p k hs A lo ex sb (Some (length (a_text A))) t'"
  proof (cases rule: busyE)
    case (1 h0 s v b c)
    then have "busy T H p k hs A lo ex sb (Some (length (a_text A))) (t\<lparr>t_len_before := s_len v\<rparr>)"
      using over_len [OF 1(5)] by (intro busyI [OF 1(1,2) _ _ _ 1(6)]) (auto simp: clean_def)
    then show ?thesis using 1(3,4) sbuf_atD(1) [OF sbuf_overD [OF 1(5)]]
      by (simp add: save_len_def clean_def)
  qed
qed

lemma step_pointer:
  "step (check_s a (\<lambda>s. s \<noteq> None)) (busy T H p k hs A lo ex sb lb) (busy T H (p + 1) k hs A lo ex sb lb)"
  "step (check_s a (\<lambda>s. s = Some (te_existing T))) (busy T H p k False A lo ex sb lb)
      (busy T H (p + 1) k False A lo ex sb lb)"
proof -
  have "busy T H p k hs A lo ex sb lb t \<Longrightarrow> clean p t \<and> t_s t \<noteq> None" for t
    by (elim busyE) simp
  then show "step (check_s a (\<lambda>s. s \<noteq> None)) (busy T H p k hs A lo ex sb lb) (busy T H (p + 1) k hs A lo ex sb lb)"
    using busy_passed' by (auto simp: step_def check_s_def SBUF_ASSERT_def clean_def)
  have "busy T H p k False A lo ex sb lb t \<Longrightarrow> clean p t \<and> t_s t = Some (te_existing T)" for t
    by (elim busyE) simp
  then show "step (check_s a (\<lambda>s. s = Some (te_existing T))) (busy T H p k False A lo ex sb lb)
      (busy T H (p + 1) k False A lo ex sb lb)"
    using busy_passed' by (auto simp: step_def check_s_def SBUF_ASSERT_def clean_def)
qed

end
