(* ===== verification/Sbuf_Test_Steps.thy ===== *)
theory Sbuf_Test_Steps imports Sbuf_Test_Writes begin

text \<open>
  Triples of the self-test's remaining statements: the bytes and lengths it reads back, assignments to
  members of the structure, clearing and finishing, growth, lengths of \<open>INT_MAX\<close>, and the loop that
  appends a literal byte by byte.
\<close>

section \<open>Characters and lengths\<close>

lemma char_at_text:
  assumes "sbuf_over h0 X h s v b c" "i < length (a_text (sbuf_view v c))"
  shows "char_at h s (\<lambda>_. i) = Some (a_text (sbuf_view v c) ! i)"
proof -
  note at = sbuf_overD [OF assms(1)]
  have i: "i < unat (s_len v)" using assms(2) over_len [OF assms(1)] by simp
  then have "i < length c" using sbuf_atD(5,7) [OF at] by simp
  then have "load_bytes h (b, i) 1 = Some [c ! i]"
    using sbuf_atD(3) [OF at] by (simp add: load_bytes_def take_Suc_conv_app_nth take_Suc hd_drop_conv_nth)
  then show ?thesis using sbuf_atD(1,2) [OF at] i by (simp add: char_at_def sbuf_text_def)
qed

lemma step_char:
  assumes "i < length (a_text A)" "a_text A ! i = of_char ch"
  shows "step (check_fun a (\<lambda>h s. char_at h s (\<lambda>_. i)) (\<lambda>x. x = of_char ch))
    (busy T H p k hs A lo ex sb lb) (busy T H (p + 1) k hs A lo ex sb lb)"
  by (rule step_check_fun) (use assms char_at_text in \<open>auto simp del: view_flags\<close>)

lemma good_chars:
  assumes "take (length cs) (drop i (a_text A)) = ascii cs"
  shows "good (check_chars i cs) (busy T H p k hs A lo ex sb lb)
    (busy T H (p + of_nat (length cs)) k hs A lo ex sb lb)"
  using assms
proof (induction cs arbitrary: i p)
  case (Cons ch cs)
  then have i: "i < length (a_text A)"
    by (metis ascii_simps(3) drop_all list.distinct(1) not_less take_Nil)
  then have d: "drop i (a_text A) = a_text A ! i # drop (Suc i) (a_text A)" by (simp add: Cons_nth_drop_Suc)
  have "good (check_chars (Suc i) cs) (busy T H (p + 1) k hs A lo ex sb lb)
      (busy T H (p + 1 + of_nat (length cs)) k hs A lo ex sb lb)"
    using Cons d by simp
  then show ?case
    using good_cons [OF step_char [OF i]] Cons.prems d by (simp add: add.assoc)
qed simp

lemma step_last_char:
  assumes "a_text A \<noteq> []" "last (a_text A) = of_char ch"
  shows "step (check_fun a (\<lambda>h s. char_at h s (\<lambda>v. unat (size_of_int (s_len v - 1)))) (\<lambda>x. x = of_char ch))
    (busy T H p k hs A lo ex sb lb) (busy T H (p + 1) k hs A lo ex sb lb)"
proof (rule step_check_fun)
  fix h h0 s v b c
  assume o: "sbuf_over h0 (lent_by T k) h s v b c" "sbuf_view v c = A"
  let ?i = "length (a_text A) - 1"
  note at = sbuf_overD [OF o(1)]
  have n: "0 < unat (s_len v)" using assms(1) over_len [OF o(1)] o(2) by simp
  then have "unat (s_len v - 1) = ?i" using unat_minus_one [of "s_len v"] over_len [OF o(1)] o(2) by force
  moreover have "?i < 2 ^ 31" using over_len [OF o(1)] o(2) sbuf_atD(6,7) [OF at] by simp
  ultimately have u: "unat (size_of_int (s_len v - 1)) = ?i" by (simp add: unat_scast_nonneg)
  have "char_at h s (\<lambda>v. unat (size_of_int (s_len v - 1))) = char_at h s (\<lambda>_. ?i)"
    using sbuf_atD(1) [OF at] u by (simp add: char_at_def)
  then show "\<exists>r. char_at h s (\<lambda>v. unat (size_of_int (s_len v - 1))) = Some r \<and> r = of_char ch"
    using char_at_text [OF o(1), of ?i] assms o(2) by (simp add: last_conv_nth del: view_flags)
qed

lemma own_data: "sbuf_over h0 {} h s v b c \<Longrightarrow> hp_data h0 a \<noteq> None \<Longrightarrow> hp_data h a = hp_data h0 a"
  by (cases "a = b") (auto simp: sbuf_over_def split: if_splits)

lemma step_strlen:
  assumes "cs \<in> set literals" "length (a_text A) = length (takeWhile (\<lambda>c. c \<noteq> CHR 0x00) cs)"
  shows "step (check_strlen T cs) (busy T H p Own hs A lo ex sb lb) (busy T H (p + 1) Own hs A lo ex sb lb)"
  unfolding check_strlen_def
proof (rule step_check_fun)
  fix h h0 s v b c
  assume o: "sbuf_over h0 (lent_by T Own) h s v b c" "sbuf_view v c = A"
    and r: "tests_ready T H" "tests_leave T H h0"
  let ?n = "length (takeWhile (\<lambda>c. c \<noteq> CHR 0x00) cs)"
  note at = sbuf_overD [OF o(1)]
  have "hp_data h (te_lit T cs) = hp_data h0 (te_lit T cs)"
    using own_data [of h0 h s v b c] o(1) tests_leave_ready(4) [OF r assms(1)] by (simp add: lent_by_def)
  then have "strlen h (lit T cs) = strlen h0 (lit T cs)" by (simp add: strlen_def lit_def)
  then have l: "strlen h (lit T cs) = Some (of_nat ?n)" using literal_at(4) [OF r assms(1)] by simp
  have "unat (size_of_int (s_len v)) = ?n"
    using sbuf_at_len [OF at] over_len [OF o(1)] o(2) assms(2) by simp
  then have "size_of_int (s_len v) = of_nat ?n"
    using until_length [OF assms(1), of "\<lambda>c. c \<noteq> CHR 0x00"] by (simp add: word_unat_eq_iff unat_of_nat)
  then show "\<exists>r. (do { v \<leftarrow> hp_obj h s; n \<leftarrow> strlen h (lit T cs); Some (v, n) }) = Some r \<and>
      (case r of (v, n) \<Rightarrow> size_of_int (s_len v) = n)"
    using sbuf_atD(1) [OF at] l by simp
qed

text \<open>\<open>sbuf_overflowed\<close>, \<open>sbuf_len\<close>, \<open>sbuf_done\<close>, \<open>sbuf_data\<close>.\<close>

lemma step_readers:
  "P (if a_over A then 1 else 0) \<Longrightarrow> step (check_fun a sbuf_overflowed P)
    (busy T H p k hs A lo ex sb lb) (busy T H (p + 1) k hs A lo ex sb lb)"
  "P (if a_done A then 1 else 0) \<Longrightarrow> step (check_fun a sbuf_done P)
    (busy T H p k hs A lo ex sb lb) (busy T H (p + 1) k hs A lo ex sb lb)"
  "P (if a_over A then -1 else of_nat (length (a_text A))) \<Longrightarrow> step (check_fun a sbuf_len P)
    (busy T H p k hs A lo ex sb lb) (busy T H (p + 1) k hs A lo ex sb lb)"
  by (rule step_check_fun; auto simp: sbuf_readers simp del: view_flags)+

lemma step_data:
  "step (check_fun a (\<lambda>h s. do { v \<leftarrow> hp_obj h s; d \<leftarrow> sbuf_data h s; Some (s_buf v, d) }) (\<lambda>(b, d). d = b))
    (busy T H p k hs A lo ex sb lb) (busy T H (p + 1) k hs A lo ex sb lb)"
  "step (check_fun a sbuf_data (\<lambda>d. d = Some (te_buf T)))
    (busy T H p Lent hs A lo ex sb lb) (busy T H (p + 1) Lent hs A lo ex sb lb)"
proof -
  show "step (check_fun a (\<lambda>h s. do { v \<leftarrow> hp_obj h s; d \<leftarrow> sbuf_data h s; Some (s_buf v, d) }) (\<lambda>(b, d). d = b))
    (busy T H p k hs A lo ex sb lb) (busy T H (p + 1) k hs A lo ex sb lb)"
    by (rule step_check_fun) (auto simp: sbuf_data_def dest!: sbuf_overD sbuf_atD(1))
  show "step (check_fun a sbuf_data (\<lambda>d. d = Some (te_buf T)))
    (busy T H p Lent hs A lo ex sb lb) (busy T H (p + 1) Lent hs A lo ex sb lb)"
    by (rule step_check_fun) (use over_dynamic in \<open>auto simp: sbuf_readers lent_by_def\<close>)
qed

section \<open>Assignments, clearing and finishing\<close>

lemma step_assign:
  assumes "\<And>v. same_owner (f v) v" "\<And>v. s_buf (f v) = s_buf v" "\<And>v. s_size (f v) = s_size v"
    "\<And>v. s_len (f v) = s_len v" "\<And>v c. sbuf_view v c = A \<Longrightarrow> sbuf_view (f v) c = A'"
    "a_auto A' = a_auto A"
  shows "step (do_assign f) (busy T H p k hs A lo ex sb lb) (busy T H p k hs A' lo ex sb lb)"
  unfolding do_assign_def
proof (rule step_do_call [OF _ assms(6)])
  fix h h0 s v b c
  assume o: "sbuf_over h0 (lent_by T k) h s v b c" "sbuf_view v c = A"
  have "sbuf_over h0 (lent_by T k) (put_obj h s (f v)) s (f v) b c"
    by (rule sbuf_over_update_obj [OF o(1) assms(1-3)]) (simp add: assms(4) sbuf_atD(7) [OF sbuf_overD [OF o(1)]])
  then show "\<exists>h' v' c'. (do { v \<leftarrow> hp_obj h s; Some (put_obj h s (f v)) }) = Some h' \<and>
      sbuf_over h0 (lent_by T k) h' s v' b c' \<and> s_size v' = s_size v \<and> sbuf_view v' c' = A'"
    using sbuf_atD(1) [OF sbuf_overD [OF o(1)]] assms(3) assms(5) [OF o(2)] by auto
qed

lemma step_set_overflowed:
  "step set_overflowed (busy T H p k hs A lo ex sb lb) (busy T H p k hs (A\<lparr>a_over := True\<rparr>) lo ex sb lb)"
  unfolding set_overflowed_def
  by (rule step_assign) (auto simp: same_owner_overflowed view_overflowed)

lemma step_set_flag:
  "step (do_assign (\<lambda>v. SBUF_SETFLAG v SBUF_OVERFLOWED)) (busy T H p k hs A lo ex sb lb)
    (busy T H p k hs (A\<lparr>a_over := True\<rparr>) lo ex sb lb)"
  "step (do_assign (\<lambda>v. SBUF_SETFLAG v SBUF_FINISHED)) (busy T H p k hs A lo ex sb lb)
    (busy T H p k hs (A\<lparr>a_done := True\<rparr>) lo ex sb lb)"
proof -
  show "step (do_assign (\<lambda>v. SBUF_SETFLAG v SBUF_OVERFLOWED)) (busy T H p k hs A lo ex sb lb)
    (busy T H p k hs (A\<lparr>a_over := True\<rparr>) lo ex sb lb)"
    using step_set_overflowed unfolding set_overflowed_def .
  have "same_owner (SBUF_SETFLAG v SBUF_FINISHED) v" for v
    by (rule same_owner_setflag) (simp_all add: sbuf_flag_consts)
  then show "step (do_assign (\<lambda>v. SBUF_SETFLAG v SBUF_FINISHED)) (busy T H p k hs A lo ex sb lb)
    (busy T H p k hs (A\<lparr>a_done := True\<rparr>) lo ex sb lb)"
    by (intro step_assign) (auto simp: sbuf_view_def flag_simps)
qed

lemma step_clear:
  "step (do_call sbuf_clear) (busy T H p k hs A lo ex sb lb) (busy T H p k hs (spec_clear A) lo ex sb lb)"
proof (rule step_do_call)
  fix h h0 s v b c
  assume o: "sbuf_over h0 (lent_by T k) h s v b c" "sbuf_view v c = A"
  show "\<exists>h' v' c'. sbuf_clear h s = Some h' \<and> sbuf_over h0 (lent_by T k) h' s v' b c' \<and>
      s_size v' = s_size v \<and> sbuf_view v' c' = spec_clear A"
    using clear_refines [OF o(1)] o(2) by blast
qed simp

text \<open>The assignment of 1 to the length: the text is then a byte nobody wrote.\<close>

definition one_byte ::
  "test_env \<Rightarrow> sbuf heap \<Rightarrow> size_t \<Rightarrow> bool \<Rightarrow> asbuf \<Rightarrow> nat \<Rightarrow> nat option \<Rightarrow> nat option \<Rightarrow> tst \<Rightarrow> bool" where
  "one_byte T H p hs A lo sb lb t \<longleftrightarrow> (\<exists>x. busy T H p Own hs (A\<lparr>a_text := [x]\<rparr>) lo True sb lb t)"

lemma step_set_len:
  assumes "1 < lo"
  shows "step (do_assign (\<lambda>v. v\<lparr>s_len := 1\<rparr>)) (busy T H p Own hs A lo True sb lb) (one_byte T H p hs A lo sb lb)"
  unfolding step_def
proof (intro allI impI)
  fix t assume "busy T H p Own hs A lo True sb lb t"
  then show "\<exists>t'. do_assign (\<lambda>v. v\<lparr>s_len := 1\<rparr>) t = Some t' \<and> \<not> t_failed t' \<and> one_byte T H p hs A lo sb lb t'"
  proof (cases rule: busyE)
    case (1 h0 s v b c)
    let ?w = "v\<lparr>s_len := 1\<rparr>"
    note at = sbuf_overD [OF 1(5)]
    have o: "sbuf_over h0 (lent_by T Own) (put_obj (t_heap t) s ?w) s ?w b c"
      by (rule sbuf_over_update_obj [OF 1(5)]) (use 1(7) assms in auto)
    have "1 \<le> length c" using sbuf_atD(5,7) [OF at] by simp
    then have "take 1 c = [c ! 0]" by (cases c) simp_all
    then have w: "sbuf_view ?w c = A\<lparr>a_text := [c ! 0]\<rparr>"
      using 1(6) by (auto simp: sbuf_view_def sbuf_text_def flag_simps)
    have "busy T H p Own hs (A\<lparr>a_text := [c ! 0]\<rparr>) lo True sb lb
        (t\<lparr>t_heap := put_obj (t_heap t) s ?w\<rparr>)"
      using 1 o over_dynamic [OF o]
      by (intro busyI [OF 1(1,2) _ _ _ w]) (auto simp: clean_def lent_by_def)
    then show ?thesis using 1(3,4) sbuf_atD(1) [OF at]
      by (auto simp: do_assign_def do_call_def one_byte_def clean_def)
  qed
qed

lemma step_clear_byte:
  "step (do_call sbuf_clear) (one_byte T H p hs A lo sb lb) (busy T H p Own hs (spec_clear A) lo True sb lb)"
proof -
  have "spec_clear (A\<lparr>a_text := [x]\<rparr>) = spec_clear A" for x by (simp add: spec_clear_def)
  then show ?thesis
    using step_clear [of T H p Own hs "A\<lparr>a_text := [x]\<rparr>" lo True sb lb for x]
    unfolding step_def one_byte_def by metis
qed

lemma step_put_char:
  "step (do_call (put_char ch)) (busy T H p k hs A lo ex sb lb) (busy T H p k hs A lo ex sb lb)"
proof (rule step_do_call)
  fix h h0 s v b c
  assume o: "sbuf_over h0 (lent_by T k) h s v b c" "sbuf_view v c = A"
  let ?c = "splice c (unat (s_len v)) [of_char ch]"
  note at = sbuf_overD [OF o(1)]
  have fit: "unat (s_len v) + length [of_char ch :: byte] \<le> length c" using sbuf_atD(5,7) [OF at] by simp
  have "put_char ch h s = Some (put_data h b ?c)"
    using sbuf_atD(1,2) [OF at] store_bytes_in [OF sbuf_atD(3) [OF at] fit] sbuf_at_len [OF at]
    by (simp add: put_char_def)
  moreover have "put_obj (put_data h b ?c) s v = put_data h b ?c"
    using sbuf_atD(1) [OF at] by (simp add: put_obj_def put_data_def map_upd_triv)
  then have "sbuf_over h0 (lent_by T k) (put_data h b ?c) s v b ?c"
    using sbuf_over_update [OF o(1), of v ?c] fit sbuf_atD(7) [OF at] by (simp add: same_owner_def)
  moreover have "sbuf_view v ?c = A" using o(2) fit by (auto simp: sbuf_view_def sbuf_text_def)
  ultimately show "\<exists>h' v' c'. put_char ch h s = Some h' \<and> sbuf_over h0 (lent_by T k) h' s v' b c' \<and>
      s_size v' = s_size v \<and> sbuf_view v' c' = A" by blast
qed simp

text \<open>A finished buffer has a nul behind its text.\<close>

definition end_char :: "sbuf heap \<Rightarrow> addr \<Rightarrow> byte option" where
  "end_char h s = char_at h s (\<lambda>v. unat (size_of_int (s_len v)))"

definition terminated :: "tst \<Rightarrow> bool" where
  "terminated t \<longleftrightarrow> (\<exists>s. t_s t = Some s \<and> end_char (t_heap t) s = Some 0)"

lemma step_finish:
  "step (do_call sbuf_finish) (busy T H p Own hs A lo True sb lb)
    (\<lambda>t. busy T H p Own hs (spec_finish A) lo True sb lb t \<and> terminated t)"
  unfolding step_def
proof (intro allI impI)
  fix t assume "busy T H p Own hs A lo True sb lb t"
  then show "\<exists>t'. do_call sbuf_finish t = Some t' \<and> \<not> t_failed t' \<and>
      busy T H p Own hs (spec_finish A) lo True sb lb t' \<and> terminated t'"
  proof (cases rule: busyE)
    case (1 h0 s v b c)
    obtain h' v' c' where r: "sbuf_finish (t_heap t) s = Some h'" "sbuf_over h0 (lent_by T Own) h' s v' b c'"
        "s_size v' = s_size v" "sbuf_view v' c' = spec_finish A" "c' ! unat (s_len v') = 0"
      using finish_refines [OF 1(5)] 1(6) by blast
    note at = sbuf_overD [OF r(2)]
    have "unat (s_len v') < length c'" using sbuf_atD(5,7) [OF at] by simp
    then have "load_bytes h' (b, unat (s_len v')) 1 = Some [0]"
      using sbuf_atD(3) [OF at] r(5) by (simp add: load_bytes_def take_Suc hd_drop_conv_nth)
    then have "end_char h' s = Some 0"
      using sbuf_atD(1,2) [OF at] sbuf_at_len [OF at] by (simp add: end_char_def char_at_def)
    moreover have "busy T H p Own hs (spec_finish A) lo True sb lb (t\<lparr>t_heap := h'\<rparr>)"
      using 1 r over_dynamic [OF r(2)]
      by (intro busyI [OF 1(1,2) _ _ _ r(4)]) (auto simp: clean_def lent_by_def)
    ultimately show ?thesis using r(1) 1(3,4) by (simp add: do_call_def terminated_def clean_def)
  qed
qed

lemma step_nul:
  "step (check_fun a (\<lambda>h s. char_at h s (\<lambda>v. unat (size_of_int (s_len v)))) (\<lambda>x. x = 0))
    (\<lambda>t. busy T H p k hs A lo ex sb lb t \<and> terminated t) (busy T H (p + 1) k hs A lo ex sb lb)"
proof -
  have "busy T H p k hs A lo ex sb lb t \<Longrightarrow> clean p t" for t by (elim busyE)
  then show ?thesis
    using busy_passed'
    by (auto simp: step_def check_fun_def end_char_def [symmetric] terminated_def SBUF_ASSERT_def clean_def)
qed

section \<open>Growth\<close>

text \<open>A call with a result of its own, and where it leaves the buffer.\<close>

lemma step_call:
  assumes "\<And>h h0 s v b c. sbuf_over h0 (lent_by T k) h s v b c \<Longrightarrow> sbuf_view v c = A \<Longrightarrow>
      lo \<le> unat (s_size v) \<Longrightarrow> (ex \<Longrightarrow> unat (s_size v) = lo) \<Longrightarrow> SBUF_ISDYNAMIC v = (k \<noteq> Lent) \<Longrightarrow>
      tests_ready T H \<Longrightarrow> tests_leave T H h0 \<Longrightarrow> \<exists>h' v' b' c'. f h s = Some (e, h') \<and> sbuf_over h0 (lent_by T k) h' s v' b' c' \<and>
        sbuf_view v' c' = A' \<and> lo' \<le> unat (s_size v') \<and> (ex' \<longrightarrow> unat (s_size v') = lo') \<and>
        SBUF_ISDYNAMIC v' = (k' \<noteq> Lent)"
    and "lent_by T k' = lent_by T k" "a_auto A' \<or> ex'"
  shows "step (check_call a e f) (busy T H p k hs A lo ex sb lb) (busy T H (p + 1) k' hs A' lo' ex' sb lb)"
  unfolding step_def
proof (intro allI impI)
  fix t assume "busy T H p k hs A lo ex sb lb t"
  then show "\<exists>t'. check_call a e f t = Some t' \<and> \<not> t_failed t' \<and> busy T H (p + 1) k' hs A' lo' ex' sb lb t'"
  proof (cases rule: busyE)
    case (1 h0 s v b c)
    then obtain h' v' b' c' where r: "f (t_heap t) s = Some (e, h')"
        "sbuf_over h0 (lent_by T k') h' s v' b' c'" "sbuf_view v' c' = A'" "lo' \<le> unat (s_size v')"
        "ex' \<longrightarrow> unat (s_size v') = lo'" "SBUF_ISDYNAMIC v' = (k' \<noteq> Lent)"
      using assms(1) [OF 1(5-8,10,1,2)] assms(2) by auto
    have "busy T H (p + 1) k' hs A' lo' ex' sb lb (t\<lparr>t_heap := h', t_passed := t_passed t + 1\<rparr>)"
      using 1 r assms(3) by (intro busyI [OF 1(1,2) _ _ _ r(3)]) (auto simp: clean_def)
    then show ?thesis using r(1) 1(3,4) by (simp add: check_call_def SBUF_ASSERT_def clean_def)
  qed
qed

lemma step_call_same:
  assumes "\<And>h h0 s v b c. sbuf_over h0 (lent_by T k) h s v b c \<Longrightarrow> sbuf_view v c = A \<Longrightarrow>
      lo \<le> unat (s_size v) \<Longrightarrow> (ex \<Longrightarrow> unat (s_size v) = lo) \<Longrightarrow> f h s = Some (e, h)"
    and "a_auto A \<or> ex"
  shows "step (check_call a e f) (busy T H p k hs A lo ex sb lb) (busy T H (p + 1) k hs A lo ex sb lb)"
  by (rule step_call) (use assms in blast)+

lemma step_extend_zero:
  "a_auto A \<or> ex \<Longrightarrow> step (check_call a 0 (\<lambda>h s. sbuf_extend E h s 0))
    (busy T H p k hs A lo ex sb lb) (busy T H (p + 1) k hs A lo ex sb lb)"
  by (rule step_call_same) (simp_all add: sbuf_extend_def)

context sbuf_kernel begin

lemma step_extend_fixed:
  assumes "\<not> a_auto A" "n \<noteq> 0"
  shows "step (check_call a (-1) (\<lambda>h s. sbuf_extend E h s n))
    (busy T H p k hs A lo True sb lb) (busy T H (p + 1) k hs A lo True sb lb)"
proof (rule step_call_same)
  fix h h0 s v b c
  assume o: "sbuf_over h0 (lent_by T k) h s v b c" "sbuf_view v c = A"
  then have "\<not> SBUF_CANEXTEND v" using assms(1) by auto
  then show "sbuf_extend E h s n = Some (-1, h)"
    using sbuf_extend_fixed sbuf_atD(1) [OF sbuf_overD [OF o(1)]] assms(2) by blast
qed simp

lemma step_extend_huge:
  assumes "a_auto A" "0 < lo" "2 ^ 31 \<le> lo + unat n"
  shows "step (check_call a (-1) (\<lambda>h s. sbuf_extend E h s n))
    (busy T H p k hs A lo ex sb lb) (busy T H (p + 1) k hs A lo ex sb lb)"
proof (rule step_call_same)
  fix h h0 s v b c
  assume o: "sbuf_over h0 (lent_by T k) h s v b c" "sbuf_view v c = A" "lo \<le> unat (s_size v)"
  have n: "n \<noteq> 0" using assms(3) over_size [OF o(1)] o(3) by auto
  show "sbuf_extend E h s n = Some (-1, h)"
  proof (cases rule: sbuf_extend_cases [OF o(1) n])
    case (2 h' v' b' c')
    then show ?thesis using over_size [OF 2(2)] assms(3) o(3) by simp
  qed simp
qed (use assms(1) in simp)

lemma step_extend:
  assumes "\<not> allocator_fails E" "a_auto A" "lo + unat n < 2 ^ 20" "n \<noteq> 0" "k \<noteq> Moved"
  shows "step (check_call a 0 (\<lambda>h s. sbuf_extend E h s n)) (busy T H p k hs A lo True sb lb)
    (busy T H (p + 1) (if k = Lent then Moved else k) hs A (lo + unat n) False sb lb)"
proof (rule step_call)
  fix h h0 s v b c
  assume o: "sbuf_over h0 (lent_by T k) h s v b c" "sbuf_view v c = A" "True \<Longrightarrow> unat (s_size v) = lo"
    "SBUF_ISDYNAMIC v = (k \<noteq> Lent)"
  show "\<exists>h' v' b' c'. sbuf_extend E h s n = Some (0, h') \<and> sbuf_over h0 (lent_by T k) h' s v' b' c' \<and>
        sbuf_view v' c' = A \<and> lo + unat n \<le> unat (s_size v') \<and> (False \<longrightarrow> unat (s_size v') = lo + unat n) \<and>
        SBUF_ISDYNAMIC v' = ((if k = Lent then Moved else k) \<noteq> Lent)"
  proof (cases rule: sbuf_extend_cases [OF o(1) assms(4)])
    case 1
    have "SBUF_CANEXTEND v" using assms(2) o(2) by auto
    then show ?thesis using 1(2) assms(1,3) o(3) page_power by (auto simp: refusal_def)
  next
    case (2 h' v' b' c')
    have "b' \<notin> lent_by T k"
    proof (cases k)
      case Lent
      then have "b = te_buf T" using o(4) over_dynamic [OF o(1)] by (simp add: lent_by_def)
      then show ?thesis using 2(6) by (simp add: lent_by_def)
    qed (use assms(5) in \<open>simp_all add: lent_by_def\<close>)
    then show ?thesis
      using 2 o(2,3) view_grown [OF 2(3) sbuf_overD [OF o(1)]] over_dynamic [OF 2(2)] by auto
  qed
qed (use assms(2) in \<open>auto simp: lent_by_def\<close>)

lemma step_ensure_room:
  assumes "length (a_text A) + unat n < lo" "a_auto A \<or> ex"
  shows "step (check_call a 0 (\<lambda>h s. sbuf_ensure_capacity E h s n))
    (busy T H p k hs A lo ex sb lb) (busy T H (p + 1) k hs A lo ex sb lb)"
proof (rule step_call_same [OF _ assms(2)])
  fix h h0 s v b c
  assume o: "sbuf_over h0 (lent_by T k) h s v b c" "sbuf_view v c = A" "lo \<le> unat (s_size v)"
  note at = sbuf_overD [OF o(1)]
  have "n \<le> sbuf_capacity v"
    using assms(1) over_len [OF o(1)] o(2,3) sbuf_at_capacity [OF at] by (simp add: word_le_nat_alt)
  then show "sbuf_ensure_capacity E h s n = Some (0, h)"
    using sbuf_atD(1) [OF at] by (simp add: sbuf_ensure_capacity_def)
qed

lemma step_ensure_grows:
  assumes "\<not> allocator_fails E" "a_auto A" "length (a_text A) + unat n < 2 ^ 20"
  shows "step (check_call a 0 (\<lambda>h s. sbuf_ensure_capacity E h s n)) (busy T H p Own hs A lo ex sb lb)
    (busy T H (p + 1) Own hs A (length (a_text A) + unat n + 1) False sb lb)"
proof (rule step_call)
  fix h h0 s v b c
  assume o: "sbuf_over h0 (lent_by T Own) h s v b c" "sbuf_view v c = A"
  have len: "unat (s_len v) = length (a_text A)" using over_len [OF o(1)] o(2) by simp
  show "\<exists>h' v' b' c'. sbuf_ensure_capacity E h s n = Some (0, h') \<and>
        sbuf_over h0 (lent_by T Own) h' s v' b' c' \<and> sbuf_view v' c' = A \<and>
        length (a_text A) + unat n + 1 \<le> unat (s_size v') \<and>
        (False \<longrightarrow> unat (s_size v') = length (a_text A) + unat n + 1) \<and> SBUF_ISDYNAMIC v' = (Own \<noteq> Lent)"
  proof (cases rule: sbuf_ensure_capacity_cases [OF o(1), of n])
    case 1
    have "SBUF_CANEXTEND v" using assms(2) o(2) by auto
    then show ?thesis using 1(2,3) assms(1,3) len page_power by (auto simp: refusal_def)
  next
    case (2 h' v' b' c')
    have "unat (s_len v') = unat (s_len v)" using 2(3) by (simp add: grown_def)
    then show ?thesis
      using 2(1,2,4) o(2) len view_grown [OF 2(3) sbuf_overD [OF o(1)]] over_dynamic [OF 2(2)]
      by (intro exI [of _ h'] exI [of _ v'] exI [of _ b'] exI [of _ c']) (simp add: lent_by_def)
  qed
qed (use assms(2) in simp_all)

text \<open>A length of \<open>INT_MAX\<close>, which no buffer can hold.\<close>

lemma bcat_too_long:
  assumes o: "sbuf_over h0 X h s v b c" and "\<not> SBUF_HASOVERFLOWED v"
  shows "\<exists>v'. sbuf_bcat E h s q INT_MAX = Some (-1, put_obj h s v') \<and>
    sbuf_over h0 X (put_obj h s v') s v' b c \<and> s_size v' = s_size v \<and>
    sbuf_view v' c = sbuf_view v c\<lparr>a_over := True\<rparr>"
proof (cases rule: sbuf_ensure_capacity_cases [OF o, of INT_MAX])
  case 1
  let ?w = "SBUF_SETFLAG v SBUF_OVERFLOWED"
  have "sbuf_over h0 X (put_obj h s ?w) s ?w b c"
    by (rule sbuf_over_update_obj [OF o same_owner_overflowed])
      (use sbuf_atD(7) [OF sbuf_overD [OF o]] in simp_all)
  moreover have "sbuf_bcat E h s q INT_MAX = Some (-1, put_obj h s ?w)"
    using 1(1) sbuf_atD(1) [OF sbuf_overD [OF o]] assms(2)
    by (simp add: sbuf_bcat_def sbuf_mark_overflowed_def)
  ultimately show ?thesis by (auto simp: view_overflowed)
next
  case (2 h' v' b' c')
  then show ?thesis using over_size [OF 2(2)] by simp
qed

lemma step_bcat_too_long:
  assumes "\<not> a_over A" "a_auto A"
  shows "step (check_call a (-1) (\<lambda>h s. sbuf_bcat E h s q INT_MAX)) (busy T H p k hs A lo ex sb lb)
    (busy T H (p + 1) k hs (A\<lparr>a_over := True\<rparr>) lo ex sb lb)"
proof (rule step_call)
  fix h h0 s v b c
  assume o: "sbuf_over h0 (lent_by T k) h s v b c" "sbuf_view v c = A" "lo \<le> unat (s_size v)"
    "ex \<Longrightarrow> unat (s_size v) = lo" "SBUF_ISDYNAMIC v = (k \<noteq> Lent)"
  have "\<not> SBUF_HASOVERFLOWED v" using assms(1) o(2) by auto
  then obtain v' where "sbuf_bcat E h s q INT_MAX = Some (-1, put_obj h s v')"
    "sbuf_over h0 (lent_by T k) (put_obj h s v') s v' b c" "s_size v' = s_size v"
    "sbuf_view v' c = A\<lparr>a_over := True\<rparr>"
    using bcat_too_long [OF o(1)] o(2) by blast
  then show "\<exists>h' v' b' c'. sbuf_bcat E h s q INT_MAX = Some (-1, h') \<and>
      sbuf_over h0 (lent_by T k) h' s v' b' c' \<and> sbuf_view v' c' = A\<lparr>a_over := True\<rparr> \<and>
      lo \<le> unat (s_size v') \<and> (ex \<longrightarrow> unat (s_size v') = lo) \<and> SBUF_ISDYNAMIC v' = (k \<noteq> Lent)"
    using o over_dynamic by metis
qed (use assms(2) in simp_all)

lemma step_bcpy_too_long:
  assumes "a_auto A"
  shows "step (check_call a (-1) (\<lambda>h s. sbuf_bcpy E h s q INT_MAX)) (busy T H p k hs A lo ex sb lb)
    (busy T H (p + 1) k hs (spec_clear A\<lparr>a_over := True\<rparr>) lo ex sb lb)"
proof (rule step_call)
  fix h h0 s v b c
  assume o: "sbuf_over h0 (lent_by T k) h s v b c" "sbuf_view v c = A" "lo \<le> unat (s_size v)"
    "ex \<Longrightarrow> unat (s_size v) = lo" "SBUF_ISDYNAMIC v = (k \<noteq> Lent)"
  obtain w where w: "sbuf_clear h s = Some (put_obj h s w)"
    "sbuf_over h0 (lent_by T k) (put_obj h s w) s w b c" "s_size w = s_size v"
    "sbuf_view w c = spec_clear A"
    using clear_refines [OF o(1)] o(2) by blast
  have "\<not> SBUF_HASOVERFLOWED w" using w(4) view_flags(2) [of w c] by simp
  then obtain v' where "sbuf_bcat E (put_obj h s w) s q INT_MAX = Some (-1, put_obj (put_obj h s w) s v')"
    "sbuf_over h0 (lent_by T k) (put_obj (put_obj h s w) s v') s v' b c" "s_size v' = s_size w"
    "sbuf_view v' c = spec_clear A\<lparr>a_over := True\<rparr>"
    using bcat_too_long [OF w(2)] w(4) by metis
  then show "\<exists>h' v' b' c'. sbuf_bcpy E h s q INT_MAX = Some (-1, h') \<and>
      sbuf_over h0 (lent_by T k) h' s v' b' c' \<and> sbuf_view v' c' = spec_clear A\<lparr>a_over := True\<rparr> \<and>
      lo \<le> unat (s_size v') \<and> (ex \<longrightarrow> unat (s_size v') = lo) \<and> SBUF_ISDYNAMIC v' = (k \<noteq> Lent)"
    using o w over_dynamic unfolding sbuf_bcpy_def by (metis bind.bind_lunit)
qed (use assms in simp_all)

text \<open>A copy that fits leaves the size alone, also where the buffer may grow.\<close>

lemma bcat_fits_size:
  assumes "sbuf_bcat E h s q n = Some (r, h')" "sbuf_over h0 X h s v b c"
    "unat (s_len v) + unat n < unat (s_size v)" "hp_obj h' s = Some v'"
  shows "s_size v' = s_size v"
proof -
  note at = sbuf_overD [OF assms(2)]
  have "n \<le> sbuf_capacity v"
    using assms(3) sbuf_at_capacity [OF at] by (simp add: word_le_nat_alt)
  then have "sbuf_ensure_capacity E h s n = Some (0, h)"
    using sbuf_atD(1) [OF at] by (simp add: sbuf_ensure_capacity_def)
  then show ?thesis using assms(1,4) sbuf_atD(1,2) [OF at]
    by (auto simp: sbuf_bcat_def bcopy_def store_bytes_def split: if_splits bind_splits)
qed

lemma step_cpy_fits:
  assumes "\<not> allocator_fails E" "cs \<in> set literals" "a_auto A" "CHR 0x00 \<notin> set cs" "length cs < lo"
  shows "step (check_write (w_cpy E T) cs 0) (busy T H p Own hs A lo True sb lb)
    (busy T H (p + 1) Own hs (spec_clear A\<lparr>a_text := ascii cs\<rparr>) lo True sb lb)"
  unfolding check_write_def w_cpy_def fst_conv snd_conv
proof (rule step_call)
  fix h h0 s v b c
  assume o: "sbuf_over h0 (lent_by T Own) h s v b c" "sbuf_view v c = A" "True \<Longrightarrow> unat (s_size v) = lo"
    and r: "tests_ready T H" "tests_leave T H h0"
  have cs: "takeWhile (\<lambda>c. c \<noteq> CHR 0x00) cs = cs" using assms(4) by (simp add: takeWhile_eq_all_conv) metis
  obtain w where w: "sbuf_clear h s = Some (put_obj h s w)" "sbuf_over h0 {} (put_obj h s w) s w b c"
    "s_size w = s_size v" "sbuf_view w c = spec_clear A"
    using clear_refines [OF o(1)] o(2) by (auto simp: lent_by_def)
  have fits: "\<not> SBUF_HASOVERFLOWED w" "unat (s_len w) + length cs < unat (s_size w)"
    using w(3,4) view_flags(2) [of w c] over_len [OF w(2)] o(3) assms(5) by auto
  have "appends E h0 {} s w c (ascii cs) (sbuf_cat E (put_obj h s w) s (lit T cs))"
    using cat_appends [OF w(2), of "lit T cs" "ascii cs"] literal_at(5) [OF r assms(2)] cs by simp
  then obtain h' v' b' c' where c: "sbuf_cat E (put_obj h s w) s (lit T cs) = Some (0, h')"
    "sbuf_over h0 {} h' s v' b' c'" "sbuf_view v' c' = spec_clear A\<lparr>a_text := ascii cs\<rparr>"
    using fits w(4) unfolding appends_def by (auto simp: append_ok_def spec_append_def)
  have "hp_data (put_obj h s w) (te_lit T cs) = hp_data h0 (te_lit T cs)"
    using own_data [OF w(2), of "te_lit T cs"] tests_leave_ready(4) [OF r assms(2)] by simp
  then have "strlen (put_obj h s w) (lit T cs) = Some (of_nat (length cs))"
    using literal_at(4) [OF r assms(2)] cs by (simp add: strlen_def lit_def)
  then have "sbuf_bcat E (put_obj h s w) s (lit T cs) (of_nat (length cs)) = Some (0, h')"
    using c(1) by (simp add: sbuf_cat_def)
  then have "s_size v' = s_size w"
    using bcat_fits_size [OF _ w(2) _ sbuf_atD(1) [OF sbuf_overD [OF c(2)]]] fits(2)
      literal_small [OF assms(2)] by simp
  then show "\<exists>h' v' b' c'. sbuf_cpy E h s (lit T cs) = Some (0, h') \<and>
      sbuf_over h0 (lent_by T Own) h' s v' b' c' \<and> sbuf_view v' c' = spec_clear A\<lparr>a_text := ascii cs\<rparr> \<and>
      lo \<le> unat (s_size v') \<and> (True \<longrightarrow> unat (s_size v') = lo) \<and> SBUF_ISDYNAMIC v' = (Own \<noteq> Lent)"
    using w(1,3) c o(3) over_dynamic [OF c(2)]
    by (intro exI [of _ h'] exI [of _ v'] exI [of _ b'] exI [of _ c']) (simp add: sbuf_cpy_def lent_by_def)
qed simp_all

end

section \<open>The loop over a literal, and the last section\<close>

lemma step_copy_char:
  assumes "cs \<in> set literals" "i < length cs" "a_text A = ascii cs"
  shows "step (check_fun a (\<lambda>h s. do { x \<leftarrow> char_at h s (\<lambda>_. i);
        y \<leftarrow> load_bytes h (te_lit T cs, i) 1; Some (x, hd y) }) (\<lambda>(x, y). x = y))
    (busy T H p Own hs A lo ex sb lb) (busy T H (p + 1) Own hs A lo ex sb lb)"
proof (rule step_check_fun)
  fix h h0 s v b c
  assume o: "sbuf_over h0 (lent_by T Own) h s v b c" "sbuf_view v c = A"
    and r: "tests_ready T H" "tests_leave T H h0"
  have "hp_data h (te_lit T cs) = Some (ascii cs @ [0])"
    using own_data [of h0 h s v b c] o(1) tests_leave_ready(4) [OF r assms(1)] by (simp add: lent_by_def)
  then have "load_bytes h (te_lit T cs, i) 1 = Some [ascii cs ! i]"
    using assms(2) by (simp add: load_bytes_def take_Suc hd_drop_conv_nth nth_append)
  moreover have "char_at h s (\<lambda>_. i) = Some (ascii cs ! i)"
    using char_at_text [OF o(1), of i] o(2) assms(2,3) by (simp del: view_flags)
  ultimately show "\<exists>r. (do { x \<leftarrow> char_at h s (\<lambda>_. i); y \<leftarrow> load_bytes h (te_lit T cs, i) 1; Some (x, hd y) }) =
      Some r \<and> (case r of (x, y) \<Rightarrow> x = y)" by simp
qed

lemma good_map:
  assumes "\<And>i p. i < n \<Longrightarrow> step (f i) (busy T H p k hs A lo ex sb lb) (busy T H (p + 1) k hs A lo ex sb lb)"
  shows "good (map f [0..<n]) (busy T H p k hs A lo ex sb lb) (busy T H (p + of_nat n) k hs A lo ex sb lb)"
  using assms
proof (induction n arbitrary: p)
  case (Suc n)
  have "good (map f [0..<n] @ [f n]) (busy T H p k hs A lo ex sb lb)
      (busy T H (p + of_nat n + 1) k hs A lo ex sb lb)"
    by (rule good_append [OF _ good_cons [OF _ good_nil]]) (use Suc in auto)
  then show ?case by (simp add: add_ac)
qed simp

lemma step_copy:
  assumes "cs \<in> set literals" "a_text A = ascii cs" "CHR 0x00 \<notin> set cs"
  shows "step (check_copy T cs) (busy T H p Own hs A lo ex sb lb)
    (busy T H (p + of_nat (length cs)) Own hs A lo ex sb lb)"
  unfolding step_def
proof (intro allI impI)
  fix t assume b: "busy T H p Own hs A lo ex sb lb t"
  then have "strlen (t_heap t) (lit T cs) = Some (of_nat (length cs))"
  proof (cases rule: busyE)
    case (1 h0 s v b c)
    have tw: "takeWhile (\<lambda>c. c \<noteq> CHR 0x00) cs = cs" using assms(3) by (simp add: takeWhile_eq_all_conv) metis
    have "hp_data (t_heap t) (te_lit T cs) = hp_data h0 (te_lit T cs)"
      using own_data [of h0 "t_heap t" s v b c] 1(5) tests_leave_ready(4) [OF 1(1,2) assms(1)]
      by (simp add: lent_by_def)
    then have "strlen (t_heap t) (lit T cs) = strlen h0 (lit T cs)" by (simp add: strlen_def lit_def)
    then show ?thesis using literal_at(4) [OF 1(1,2) assms(1)] by (simp only: tw)
  qed
  moreover have "\<not> t_failed t" using b by (elim busyE) (simp add: clean_def)
  ultimately show "\<exists>t'. check_copy T cs t = Some t' \<and> \<not> t_failed t' \<and>
      busy T H (p + of_nat (length cs)) Own hs A lo ex sb lb t'"
    using good_map [OF step_copy_char [OF assms(1) _ assms(2)]] b
    unfolding good_def check_copy_def by (simp add: literal_small [OF assms(1)])
qed

text \<open>\<open>existing\<close> after its buffer was deleted.\<close>

definition gone :: "test_env \<Rightarrow> sbuf heap \<Rightarrow> size_t \<Rightarrow> tst \<Rightarrow> bool" where
  "gone T H p t \<longleftrightarrow> idle T H p t \<and> t_s t = Some (te_existing T) \<and>
     (\<exists>v. hp_obj (t_heap t) (te_existing T) = Some v \<and> s_buf v = None)"

lemma step_delete_existing:
  "step (do_call sbuf_delete) (busy T H p Own False A lo ex sb lb) (gone T H p)"
  unfolding step_def
proof (intro allI impI)
  fix t assume b: "busy T H p Own False A lo ex sb lb t"
  then obtain t' where t': "do_call sbuf_delete t = Some t'" "\<not> t_failed t'" "idle T H p t'"
    using step_delete unfolding step_def by blast
  from b show "\<exists>t'. do_call sbuf_delete t = Some t' \<and> \<not> t_failed t' \<and> gone T H p t'"
  proof (cases rule: busyE)
    case (1 h0 s v b c)
    have "hp_obj h0 s \<noteq> None" using 1(11) tests_leave_ready(2) [OF 1(1,2)] by simp
    then have "\<not> SBUF_ISDYNSTRUCT v" using 1(5) by (simp add: sbuf_over_def split: if_splits)
    then have "t_s t' = Some s \<and> hp_obj (t_heap t') s = Some (v\<lparr>s_buf := None\<rparr>)"
      using t'(1) 1(4,10) sbuf_atD(1,2) [OF sbuf_overD [OF 1(5)]]
      by (auto simp: do_call_def sbuf_delete_def split: bind_splits)
    then have "gone T H p t'" using t'(3) 1(11) by (simp add: gone_def)
    then show ?thesis using t'(1,2) by blast
  qed
qed

lemma step_gone: "step (check_mem a (\<lambda>t v. s_buf v = None)) (gone T H p) (idle T H (p + 1))"
  by (auto simp: step_def check_mem_def SBUF_ASSERT_def gone_def idle_def clean_def)

end
