(* ===== verification/Sbuf_Selftest.thy ===== *)
theory Sbuf_Selftest imports Sbuf_Test_Steps begin

text \<open>
  The self-test passes: over every allocator that keeps its contract and does not fail, every statement
  is defined, all assertions hold, and no memory is left behind. Locale \<open>test_writer\<close> proves the blocks
  that the sections of the four writers share, once.
\<close>

section \<open>The blocks\<close>

lemma good_step: "step c P P1 \<Longrightarrow> P1 = P' \<Longrightarrow> good cs P' Q \<Longrightarrow> good (c # cs) P Q"
  using good_cons by blast

lemmas stmts_append = append.simps [where 'a = "tst \<Rightarrow> tst option"]

lemma good_block: "good xs P P1 \<Longrightarrow> P1 = P' \<Longrightarrow> good ys P' Q \<Longrightarrow> good (xs @ ys) P Q"
  using good_append by blast

lemma good_last: "good xs P P1 \<Longrightarrow> P1 = Q \<Longrightarrow> good xs P Q"
  by simp

lemma good_done: "P = Q \<Longrightarrow> good [] P Q"
  by simp

lemma fresh_values:
  "sbuf_fresh 0 = \<lparr>a_text = [], a_over = False, a_done = False, a_auto = False\<rparr>"
  "sbuf_fresh SBUF_FIXEDLEN = \<lparr>a_text = [], a_over = False, a_done = False, a_auto = False\<rparr>"
  "sbuf_fresh SBUF_AUTOEXTEND = \<lparr>a_text = [], a_over = False, a_done = False, a_auto = True\<rparr>"
  "(SBUF_FIXEDLEN = 0) = True" "(SBUF_AUTOEXTEND = 0) = False"
  by (simp_all add: sbuf_fresh_def sbuf_flag_consts)

lemma accepts_16:
  "new_accepts E None 16 0" "new_accepts E None 16 SBUF_FIXEDLEN"
  by (simp_all add: new_accepts_def new_accepts_args_def sbuf_flag_consts)

lemma literals_in:
  "''A'' \<in> set literals" "''ABC'' \<in> set literals" "''DEF'' \<in> set literals" "''XYZ123'' \<in> set literals"
  "[CHR ''A'', CHR 0x00, CHR ''C''] \<in> set literals" "''0123456789abcde'' \<in> set literals"
  "''0123456789abcdef'' \<in> set literals" "''0123456789abcd'' \<in> set literals" "white_end \<in> set literals"
  "''foo'' \<in> set literals" "''foo   '' \<in> set literals" "''hello'' \<in> set literals"
  by (simp_all add: literals_def)

lemmas test_evals = fresh_values accepts_16 literals_in write_post_def append_post_def
  spec_append_def grown_to_def

locale test_kernel = sbuf_kernel E for E :: kenv +
  assumes no_failure: "\<not> allocator_fails E"
begin

lemma accepts_auto: "new_accepts E None 16 SBUF_AUTOEXTEND" "new_accepts E None 1 SBUF_AUTOEXTEND"
  using page_power by (simp_all add: new_accepts_def new_accepts_args_def sbuf_flag_consts)

lemmas step_makes = step_new_own [OF no_failure] step_new_lent [OF no_failure]

end

text \<open>
  A writer of literals, which starts from \<open>prep A\<close>: \<open>sbuf_bcpy\<close> and \<open>sbuf_cpy\<close> clear the buffer first,
  \<open>sbuf_bcat\<close> and \<open>sbuf_cat\<close> do not.
\<close>

locale test_writer = test_kernel E for E :: kenv +
  fixes T :: test_env and H :: "sbuf heap" and w :: writer and prep :: "asbuf \<Rightarrow> asbuf"
  assumes writes: "cs \<in> set literals \<Longrightarrow> CHR 0x00 \<notin> set cs \<Longrightarrow> write_post lo (ascii cs) (prep A) e A' \<Longrightarrow>
      length (a_text A) < 2 ^ 16 \<Longrightarrow>
      step (check_write w cs e) (busy T H p Own hs A lo ex sb lb)
        (busy T H (p + 1) Own hs A' (grown_to lo A') (\<not> a_auto A \<and> ex) sb lb)"
    and prep_fresh: "prep (sbuf_fresh flags) = sbuf_fresh flags"
begin

lemma prep_values:
  "prep \<lparr>a_text = [], a_over = False, a_done = False, a_auto = False\<rparr> =
     \<lparr>a_text = [], a_over = False, a_done = False, a_auto = False\<rparr>"
  "prep \<lparr>a_text = [], a_over = False, a_done = False, a_auto = True\<rparr> =
     \<lparr>a_text = [], a_over = False, a_done = False, a_auto = True\<rparr>"
  using prep_fresh [of 0] prep_fresh [of SBUF_AUTOEXTEND] by (simp_all add: fresh_values)

lemma blocks:
  "good (blk_within E w) (idle T H p) (idle T H (p + 5))"
  "good (blk_limit E w) (idle T H p) (idle T H (p + 2))"
  "good (blk_too_big E w) (idle T H p) (idle T H (p + 2))"
  "good (blk_expand E w) (idle T H p) (idle T H (p + 3))"
  unfolding blk_within_def blk_limit_def blk_too_big_def blk_expand_def check_chars.simps stmts_append
  by (((rule good_step, (rule step_should step_makes writes step_len step_char step_overflowed
        step_save_size step_grew step_delete; (simp add: test_evals accepts_auto prep_values; fail)),
        simp add: test_evals prep_values)+, rule good_done, simp add: add.commute)+)

lemma blocks_append:
  assumes "\<And>A. prep A = A"
  shows "good (blk_append E w) (idle T H p) (idle T H (p + 10))"
    "good (blk_overflowed E w (-1)) (idle T H p) (idle T H (p + 1))"
  unfolding blk_append_def blk_overflowed_def check_chars.simps stmts_append
  by (((rule good_step, (rule step_should step_makes writes step_len step_char step_set_overflowed
        step_delete; (simp add: test_evals accepts_auto assms; fail)), simp add: test_evals assms)+,
        rule good_done, simp add: add.commute)+)

lemma blocks_overwrite:
  assumes "\<And>A. prep A = spec_clear A"
  shows "good (blk_overwrite E w) (idle T H p) (idle T H (p + 13))"
    "good (blk_overflowed E w 0) (idle T H p) (idle T H (p + 1))"
  unfolding blk_overwrite_def blk_overflowed_def check_chars.simps stmts_append
  by (((rule good_step, (rule step_should step_makes writes step_len step_char step_set_overflowed
        step_delete; (simp add: test_evals accepts_auto assms spec_clear_def; fail)),
        simp add: test_evals assms spec_clear_def)+, rule good_done, simp add: add.commute)+)

end

lemma clear_fresh: "spec_clear (sbuf_fresh flags) = sbuf_fresh flags"
  by (simp add: spec_clear_def sbuf_fresh_def)

lemma until_all: "CHR 0x00 \<notin> set cs \<Longrightarrow> takeWhile (\<lambda>c. c \<noteq> CHR 0x00) cs = cs"
  by (simp add: takeWhile_eq_all_conv) metis

context test_kernel begin

lemma step_cat_whole:
  "cs \<in> set literals \<Longrightarrow> CHR 0x00 \<notin> set cs \<Longrightarrow> write_post lo (ascii cs) A e A' \<Longrightarrow>
   step (check_write (w_cat E T) cs e) (busy T H p Own hs A lo ex sb lb)
     (busy T H (p + 1) Own hs A' (grown_to lo A') (\<not> a_auto A \<and> ex) sb lb)"
  by (rule step_cat [OF no_failure]) (simp_all add: until_all)

lemma step_cpy_whole:
  "cs \<in> set literals \<Longrightarrow> CHR 0x00 \<notin> set cs \<Longrightarrow> write_post lo (ascii cs) (spec_clear A) e A' \<Longrightarrow>
   length (a_text A) < 2 ^ 16 \<Longrightarrow>
   step (check_write (w_cpy E T) cs e) (busy T H p Own hs A lo ex sb lb)
     (busy T H (p + 1) Own hs A' (grown_to lo A') (\<not> a_auto A \<and> ex) sb lb)"
  by (rule step_cpy [OF no_failure]) (simp_all add: until_all)

end

sublocale test_kernel \<subseteq> bcat: test_writer E T H "w_bcat E T" "\<lambda>A. A" for T H
  by unfold_locales (use step_bcat [OF no_failure] in auto)

sublocale test_kernel \<subseteq> bcpy: test_writer E T H "w_bcpy E T" spec_clear for T H
  by unfold_locales (use step_bcpy [OF no_failure] clear_fresh in auto)

sublocale test_kernel \<subseteq> cat: test_writer E T H "w_cat E T" "\<lambda>A. A" for T H
  by unfold_locales (use step_cat_whole in auto)

sublocale test_kernel \<subseteq> cpy: test_writer E T H "w_cpy E T" spec_clear for T H
  by unfold_locales (use step_cpy_whole clear_fresh in auto)

section \<open>The sections\<close>

lemma step_new_rejected_buf:
  "size_of_int n > INT_MAX \<or> flags AND NOT SBUF_USRFLAGMSK \<noteq> 0 \<Longrightarrow>
   step (do_new E sopt bopt n flags) (idle_buf T H p) (null_s T H p)"
  using step_new_rejected [of n flags E sopt bopt T H p] by (simp add: step_def idle_buf_def)

lemmas trim_evals = literals_in(9) [unfolded white_end_def append.simps] white_end_def spec_trim_def
  rstrip_def isspace_def

lemmas idle_steps = step_testing step_should step_buf step_existing step_null step_new_rejected_buf
  step_delete

lemmas check_steps = step_pointer step_flags step_dynamic step_dynstruct step_buffer step_size step_empty
  step_rounded step_overflowed step_len step_char step_grew step_same_size step_diff step_capacity
  step_len_before step_last_char step_strlen step_readers step_data step_nul

lemmas move_steps = step_save_size step_save_len step_set_overflowed step_set_flag step_set_len
  step_clear_byte step_clear step_put_char step_finish step_extend_zero

context test_kernel begin

lemmas kernel_steps = step_new_empty step_makes step_extend_fixed step_extend_huge
  step_extend [OF no_failure] step_ensure_room step_ensure_grows [OF no_failure]
  step_bcat_too_long step_bcpy_too_long step_bcat [OF no_failure] step_cat [OF no_failure]
  step_printf [OF no_failure] step_putc [OF no_failure] step_trim [OF no_failure]

lemma sections_1:
  "good (test_sbuf_new E T) (idle T H p) (idle T H (p + 26))"
  "good (test_sbuf_clear E) (idle T H p) (idle T H (p + 5))"
  "good (test_sbuf_extend E T) (idle T H p) (idle T H (p + 10))"
  "good (test_sbuf_capacity E) (idle T H p) (idle T H (p + 1))"
  "good (test_sbuf_ensure_capacity E) (idle T H p) (idle T H (p + 4))"
  unfolding test_sbuf_new_def test_sbuf_clear_def test_sbuf_extend_def test_sbuf_capacity_def
    test_sbuf_ensure_capacity_def
  by (((rule good_step, (rule idle_steps step_new_rejected kernel_steps check_steps move_steps;
        (simp add: test_evals accepts_auto spec_clear_def SBUF_USRFLAGMSK_def; fail)),
        simp add: test_evals spec_clear_def)+, rule good_done, simp add: add.commute)+)

lemma too_long:
  "good (blk_too_long E a (\<lambda>h s. sbuf_bcat E h s q INT_MAX)) (idle T H p) (idle T H (p + 2))"
  "good (blk_too_long E a (\<lambda>h s. sbuf_bcpy E h s q INT_MAX)) (idle T H p) (idle T H (p + 2))"
  unfolding blk_too_long_def
  by (((rule good_step, (rule idle_steps kernel_steps check_steps; (simp add: test_evals accepts_auto; fail)),
        simp add: test_evals)+, rule good_done, simp add: add.commute)+)

lemmas writer_blocks = too_long bcat.blocks bcat.blocks_append bcpy.blocks bcpy.blocks_overwrite
  cat.blocks cat.blocks_append cpy.blocks cpy.blocks_overwrite

lemma sections_2:
  "good (test_sbuf_bcat E T) (idle T H p) (idle T H (p + 30))"
  "good (test_sbuf_bcpy E T) (idle T H p) (idle T H (p + 28))"
  "good (test_sbuf_cat E T) (idle T H p) (idle T H (p + 26))"
  "good (test_sbuf_cpy E T) (idle T H p) (idle T H (p + 26))"
  unfolding test_sbuf_bcat_def test_sbuf_bcpy_def test_sbuf_cat_def test_sbuf_cpy_def
    check_chars.simps stmts_append
  by ((((rule good_step, (rule idle_steps kernel_steps check_steps; (simp add: test_evals; fail)),
        simp add: test_evals) |
      (rule good_block, (rule writer_blocks; (simp; fail)), simp))+,
      rule good_last, rule writer_blocks, simp add: add.commute)+)

lemma sections_3:
  "good (test_sbuf_printf E T) (idle T H p) (idle T H (p + 41))"
  "good (test_sbuf_putc E T) (idle T H p) (idle T H (p + 15))"
  "good (test_sbuf_trim E T) (idle T H p) (idle T H (p + 13))"
  "good (test_sbuf_overflowed E) (idle T H p) (idle T H (p + 2))"
  "good (test_sbuf_finish E) (idle T H p) (idle T H (p + 5))"
  "good (test_sbuf_data E T) (idle T H p) (idle T H (p + 2))"
  "good (test_sbuf_len E T) (idle T H p) (idle T H (p + 5))"
  "good (test_sbuf_done E) (idle T H p) (idle T H (p + 3))"
  unfolding test_sbuf_printf_def test_sbuf_putc_def test_sbuf_trim_def test_sbuf_overflowed_def
    test_sbuf_finish_def test_sbuf_data_def test_sbuf_len_def test_sbuf_done_def
    check_chars.simps stmts_append
  by (((rule good_step, (rule idle_steps step_cpy_fits [OF no_failure] kernel_steps cpy.writes
        step_copy check_steps move_steps;
        (simp add: test_evals accepts_auto spec_clear_def spec_finish_def trim_evals; fail)),
        simp add: test_evals spec_clear_def spec_finish_def trim_evals)+, rule good_done, simp add: add.commute)+)

lemma section_delete: "good (test_sbuf_delete E T) (idle T H p) (idle T H (p + 2))"
  unfolding test_sbuf_delete_def
  by ((rule good_step, (rule step_testing step_should step_existing step_makes step_buffer
        step_delete_existing step_gone; (simp add: test_evals; fail)), simp add: test_evals)+,
      rule good_done, simp add: add.commute)

lemma all_sections: "good (sbuf_tests E T) (idle T H 0) (idle T H 244)"
  unfolding sbuf_tests_def
  by ((rule good_block, (rule sections_1 sections_2 sections_3), simp)+, rule good_last, rule section_delete, simp)

end

section \<open>A kernel to run it on\<close>

text \<open>For the witness: literals and locals at addresses of their own, the locals not yet written.\<close>

fun place :: "'a \<Rightarrow> 'a list \<Rightarrow> nat" where
  "place x [] = 0"
| "place x (y # ys) = (if x = y then 0 else Suc (place x ys))"

definition test_place :: test_env where
  "test_place = \<lparr>te_lit = (\<lambda>cs. 1000 + place cs literals), te_existing = 2000, te_buf = 2001\<rparr>"

definition test_heap :: "sbuf heap" where
  "test_heap = \<lparr>hp_data = map_of (map (\<lambda>cs. (te_lit test_place cs, ascii cs @ [0])) literals),
     hp_obj = [2000 \<mapsto> memset_0x41], hp_owned = {}\<rparr>"

lemma test_ready: "tests_ready test_place test_heap"
  by (simp add: tests_ready_def test_heap_def test_place_def literals_def white_end_def hp_finite_def
      finite_dom_map_of)

interpretation arm64_tests: test_kernel arm64_kernel
  using sbuf_kernel_arm64 arm64_allocates by (simp add: test_kernel_def test_kernel_axioms_def)

section \<open>Properties\<close>

text \<open>
  C38. The self-test passes: over every allocator that keeps its contract and does not fail, wherever
  the literals and locals lie, every statement of \<open>sysctl_sbuf_tests\<close> is defined, all its 244 assertions
  hold, the handler returns 0 after the one line that counts them, and all memory but the two locals
  is as before.
\<close>

theorem sbuf_selftest_passes:
  assumes "sbuf_kernel E" "\<not> allocator_fails E" "tests_ready T h" "newptr \<noteq> 0" "1 \<le> newlen"
  shows "\<exists>h'. sysctl_sbuf_tests E T 0 newptr newlen h =
      Some (0, [(''sbuf_tests: %zu assertions passed'' @ newline, [A_long 244])], h') \<and>
    restored h {te_buf T} {te_existing T} h'"
proof -
  have kernel: "test_kernel E"
    using assms(1,2) by (simp add: test_kernel_def test_kernel_axioms_def)
  have start: "idle T h 0 (test_start h)" "\<not> t_failed (test_start h)"
    using assms(3) tests_leave_refl [of T h] by (simp_all add: idle_def clean_def test_start_def)
  obtain t' where "run_stmts (sbuf_tests E T) (test_start h) = Some t'" "\<not> t_failed t'" "idle T h 244 t'"
    using test_kernel.all_sections [OF kernel, of T h] start unfolding good_def by blast
  then show ?thesis using assms(4,5)
    by (auto simp: sysctl_sbuf_tests_def idle_def clean_def tests_leave_def kprintf_def word_less_nat_alt
        word_le_nat_alt)
qed

theorem sbuf_selftest_passes_witness:
  "\<exists>h'. sysctl_sbuf_tests arm64_kernel test_place 0 1 3 test_heap =
      Some (0, [(''sbuf_tests: %zu assertions passed'' @ newline, [A_long 244])], h') \<and>
    restored test_heap {2001} {2000} h'"
  using sbuf_selftest_passes [OF sbuf_kernel_arm64 arm64_allocates test_ready, of 1 3]
  by (simp add: test_place_def)

end
