(* ===== verification/Sbuf_Test_Errors.thy ===== *)
theory Sbuf_Test_Errors imports Sbuf_Selftest begin

text \<open>
  The self-test of \<open>sbuf.c\<close> when memory has run out. Its first section compares what \<open>sbuf_new\<close> returns
  and fails as an assertion does; every later section follows the pointer without looking at it.
\<close>

section \<open>No memory\<close>

definition no_memory :: "kenv \<Rightarrow> bool" where
  "no_memory E \<longleftrightarrow> (\<forall>h n ty fl. ke_malloc E h n ty fl = None)"

lemma new_no_struct: "no_memory E \<Longrightarrow> sbuf_new E h None buf n flags = Some (None, h)"
  by (simp add: sbuf_new_def sbuf_new_struct_def kalloc_type_def no_memory_def)

text \<open>With a structure of the caller's: it is cleared, its flags are set, and \<open>sbuf_delete\<close> leaves it so.\<close>

lemma new_no_buffer:
  assumes "no_memory E" "hp_obj h a \<noteq> None" "flags = 0 \<or> flags = SBUF_AUTOEXTEND \<and> sbuf_extendsize E 16 = Some (0, 16)"
  shows "sbuf_new E h (Some a) None 16 flags = Some (None, put_obj h a (sbuf_bzero\<lparr>s_flags := flags\<rparr>))"
  using assms
  by (auto simp: sbuf_new_def sbuf_new_struct_def sbuf_new_buf_def sbuf_new_fail_def sbuf_delete_def
      kalloc_data_def no_memory_def sbuf_bzero_def SBUF_ISSET_def flag_simps)

lemma new_too_large: "sbuf_new E h s buf INT_MIN flags = Some (None, h)"
  by (simp add: sbuf_new_def)

section \<open>Statements that follow a null pointer\<close>

definition follows :: "stmt \<Rightarrow> bool" where
  "follows c \<longleftrightarrow> (\<forall>t. t_s t = None \<longrightarrow> c t = None)"

lemma follows_stmts [intro]:
  "follows (do_call f)" "follows (do_assign g)" "follows save_size" "follows save_len"
  "follows (check_mem a P)" "follows (check_call a e f2)" "follows (check_fun a f3 R)"
  "follows (check_write w cs e)" "follows (check_putc E c e)" "follows (check_trim e)" "follows set_overflowed"
  by (simp_all add: follows_def do_call_def do_assign_def save_size_def save_len_def check_mem_def
      check_call_def check_fun_def check_write_def check_putc_def check_trim_def set_overflowed_def)

text \<open>Lists of statements with undefined behaviour, from wherever they start.\<close>

definition undefined_run :: "stmt list \<Rightarrow> bool" where
  "undefined_run cs \<longleftrightarrow> (\<forall>t. \<not> t_failed t \<longrightarrow> run_stmts cs t = None)"

lemma undefined_idle:
  "undefined_run cs \<Longrightarrow> undefined_run (SBUF_TESTING a # cs)"
  "undefined_run cs \<Longrightarrow> undefined_run (SBUF_SHOULD a # cs)"
  by (simp_all add: undefined_run_def SBUF_TESTING_def SBUF_SHOULD_def)

lemma undefined_new:
  "no_memory E \<Longrightarrow> follows c \<Longrightarrow> undefined_run (do_new E None buf n flags # c # cs)"
  by (simp add: undefined_run_def follows_def do_new_def new_no_struct)

lemma undefined_new_existing:
  "no_memory E \<Longrightarrow> follows c \<Longrightarrow>
    undefined_run (local_existing T v # do_new E (Some (te_existing T)) None 16 0 # c # cs)"
  by (simp add: undefined_run_def follows_def do_new_def local_existing_def new_no_buffer)

lemma later_sections_undefined:
  assumes "no_memory E"
  shows "undefined_run (test_sbuf_clear E)" "undefined_run (test_sbuf_extend E T)"
    "undefined_run (test_sbuf_capacity E)" "undefined_run (test_sbuf_ensure_capacity E)"
    "undefined_run (test_sbuf_bcat E T)" "undefined_run (test_sbuf_bcpy E T)"
    "undefined_run (test_sbuf_cat E T)" "undefined_run (test_sbuf_cpy E T)"
    "undefined_run (test_sbuf_printf E T)" "undefined_run (test_sbuf_putc E T)"
    "undefined_run (test_sbuf_trim E T)" "undefined_run (test_sbuf_overflowed E)"
    "undefined_run (test_sbuf_finish E)" "undefined_run (test_sbuf_data E T)"
    "undefined_run (test_sbuf_len E T)" "undefined_run (test_sbuf_done E)"
    "undefined_run (test_sbuf_delete E T)"
  unfolding test_sbuf_clear_def test_sbuf_extend_def test_sbuf_capacity_def test_sbuf_ensure_capacity_def
    test_sbuf_bcat_def test_sbuf_bcpy_def test_sbuf_cat_def test_sbuf_cpy_def test_sbuf_printf_def
    test_sbuf_putc_def test_sbuf_trim_def test_sbuf_overflowed_def test_sbuf_finish_def test_sbuf_data_def
    test_sbuf_len_def test_sbuf_done_def test_sbuf_delete_def blk_overflowed_def blk_overwrite_def stmts_append
  by ((rule undefined_idle undefined_new undefined_new_existing follows_stmts assms)+)

section \<open>The first section\<close>

text \<open>The locals are written, and \<open>existing\<close> was cleared; nothing else changed.\<close>

definition out_of_memory_heap :: "test_env \<Rightarrow> sbuf heap \<Rightarrow> sbuf heap" where
  "out_of_memory_heap T h =
     put_obj (put_data h (te_buf T) [0, 0, 0, 0]) (te_existing T) (sbuf_bzero\<lparr>s_flags := SBUF_AUTOEXTEND\<rparr>)"

lemma first_section_fails:
  assumes "no_memory E" "sbuf_extendsize E 16 = Some (0, 16)"
  shows "\<exists>t. run_stmts (test_sbuf_new E T @ cs) (test_start h) = Some t \<and> t_failed t \<and> t_passed t = 4 \<and>
    t_heap t = out_of_memory_heap T h \<and>
    t_log t = [(''sbuf_tests: failed assertion: %s'' @ newline, [A_text ''s == &existing'']),
      (''sbuf_tests: while testing: %s should %s'' @ newline,
        [A_text ''sbuf_new'', A_text ''succeed when passed an existing sbuf''])]"
  unfolding test_sbuf_new_def stmts_append
  by (simp add: SBUF_TESTING_def SBUF_SHOULD_def do_new_def check_s_def SBUF_ASSERT_def SBUF_FAIL_def
      local_buf_def local_existing_def new_too_large new_no_struct new_no_buffer assms test_start_def
      kprintf_def out_of_memory_heap_def)

section \<open>Properties\<close>

text \<open>
  C39. The self-test without memory. If the allocator refuses everything, the handler returns
  \<open>ENOTRECOVERABLE\<close> after the two lines of the first assertion that needs memory, and leaves all memory but
  its two locals as it was. But only that section looks at what \<open>sbuf_new\<close> returns: each of the 17 later
  ones, entered when memory has run out, dereferences \<open>NULL\<close>.
\<close>

theorem selftest_out_of_memory:
  assumes "sbuf_kernel E" "no_memory E" "newptr \<noteq> 0" "1 \<le> newlen"
  shows "sysctl_sbuf_tests E T 0 newptr newlen h = Some (ENOTRECOVERABLE,
      [(''sbuf_tests: failed assertion: %s'' @ newline, [A_text ''s == &existing'']),
       (''sbuf_tests: while testing: %s should %s'' @ newline,
         [A_text ''sbuf_new'', A_text ''succeed when passed an existing sbuf''])],
      out_of_memory_heap T h) \<and>
    list_all undefined_run [test_sbuf_clear E, test_sbuf_extend E T, test_sbuf_capacity E,
      test_sbuf_ensure_capacity E, test_sbuf_bcat E T, test_sbuf_bcpy E T, test_sbuf_cat E T,
      test_sbuf_cpy E T, test_sbuf_printf E T, test_sbuf_putc E T, test_sbuf_trim E T,
      test_sbuf_overflowed E, test_sbuf_finish E, test_sbuf_data E T, test_sbuf_len E T,
      test_sbuf_done E, test_sbuf_delete E T]"
proof
  have "sbuf_extendsize E 16 = Some (0, 16)"
    using sbuf_kernel.extendsize_16 [OF assms(1), of 16] by simp
  from first_section_fails [OF assms(2) this, of T]
  obtain t where "run_stmts (sbuf_tests E T) (test_start h) = Some t" "t_failed t"
    "t_heap t = out_of_memory_heap T h"
    "t_log t = [(''sbuf_tests: failed assertion: %s'' @ newline, [A_text ''s == &existing'']),
      (''sbuf_tests: while testing: %s should %s'' @ newline,
        [A_text ''sbuf_new'', A_text ''succeed when passed an existing sbuf''])]"
    unfolding sbuf_tests_def by blast
  moreover have "\<not> newlen < 1" using assms(4) by (rule leD)
  ultimately show "sysctl_sbuf_tests E T 0 newptr newlen h = Some (ENOTRECOVERABLE,
      [(''sbuf_tests: failed assertion: %s'' @ newline, [A_text ''s == &existing'']),
       (''sbuf_tests: while testing: %s should %s'' @ newline,
         [A_text ''sbuf_new'', A_text ''succeed when passed an existing sbuf''])],
      out_of_memory_heap T h)"
    using assms(3) by (simp add: sysctl_sbuf_tests_def)
qed (simp add: later_sections_undefined [OF assms(2)])

definition starved_kernel :: kenv where
  "starved_kernel = \<lparr>ke_malloc = (\<lambda>_ _ _ _. None), ke_page_shift = 14\<rparr>"

lemma starved: "sbuf_kernel starved_kernel" "no_memory starved_kernel"
  by (unfold_locales, simp_all add: starved_kernel_def no_memory_def)

theorem selftest_out_of_memory_witness:
  "map_option fst (sysctl_sbuf_tests starved_kernel test_place 0 1 3 test_heap) = Some ENOTRECOVERABLE \<and>
   run_stmts (test_sbuf_clear starved_kernel) (test_start test_heap) = None"
  using selftest_out_of_memory [OF starved, of 1 3 test_place test_heap]
  by (simp add: undefined_run_def test_start_def)

end
