(* ===== verification/Trace.thy ===== *)
theory Trace imports Klog Kmem begin

text \<open>
  The trace helpers of \<open>kext/kernel.h\<close> (\<open>sebsd_cur_pid\<close>, \<open>sebsd_cur_name\<close>, \<open>sebsd_proc_name\<close>,
  \<open>sebsd_cnp_name\<close>) over the kernel's accessors, which are parameters: a record of the functions
  the hooks call and, in the locale \<open>kernel_names\<close>, what their documentation promises. A local
  character array starts with arbitrary bytes; a write outside it, a read outside an object the
  kernel lends, or printing an array with no nul has no defined result.
\<close>

section \<open>The kernel the hooks run in\<close>

type_synonym proc = nat
type_synonym cred = nat

text \<open>
  \<open>uninit\<close> gives the bytes of a local array before the first write to it; the others are the
  functions of the kernel SDK of those names. \<open>proc_selfname\<close> and \<open>proc_name\<close> write into the buffer
  they are given.
\<close>

record hook_env =
  uninit :: "string \<Rightarrow> nat \<Rightarrow> byte"
  current_thread :: "64 word"
  current_proc :: proc
  proc_pid :: "proc \<Rightarrow> cint"
  proc_selfname :: "byte list \<Rightarrow> cint \<Rightarrow> byte list option"
  proc_name :: "cint \<Rightarrow> byte list \<Rightarrow> cint \<Rightarrow> byte list option"
  proc_find_ident :: "nat \<Rightarrow> proc option"
  kauth_cred_getuid :: "cred \<Rightarrow> uint32"
  major :: "cint \<Rightarrow> cint"
  minor :: "cint \<Rightarrow> cint"

abbreviation (input) MAXCOMLEN :: nat where "MAXCOMLEN \<equiv> 16"

text \<open>\<open>char v[n]\<close>, and the C string an array holds.\<close>

definition local_array :: "hook_env \<Rightarrow> string \<Rightarrow> nat \<Rightarrow> byte list" where
  "local_array e v n = map (uninit e v) [0..<n]"

definition c_str :: "byte list \<Rightarrow> byte list option" where
  "c_str buf = (if 0 \<in> set buf then Some (takeWhile (\<lambda>x. x \<noteq> 0) buf) else None)"

definition bytes_of :: "string \<Rightarrow> byte list" where
  "bytes_of s = map (\<lambda>c. word_of_nat (of_char c)) s"

text \<open>The C library: \<open>strlcpy\<close> and \<open>memcpy\<close> into an array, and a store to one of its bytes.\<close>

definition strlcpy :: "byte list \<Rightarrow> byte list \<Rightarrow> size_t \<Rightarrow> byte list option" where
  "strlcpy dst src len =
     (if len = 0 then Some dst
      else (let n = min (length src) (unat len - 1) in
        if n + 1 \<le> length dst then Some (splice dst 0 (take n src @ [0])) else None))"

definition memcpy :: "byte list \<Rightarrow> byte list \<Rightarrow> size_t \<Rightarrow> byte list option" where
  "memcpy dst src n =
     (if unat n \<le> length dst \<and> unat n \<le> length src
      then Some (splice dst 0 (take (unat n) src)) else None)"

definition put_byte :: "byte list \<Rightarrow> size_t \<Rightarrow> byte \<Rightarrow> byte list option" where
  "put_byte buf i x = (if unat i < length buf then Some (buf[unat i := x]) else None)"

section \<open>kernel.h\<close>

definition SEBSD_TRACE_NAME_MAX :: nat where "SEBSD_TRACE_NAME_MAX = 64"

definition sebsd_cur_pid :: "hook_env \<Rightarrow> cint" where
  "sebsd_cur_pid e = proc_pid e (current_proc e)"

definition sebsd_cur_name :: "hook_env \<Rightarrow> byte list \<Rightarrow> size_t \<Rightarrow> byte list option" where
  "sebsd_cur_name e buf len = proc_selfname e buf (int_of_size len)"

definition sebsd_proc_name :: "hook_env \<Rightarrow> cint \<Rightarrow> byte list \<Rightarrow> size_t \<Rightarrow> byte list option" where
  "sebsd_proc_name e pid buf len = proc_name e pid buf (int_of_size len)"

text \<open>\<open>struct componentname\<close>: the name's object, if the pointer is not \<open>NULL\<close>.\<close>

record componentname =
  cn_nameiop :: uint32
  cn_flags :: uint32
  cn_nameptr :: "byte list option"
  cn_namelen :: cint

definition sebsd_cnp_name ::
  "componentname option \<Rightarrow> byte list \<Rightarrow> size_t \<Rightarrow> byte list option" where
  "sebsd_cnp_name cnp buf len =
     (case Option.bind cnp (\<lambda>c. map_option (Pair c) (cn_nameptr c)) of
        None \<Rightarrow> strlcpy buf (bytes_of ''<none>'') len
      | Some (c, name) \<Rightarrow>
          (let n = size_of_int (cn_namelen c);
               n = (if n \<ge> len then len - 1 else n)
           in do { buf \<leftarrow> memcpy buf name n; put_byte buf n 0 }))"

section \<open>What the helpers leave in the buffer\<close>

text \<open>A buffer of \<open>n\<close> bytes that can be printed.\<close>

definition holds_str :: "byte list option \<Rightarrow> nat \<Rightarrow> bool" where
  "holds_str r n \<longleftrightarrow> (\<exists>buf. r = Some buf \<and> length buf = n \<and> 0 \<in> set buf)"

lemma holds_strI [intro]: "length buf = n \<Longrightarrow> 0 \<in> set buf \<Longrightarrow> holds_str (Some buf) n"
  by (simp add: holds_str_def)

lemma holds_strE:
  assumes "holds_str r n"
  obtains buf s where "r = Some buf" "length buf = n" "c_str buf = Some s"
  using assms by (auto simp: holds_str_def c_str_def)

lemma length_local_array [simp]: "length (local_array e v n) = n"
  by (simp add: local_array_def)

lemma splice_has: "x \<in> set bs \<Longrightarrow> x \<in> set (splice c k bs)"
  by (simp add: splice_def)

lemma takeWhile_zero: "0 \<notin> set s \<Longrightarrow> takeWhile (\<lambda>x. x \<noteq> 0) (s @ 0 # rest) = (s :: byte list)"
  by (subst takeWhile_append2) auto

lemma c_str_splice: "0 \<notin> set s \<Longrightarrow> c_str (splice c 0 (s @ [0])) = Some s"
  by (simp add: c_str_def splice_def takeWhile_zero)

lemma strlcpy_holds:
  assumes "len \<noteq> 0" "unat len \<le> length dst"
  shows "holds_str (strlcpy dst src len) (length dst)"
proof -
  have p: "0 < unat len" using assms(1) by (simp add: unat_gt_0)
  then have "min (length src) (unat len - 1) + 1 \<le> length dst" using assms(2) by linarith
  then show ?thesis using assms(1) by (auto simp: strlcpy_def Let_def splice_has)
qed

lemma strlcpy_text:
  assumes "len \<noteq> 0" "unat len \<le> length dst" "0 \<notin> set src"
  shows "Option.bind (strlcpy dst src len) c_str = Some (take (unat len - 1) src)"
proof -
  have p: "0 < unat len" using assms(1) by (simp add: unat_gt_0)
  then have m: "min (length src) (unat len - 1) + 1 \<le> length dst" using assms(2) by linarith
  have t: "take (min (length src) (unat len - 1)) src = take (unat len - 1) src" by (simp add: min_def)
  let ?s = "take (min (length src) (unat len - 1)) src"
  have "0 \<notin> set ?s" using assms(3) by (auto dest: in_set_takeD)
  then have "c_str (splice dst 0 (?s @ [0])) = Some ?s" by (rule c_str_splice)
  moreover have "strlcpy dst src len = Some (splice dst 0 (?s @ [0]))"
    using m assms(1) by (simp add: strlcpy_def Let_def)
  ultimately show ?thesis using t by simp
qed

text \<open>
  What a hook may be given: the name's object covers \<open>cn_namelen\<close>, which is not negative.
\<close>

definition cnp_ok :: "componentname option \<Rightarrow> bool" where
  "cnp_ok cnp \<longleftrightarrow> (case cnp of None \<Rightarrow> True | Some c \<Rightarrow>
     (case cn_nameptr c of None \<Rightarrow> True
      | Some name \<Rightarrow> unat (cn_namelen c) < 2 ^ 31 \<and> unat (cn_namelen c) \<le> length name))"

text \<open>What the trace prints for it.\<close>

definition cnp_text :: "componentname option \<Rightarrow> nat \<Rightarrow> byte list" where
  "cnp_text cnp len = (case cnp of None \<Rightarrow> take (len - 1) (bytes_of ''<none>'') | Some c \<Rightarrow>
     (case cn_nameptr c of None \<Rightarrow> take (len - 1) (bytes_of ''<none>'')
      | Some name \<Rightarrow> takeWhile (\<lambda>x. x \<noteq> 0) (take (min (unat (cn_namelen c)) (len - 1)) name)))"

lemma none_bytes: "0 \<notin> set (bytes_of ''<none>'')"
  by (simp add: bytes_of_def)

lemma takeWhile_stop: "takeWhile (\<lambda>x. x \<noteq> 0) (s @ 0 # rest) = takeWhile (\<lambda>x. x \<noteq> 0) (s :: byte list)"
  by (induction s) auto

lemma list_update_splice:
  assumes "length bs < length c"
  shows "(splice c 0 bs)[length bs := x] = splice c 0 (bs @ [x])"
proof -
  obtain y ys where "drop (length bs) c = y # ys" using assms by (cases "drop (length bs) c") auto
  moreover from this have "drop (Suc (length bs)) c = ys" by (metis drop_Suc list.sel(3) tl_drop)
  ultimately show ?thesis by (simp add: splice_def list_update_append)
qed

lemma memcpy_terminate:
  assumes "unat n \<le> length name" "unat n < length buf"
  shows "Option.bind (memcpy buf name n) (\<lambda>buf. put_byte buf n 0) =
    Some (splice buf 0 (take (unat n) name @ [0]))"
proof -
  have "(splice buf 0 (take (unat n) name))[unat n := 0] = splice buf 0 (take (unat n) name @ [0])"
    using assms list_update_splice [of "take (unat n) name" buf 0] by simp
  then show ?thesis using assms by (simp add: memcpy_def put_byte_def)
qed

lemma cnp_name_text:
  assumes "cnp_ok cnp" "len \<noteq> 0" "unat len \<le> length buf"
  shows "Option.bind (sebsd_cnp_name cnp buf len) c_str = Some (cnp_text cnp (unat len))"
    and "holds_str (sebsd_cnp_name cnp buf len) (length buf)"
proof -
  have p: "0 < unat len" using assms(2) by (simp add: unat_gt_0)
  have m: "unat (len - 1) = unat len - 1" using assms(2) by (simp add: unat_minus_one)
  have both: "Option.bind (sebsd_cnp_name cnp buf len) c_str = Some (cnp_text cnp (unat len)) \<and>
    holds_str (sebsd_cnp_name cnp buf len) (length buf)"
  proof (cases "\<exists>c name. cnp = Some c \<and> cn_nameptr c = Some name")
    case False
    then have "sebsd_cnp_name cnp buf len = strlcpy buf (bytes_of ''<none>'') len"
      "cnp_text cnp (unat len) = take (unat len - 1) (bytes_of ''<none>'')"
      by (cases cnp; cases "cn_nameptr (the cnp)"; simp add: sebsd_cnp_name_def cnp_text_def)+
    then show ?thesis using assms(2,3) none_bytes by (simp add: strlcpy_text strlcpy_holds)
  next
    case True
    then obtain c name where c: "cnp = Some c" "cn_nameptr c = Some name" by blast
    let ?i = "size_of_int (cn_namelen c)"
    let ?n = "if ?i \<ge> len then len - 1 else ?i"
    have l: "unat (cn_namelen c) < 2 ^ 31" "unat (cn_namelen c) \<le> length name"
      using assms(1) c by (simp_all add: cnp_ok_def)
    then have i: "unat ?i = unat (cn_namelen c)" by (intro unat_scast_nonneg)
    have n: "unat ?n = min (unat (cn_namelen c)) (unat len - 1)"
      using i m p by (auto simp: word_le_nat_alt min_def)
    have r: "sebsd_cnp_name cnp buf len = Some (splice buf 0 (take (unat ?n) name @ [0]))"
      using c memcpy_terminate [of ?n name buf] n l assms(3) p
      by (simp add: sebsd_cnp_name_def Let_def)
    have "length (splice buf 0 (take (unat ?n) name @ [0])) = length buf"
      using n l assms(3) p by (intro length_splice) simp
    moreover have "c_str (splice buf 0 (take (unat ?n) name @ [0])) = Some (cnp_text cnp (unat len))"
      using c n by (simp add: c_str_def splice_def takeWhile_stop cnp_text_def)
    ultimately show ?thesis unfolding r by (auto simp: holds_str_def splice_has)
  qed
  then show "Option.bind (sebsd_cnp_name cnp buf len) c_str = Some (cnp_text cnp (unat len))"
    "holds_str (sebsd_cnp_name cnp buf len) (length buf)" by simp_all
qed

end
