(* ===== verification/Hooks.thy ===== *)
theory Hooks imports Trace begin

text \<open>
  The observational hooks, one definition per function: \<open>kext/vnode.c\<close> (but the quarantined lookup
  hook, see \<open>Lookup\<close>), \<open>file.c\<close>, \<open>proc.c\<close>, \<open>spawn.c\<close>, \<open>net.c\<close>, \<open>tty.c\<close>. A hook takes the
  kernel it runs in, the value of \<open>sebsd_trace_enabled\<close> and its arguments, and gives its return
  value and the lines it prints; \<open>None\<close> if it touches memory it may not. Pointers it never
  follows are opaque.
\<close>

type_synonym opaque = "64 word"
type_synonym verdict = "(cint \<times> line list) option"

text \<open>\<open>char pname[MAXCOMLEN + 1]\<close> and its \<open>sizeof\<close>.\<close>

abbreviation (input) pname_array :: "hook_env \<Rightarrow> string \<Rightarrow> byte list" where
  "pname_array e v \<equiv> local_array e v (MAXCOMLEN + 1)"
abbreviation (input) pname_size :: size_t where "pname_size \<equiv> 17"
abbreviation (input) name_array :: "hook_env \<Rightarrow> string \<Rightarrow> byte list" where
  "name_array e v \<equiv> local_array e v SEBSD_TRACE_NAME_MAX"
abbreviation (input) name_size :: size_t where "name_size \<equiv> of_nat SEBSD_TRACE_NAME_MAX"

section \<open>vnode.c\<close>

definition sebsd_trace_open :: "hook_env \<Rightarrow> cint \<Rightarrow> cred \<Rightarrow> cint \<Rightarrow> line list option" where
  "sebsd_trace_open e t cred acc_mode = do {
     pname \<leftarrow> sebsd_cur_name e (pname_array e ''pname'') pname_size;
     pname \<leftarrow> c_str pname;
     Some (sebsd_log_debug t ''vnode open: %s pid=%d uid=%d mode=0x%x''
       [A_str pname, A_int (sebsd_cur_pid e), A_int (kauth_cred_getuid e cred), A_int acc_mode]) }"

definition sebsd_vnode_check_open :: "hook_env \<Rightarrow> cint \<Rightarrow> cred \<Rightarrow> opaque \<Rightarrow> opaque \<Rightarrow> cint \<Rightarrow> verdict" where
  "sebsd_vnode_check_open e t cred vp label1 acc_mode =
     (if sebsd_tracing t then do { l \<leftarrow> sebsd_trace_open e t cred acc_mode; Some (0, l) }
      else Some (0, []))"

definition sebsd_trace_component ::
  "hook_env \<Rightarrow> cint \<Rightarrow> string \<Rightarrow> cred \<Rightarrow> componentname option \<Rightarrow> line list option" where
  "sebsd_trace_component e t op1 cred cnp = do {
     pname \<leftarrow> sebsd_cur_name e (pname_array e ''pname'') pname_size;
     name \<leftarrow> sebsd_cnp_name cnp (name_array e ''name'') name_size;
     pname \<leftarrow> c_str pname;
     name \<leftarrow> c_str name;
     Some (sebsd_log_debug t ''vnode %s: %s pid=%d name=%s uid=%d''
       [A_text op1, A_str pname, A_int (sebsd_cur_pid e), A_str name,
        A_int (kauth_cred_getuid e cred)]) }"

definition sebsd_vnode_check_create ::
  "hook_env \<Rightarrow> cint \<Rightarrow> cred \<Rightarrow> opaque \<Rightarrow> opaque \<Rightarrow> componentname option \<Rightarrow> opaque \<Rightarrow> verdict" where
  "sebsd_vnode_check_create e t cred dvp dlabel cnp vap =
     (if sebsd_tracing t then do { l \<leftarrow> sebsd_trace_component e t ''create'' cred cnp; Some (0, l) }
      else Some (0, []))"

definition sebsd_vnode_check_unlink ::
  "hook_env \<Rightarrow> cint \<Rightarrow> cred \<Rightarrow> opaque \<Rightarrow> opaque \<Rightarrow> opaque \<Rightarrow> opaque \<Rightarrow> componentname option \<Rightarrow> verdict" where
  "sebsd_vnode_check_unlink e t cred dvp dlabel vp label1 cnp =
     (if sebsd_tracing t then do { l \<leftarrow> sebsd_trace_component e t ''unlink'' cred cnp; Some (0, l) }
      else Some (0, []))"

definition sebsd_trace_rename ::
  "hook_env \<Rightarrow> cint \<Rightarrow> cred \<Rightarrow> componentname option \<Rightarrow> componentname option \<Rightarrow> line list option" where
  "sebsd_trace_rename e t cred fcnp tcnp = do {
     pname \<leftarrow> sebsd_cur_name e (pname_array e ''pname'') pname_size;
     from1 \<leftarrow> sebsd_cnp_name fcnp (name_array e ''from'') name_size;
     to1 \<leftarrow> sebsd_cnp_name tcnp (name_array e ''to'') name_size;
     pname \<leftarrow> c_str pname;
     from1 \<leftarrow> c_str from1;
     to1 \<leftarrow> c_str to1;
     Some (sebsd_log_debug t ''vnode rename: %s pid=%d %s -> %s uid=%d''
       [A_str pname, A_int (sebsd_cur_pid e), A_str from1, A_str to1,
        A_int (kauth_cred_getuid e cred)]) }"

definition sebsd_vnode_check_rename ::
  "hook_env \<Rightarrow> cint \<Rightarrow> cred \<Rightarrow> opaque \<Rightarrow> opaque \<Rightarrow> opaque \<Rightarrow> opaque \<Rightarrow> componentname option \<Rightarrow>
     opaque \<Rightarrow> opaque \<Rightarrow> opaque \<Rightarrow> opaque \<Rightarrow> componentname option \<Rightarrow> verdict" where
  "sebsd_vnode_check_rename e t cred fdvp fdlabel fvp flabel fcnp tdvp tdlabel tvp tlabel tcnp =
     (if sebsd_tracing t then do { l \<leftarrow> sebsd_trace_rename e t cred fcnp tcnp; Some (0, l) }
      else Some (0, []))"

definition sebsd_vnode_check_readlink ::
  "hook_env \<Rightarrow> cint \<Rightarrow> cred \<Rightarrow> opaque \<Rightarrow> opaque \<Rightarrow> verdict" where
  "sebsd_vnode_check_readlink e t cred vp label1 = Some (0, [])"

definition sebsd_vnode_check_getattr ::
  "hook_env \<Rightarrow> cint \<Rightarrow> cred \<Rightarrow> cred \<Rightarrow> opaque \<Rightarrow> opaque \<Rightarrow> opaque \<Rightarrow> verdict" where
  "sebsd_vnode_check_getattr e t active_cred file_cred vp vlabel va = Some (0, [])"

definition sebsd_vnode_check_setattrlist ::
  "hook_env \<Rightarrow> cint \<Rightarrow> cred \<Rightarrow> opaque \<Rightarrow> opaque \<Rightarrow> opaque \<Rightarrow> verdict" where
  "sebsd_vnode_check_setattrlist e t cred vp vlabel alist = Some (0, [])"

definition sebsd_vnode_label_associate_extattr ::
  "hook_env \<Rightarrow> cint \<Rightarrow> opaque \<Rightarrow> opaque \<Rightarrow> opaque \<Rightarrow> opaque \<Rightarrow> verdict" where
  "sebsd_vnode_label_associate_extattr e t mp mntlabel vp vlabel = Some (0, [])"

text \<open>A \<open>void\<close> hook gives only its lines.\<close>

definition sebsd_vnode_label_copy :: "hook_env \<Rightarrow> cint \<Rightarrow> opaque \<Rightarrow> opaque \<Rightarrow> line list option" where
  "sebsd_vnode_label_copy e t src dest = Some []"

section \<open>file.c\<close>

definition sebsd_file_check_mmap ::
  "hook_env \<Rightarrow> cint \<Rightarrow> cred \<Rightarrow> opaque \<Rightarrow> opaque \<Rightarrow> cint \<Rightarrow> cint \<Rightarrow> 64 word \<Rightarrow> opaque \<Rightarrow> verdict" where
  "sebsd_file_check_mmap e t cred fg label1 prot flags file_pos maxprot =
     (if \<not> sebsd_tracing t then Some (0, [])
      else do {
        pname \<leftarrow> sebsd_cur_name e (pname_array e ''pname'') pname_size;
        pname \<leftarrow> c_str pname;
        Some (0, sebsd_log_debug t ''mmap: %s pid=%d prot=0x%x uid=%d''
          [A_str pname, A_int (sebsd_cur_pid e), A_int prot, A_int (kauth_cred_getuid e cred)]) })"

definition sebsd_file_check_library_validation ::
  "hook_env \<Rightarrow> cint \<Rightarrow> proc \<Rightarrow> opaque \<Rightarrow> 64 word \<Rightarrow> 64 word \<Rightarrow> size_t \<Rightarrow> verdict" where
  "sebsd_file_check_library_validation e t p fg slice_offset error_message error_message_size =
     (if \<not> sebsd_tracing t then Some (0, [])
      else do {
        pname \<leftarrow> sebsd_proc_name e (proc_pid e p) (pname_array e ''pname'') pname_size;
        pname \<leftarrow> c_str pname;
        Some (0, sebsd_log_debug t ''library validation: %s pid=%d''
          [A_str pname, A_int (proc_pid e p)]) })"

section \<open>proc.c\<close>

text \<open>
  Process references: \<open>proc_find_ident\<close> takes one, \<open>proc_rele\<close> drops it; dropping one that was not
  taken has no defined result.
\<close>

type_synonym refs = "proc \<Rightarrow> nat"

definition proc_rele :: "proc \<Rightarrow> refs \<Rightarrow> refs option" where
  "proc_rele p r = (if r p = 0 then None else Some (r(p := r p - 1)))"

definition sebsd_ident_name ::
  "hook_env \<Rightarrow> refs \<Rightarrow> nat option \<Rightarrow> byte list \<Rightarrow> size_t \<Rightarrow> (cint \<times> byte list \<times> refs) option" where
  "sebsd_ident_name e r ident buf len =
     (case ident of
        None \<Rightarrow> do { buf \<leftarrow> strlcpy buf (bytes_of ''<kernel>'') len; Some (-1, buf, r) }
      | Some i \<Rightarrow>
         (case proc_find_ident e i of
            None \<Rightarrow> do { buf \<leftarrow> strlcpy buf (bytes_of ''<exited>'') len; Some (-1, buf, r) }
          | Some p \<Rightarrow>
             (let r = r(p := r p + 1); pid = proc_pid e p in do {
                buf \<leftarrow> proc_name e pid buf (int_of_size len);
                r \<leftarrow> proc_rele p r;
                Some (pid, buf, r) })))"

abbreviation (input) SIGILL :: cint where "SIGILL \<equiv> 4"
abbreviation (input) SIGABRT :: cint where "SIGABRT \<equiv> 6"
abbreviation (input) SIGKILL :: cint where "SIGKILL \<equiv> 9"
abbreviation (input) SIGBUS :: cint where "SIGBUS \<equiv> 10"
abbreviation (input) SIGSEGV :: cint where "SIGSEGV \<equiv> 11"
abbreviation (input) SIGTERM :: cint where "SIGTERM \<equiv> 15"

definition sebsd_proc_check_signal ::
  "hook_env \<Rightarrow> cint \<Rightarrow> refs \<Rightarrow> cred \<Rightarrow> nat option \<Rightarrow> nat option \<Rightarrow> cint \<Rightarrow>
     (cint \<times> line list \<times> refs) option" where
  "sebsd_proc_check_signal e t r cred instigator target signum =
     (if \<not> sebsd_tracing t then Some (0, [], r)
      else if signum \<noteq> SIGKILL \<and> signum \<noteq> SIGSEGV \<and> signum \<noteq> SIGBUS \<and>
        signum \<noteq> SIGILL \<and> signum \<noteq> SIGABRT \<and> signum \<noteq> SIGTERM then Some (0, [], r)
      else do {
        (ipid, iname, r) \<leftarrow> sebsd_ident_name e r instigator (pname_array e ''iname'') pname_size;
        (tpid, tname, r) \<leftarrow> sebsd_ident_name e r target (pname_array e ''tname'') pname_size;
        iname \<leftarrow> c_str iname;
        tname \<leftarrow> c_str tname;
        Some (0, sebsd_log_debug t ''signal: %s(%d) -> %s(%d) sig=%d uid=%d''
          [A_str iname, A_int ipid, A_str tname, A_int tpid, A_int signum,
           A_int (kauth_cred_getuid e cred)], r) })"

definition sebsd_proc_check_fork :: "hook_env \<Rightarrow> cint \<Rightarrow> cred \<Rightarrow> proc \<Rightarrow> verdict" where
  "sebsd_proc_check_fork e t cred proc1 =
     (if \<not> sebsd_tracing t then Some (0, [])
      else do {
        pname \<leftarrow> sebsd_cur_name e (pname_array e ''pname'') pname_size;
        pname \<leftarrow> c_str pname;
        Some (0, sebsd_log_debug t ''fork: %s pid=%d ppid=%d uid=%d''
          [A_str pname, A_int (proc_pid e proc1), A_int (proc_pid e (current_proc e)),
           A_int (kauth_cred_getuid e cred)]) })"

definition sebsd_proc_notify_exit :: "hook_env \<Rightarrow> cint \<Rightarrow> proc \<Rightarrow> line list option" where
  "sebsd_proc_notify_exit e t proc1 =
     (if \<not> sebsd_tracing t then Some []
      else do {
        pname \<leftarrow> sebsd_proc_name e (proc_pid e proc1) (pname_array e ''pname'') pname_size;
        pname \<leftarrow> c_str pname;
        Some (sebsd_log_debug t ''exit: %s pid=%d'' [A_str pname, A_int (proc_pid e proc1)]) })"

section \<open>spawn.c\<close>

abbreviation (input) CS_VALID :: uint32 where "CS_VALID \<equiv> 0x00000001"
abbreviation (input) CS_ADHOC :: uint32 where "CS_ADHOC \<equiv> 0x00000002"
abbreviation (input) CS_INSTALLER :: uint32 where "CS_INSTALLER \<equiv> 0x00000008"
abbreviation (input) CS_HARD :: uint32 where "CS_HARD \<equiv> 0x00000100"
abbreviation (input) CS_KILL :: uint32 where "CS_KILL \<equiv> 0x00000200"
abbreviation (input) CS_RESTRICT :: uint32 where "CS_RESTRICT \<equiv> 0x00000800"
abbreviation (input) CS_RUNTIME :: uint32 where "CS_RUNTIME \<equiv> 0x00010000"
abbreviation (input) CS_PLATFORM_BINARY :: uint32 where "CS_PLATFORM_BINARY \<equiv> 0x04000000"
abbreviation (input) CS_DEBUGGED :: uint32 where "CS_DEBUGGED \<equiv> 0x10000000"
abbreviation (input) CS_SIGNED :: uint32 where "CS_SIGNED \<equiv> 0x20000000"

text \<open>The locals of \<open>sebsd_csflag_bits\<close>: the buffer, the offset of \<open>p\<close> in it, \<open>left\<close>, \<open>first\<close>.\<close>

record cursor =
  cu_buf :: "byte list"
  cu_p :: nat
  cu_left :: size_t
  cu_first :: bool

text \<open>\<open>if (left > 1) { *p++ = c; left--; }\<close>.\<close>

definition cu_put :: "byte \<Rightarrow> cursor \<Rightarrow> cursor option" where
  "cu_put c s =
     (if cu_left s > 1 then
        (if cu_p s < length (cu_buf s)
         then Some (s\<lparr>cu_buf := (cu_buf s)[cu_p s := c], cu_p := cu_p s + 1, cu_left := cu_left s - 1\<rparr>)
         else None)
      else Some s)"

definition CSFLAG_BIT :: "uint32 \<Rightarrow> uint32 \<Rightarrow> char \<Rightarrow> cursor \<Rightarrow> cursor option" where
  "CSFLAG_BIT flags m name s =
     (if flags AND m \<noteq> 0 then do {
        s \<leftarrow> (if \<not> cu_first s then cu_put (of_char CHR '','') s else Some s);
        s \<leftarrow> cu_put (of_char name) s;
        Some (s\<lparr>cu_first := False\<rparr>) }
      else Some s)"

definition sebsd_csflag_bits :: "uint32 \<Rightarrow> byte list \<Rightarrow> size_t \<Rightarrow> byte list option" where
  "sebsd_csflag_bits flags buf len = do {
     buf \<leftarrow> put_byte buf 0 0;
     s \<leftarrow> Some \<lparr>cu_buf = buf, cu_p = 0, cu_left = len, cu_first = True\<rparr>;
     s \<leftarrow> CSFLAG_BIT flags CS_VALID CHR ''V'' s;
     s \<leftarrow> CSFLAG_BIT flags CS_ADHOC CHR ''A'' s;
     s \<leftarrow> CSFLAG_BIT flags CS_SIGNED CHR ''S'' s;
     s \<leftarrow> CSFLAG_BIT flags CS_HARD CHR ''H'' s;
     s \<leftarrow> CSFLAG_BIT flags CS_KILL CHR ''K'' s;
     s \<leftarrow> CSFLAG_BIT flags CS_RUNTIME CHR ''R'' s;
     s \<leftarrow> CSFLAG_BIT flags CS_RESTRICT CHR ''T'' s;
     s \<leftarrow> CSFLAG_BIT flags CS_DEBUGGED CHR ''D'' s;
     s \<leftarrow> CSFLAG_BIT flags CS_PLATFORM_BINARY CHR ''P'' s;
     s \<leftarrow> CSFLAG_BIT flags CS_INSTALLER CHR ''I'' s;
     put_byte (cu_buf s) (of_nat (cu_p s)) 0 }"

definition sebsd_trace_exec :: "hook_env \<Rightarrow> cint \<Rightarrow> cred \<Rightarrow> uint32 \<Rightarrow> line list option" where
  "sebsd_trace_exec e t cred flags = do {
     pname \<leftarrow> sebsd_cur_name e (pname_array e ''pname'') pname_size;
     sig \<leftarrow> sebsd_csflag_bits flags (local_array e ''sig'' 32) 32;
     pname \<leftarrow> c_str pname;
     sig \<leftarrow> c_str sig;
     Some (sebsd_log_debug t ''exec: %s pid=%d uid=%d cs=0x%x(%s)''
       [A_str pname, A_int (sebsd_cur_pid e), A_int (kauth_cred_getuid e cred), A_int flags,
        A_str sig]) }"

definition sebsd_spawn_check_exec ::
  "hook_env \<Rightarrow> cint \<Rightarrow> cred \<Rightarrow> opaque \<Rightarrow> opaque \<Rightarrow> opaque \<Rightarrow> opaque \<Rightarrow> opaque \<Rightarrow> opaque \<Rightarrow>
     uint32 option \<Rightarrow> opaque \<Rightarrow> size_t \<Rightarrow> verdict" where
  "sebsd_spawn_check_exec e t cred vp scriptvp vnodelabel scriptlabel execlabel cnp csflags
     macpolicyattr macpolicyattrlen =
     (if sebsd_tracing t then do {
        l \<leftarrow> sebsd_trace_exec e t cred (case csflags of Some f \<Rightarrow> f | None \<Rightarrow> 0);
        Some (0, l) }
      else Some (0, []))"

definition sebsd_spawn_notify_exec_complete :: "hook_env \<Rightarrow> cint \<Rightarrow> proc \<Rightarrow> line list option" where
  "sebsd_spawn_notify_exec_complete e t p =
     (if \<not> sebsd_tracing t then Some []
      else do {
        pname \<leftarrow> sebsd_cur_name e (pname_array e ''pname'') pname_size;
        pname \<leftarrow> c_str pname;
        Some (sebsd_log_debug t ''exec complete: %s pid=%d''
          [A_str pname, A_int (sebsd_cur_pid e)]) })"

section \<open>net.c\<close>

abbreviation (input) AF_UNIX :: byte where "AF_UNIX \<equiv> 1"
abbreviation (input) AF_INET :: byte where "AF_INET \<equiv> 2"
abbreviation (input) AF_INET6 :: byte where "AF_INET6 \<equiv> 30"

text \<open>What \<open>snprintf\<close> prints for \<open>%u\<close> (and \<open>%d\<close> of a value that is not negative) and \<open>%02x\<close>.\<close>

fun dec :: "nat \<Rightarrow> byte list" where
  "dec n = (if n < 10 then [48 + of_nat n] else dec (n div 10) @ [48 + of_nat (n mod 10)])"

declare dec.simps [simp del]

definition hex_digit :: "nat \<Rightarrow> byte" where
  "hex_digit d = (if d < 10 then 48 + of_nat d else 87 + of_nat d)"

definition hex2 :: "byte \<Rightarrow> byte list" where
  "hex2 b = [hex_digit (unat b div 16), hex_digit (unat b mod 16)]"

text \<open>\<open>snprintf\<close> into an array: the text it formats, truncated to the size with its nul.\<close>

definition snprintf :: "byte list \<Rightarrow> size_t \<Rightarrow> byte list \<Rightarrow> byte list option" where
  "snprintf dst len formatted = strlcpy dst formatted len"

definition field :: "byte list \<Rightarrow> nat \<Rightarrow> nat \<Rightarrow> byte list option" where
  "field obj off n = (if off + n \<le> length obj then Some (take n (drop off obj)) else None)"

definition ntohs :: "byte list \<Rightarrow> nat" where
  "ntohs b = unat (b ! 0) * 256 + unat (b ! 1)"

text \<open>The address is the kernel's \<open>sockaddr\<close>: \<open>sa_len\<close>, \<open>sa_family\<close>, then the family's fields.\<close>

definition addr_host :: "byte list \<Rightarrow> byte list \<Rightarrow> byte list option" where
  "addr_host addr host = do {
     host \<leftarrow> put_byte host 0 0;
     fam \<leftarrow> field addr 1 1;
     (if fam ! 0 = AF_INET then do {
        a \<leftarrow> field addr 4 4;
        port \<leftarrow> field addr 2 2;
        snprintf host 64 (dec (unat (a ! 0)) @ bytes_of ''.'' @ dec (unat (a ! 1)) @ bytes_of ''.'' @
          dec (unat (a ! 2)) @ bytes_of ''.'' @ dec (unat (a ! 3)) @ bytes_of '':'' @ dec (ntohs port)) }
      else if fam ! 0 = AF_INET6 then do {
        a \<leftarrow> field addr 8 16;
        snprintf host 64 (hex2 (a ! 0) @ hex2 (a ! 1) @ bytes_of '':'' @ hex2 (a ! 2) @ hex2 (a ! 3) @
          bytes_of '':'' @ hex2 (a ! 4) @ hex2 (a ! 5) @ bytes_of '':'' @ hex2 (a ! 6) @ hex2 (a ! 7) @
          bytes_of '':'' @ hex2 (a ! 8) @ hex2 (a ! 9) @ bytes_of '':'' @ hex2 (a ! 10) @ hex2 (a ! 11) @
          bytes_of '':'' @ hex2 (a ! 12) @ hex2 (a ! 13) @ bytes_of '':'' @ hex2 (a ! 14) @ hex2 (a ! 15)) }
      else if fam ! 0 = AF_UNIX then strlcpy host (bytes_of ''<unix>'') 64
      else snprintf host 64 (bytes_of ''af='' @ dec (unat (fam ! 0)))) }"

definition sebsd_socket_check_create ::
  "hook_env \<Rightarrow> cint \<Rightarrow> cred \<Rightarrow> cint \<Rightarrow> cint \<Rightarrow> cint \<Rightarrow> verdict" where
  "sebsd_socket_check_create e t cred domain1 type1 protocol =
     (if \<not> sebsd_tracing t then Some (0, [])
      else do {
        pname \<leftarrow> sebsd_cur_name e (pname_array e ''pname'') pname_size;
        pname \<leftarrow> c_str pname;
        Some (0, sebsd_log_debug t ''socket create: %s pid=%d domain=%d type=%d proto=%d''
          [A_str pname, A_int (sebsd_cur_pid e), A_int domain1, A_int type1, A_int protocol]) })"

definition sebsd_socket_check_connect ::
  "hook_env \<Rightarrow> cint \<Rightarrow> cred \<Rightarrow> opaque \<Rightarrow> opaque \<Rightarrow> byte list option \<Rightarrow> verdict" where
  "sebsd_socket_check_connect e t cred so socklabel addr =
     (if \<not> sebsd_tracing t \<or> addr = None then Some (0, [])
      else do {
        pname \<leftarrow> sebsd_cur_name e (pname_array e ''pname'') pname_size;
        addr \<leftarrow> addr;
        host \<leftarrow> addr_host addr (local_array e ''host'' 64);
        pname \<leftarrow> c_str pname;
        host \<leftarrow> c_str host;
        Some (0, sebsd_log_debug t ''connect: %s pid=%d -> %s uid=%d''
          [A_str pname, A_int (sebsd_cur_pid e), A_str host,
           A_int (kauth_cred_getuid e cred)]) })"

definition sebsd_socket_check_listen :: "hook_env \<Rightarrow> cint \<Rightarrow> cred \<Rightarrow> opaque \<Rightarrow> opaque \<Rightarrow> verdict" where
  "sebsd_socket_check_listen e t cred so socklabel =
     (if \<not> sebsd_tracing t then Some (0, [])
      else do {
        pname \<leftarrow> sebsd_cur_name e (pname_array e ''pname'') pname_size;
        pname \<leftarrow> c_str pname;
        Some (0, sebsd_log_debug t ''listen: %s pid=%d uid=%d''
          [A_str pname, A_int (sebsd_cur_pid e), A_int (kauth_cred_getuid e cred)]) })"

section \<open>tty.c\<close>

definition sebsd_pty_notify_grant ::
  "hook_env \<Rightarrow> cint \<Rightarrow> proc \<Rightarrow> opaque \<Rightarrow> cint \<Rightarrow> opaque \<Rightarrow> line list option" where
  "sebsd_pty_notify_grant e t p tp dev label1 =
     (if \<not> sebsd_tracing t then Some []
      else do {
        pname \<leftarrow> sebsd_proc_name e (proc_pid e p) (pname_array e ''pname'') pname_size;
        pname \<leftarrow> c_str pname;
        Some (sebsd_log_debug t ''pty grant: %s pid=%d dev=%d,%d''
          [A_str pname, A_int (proc_pid e p), A_int (major e dev), A_int (minor e dev)]) })"

end
