(* ===== verification/Spawn_Sig.thy ===== *)
theory Spawn_Sig imports Hooks begin

text \<open>
  \<open>sebsd_csflag_bits\<close> (\<open>kext/spawn.c\<close>) writes the letters of the set flags, separated by commas, as far as
  the buffer holds them: its loop over a cursor equals a reference on lists.
\<close>

section \<open>The reference\<close>

definition sig_table :: "(uint32 \<times> char) list" where
  "sig_table = [(CS_VALID, CHR ''V''), (CS_ADHOC, CHR ''A''), (CS_SIGNED, CHR ''S''),
     (CS_HARD, CHR ''H''), (CS_KILL, CHR ''K''), (CS_RUNTIME, CHR ''R''), (CS_RESTRICT, CHR ''T''),
     (CS_DEBUGGED, CHR ''D''), (CS_PLATFORM_BINARY, CHR ''P''), (CS_INSTALLER, CHR ''I'')]"

definition sig_letters :: "(uint32 \<times> char) list \<Rightarrow> uint32 \<Rightarrow> char list" where
  "sig_letters tab flags = map snd (filter (\<lambda>(m, c). flags AND m \<noteq> 0) tab)"

fun commas :: "char list \<Rightarrow> byte list" where
  "commas [] = []"
| "commas [x] = [of_char x]"
| "commas (x # y # xs) = of_char x # of_char CHR '','' # commas (y # xs)"

lemma commas_snoc:
  "commas (xs @ [y]) = commas xs @ (if xs = [] then [of_char y] else [of_char CHR '','', of_char y])"
  by (induction xs rule: commas.induct) auto

lemma commas_nil [simp]: "commas xs = [] \<longleftrightarrow> xs = []"
  by (cases xs rule: commas.cases) auto

section \<open>The cursor\<close>

text \<open>The ten uses of the macro as a loop over the table.\<close>

fun csflag_loop :: "uint32 \<Rightarrow> (uint32 \<times> char) list \<Rightarrow> cursor \<Rightarrow> cursor option" where
  "csflag_loop flags [] s = Some s"
| "csflag_loop flags ((m, c) # tab) s = do { s \<leftarrow> CSFLAG_BIT flags m c s; csflag_loop flags tab s }"

lemma csflag_bits_loop:
  "sebsd_csflag_bits flags buf len = do {
     buf \<leftarrow> put_byte buf 0 0;
     s \<leftarrow> csflag_loop flags sig_table \<lparr>cu_buf = buf, cu_p = 0, cu_left = len, cu_first = True\<rparr>;
     put_byte (cu_buf s) (of_nat (cu_p s)) 0 }"
  by (simp add: sebsd_csflag_bits_def sig_table_def)

text \<open>
  The cursor after the stream \<open>w\<close>, in a buffer of \<open>n\<close> bytes of which \<open>len\<close> may be used: it holds
  what of the stream fits before the nul.
\<close>

definition written :: "nat \<Rightarrow> size_t \<Rightarrow> byte list \<Rightarrow> cursor \<Rightarrow> bool" where
  "written n len w s \<longleftrightarrow> length (cu_buf s) = n \<and> cu_p s = min (length w) (unat len - 1) \<and>
     unat (cu_left s) = unat len - cu_p s \<and> take (cu_p s) (cu_buf s) = take (unat len - 1) w"

lemma left_more: "cu_left s > 1 \<longleftrightarrow> 1 < unat (cu_left s)"
  by (simp add: word_less_nat_alt)

lemma written_put:
  assumes "written n len w s" "0 < unat len" "unat len \<le> n"
  shows "\<exists>s'. cu_put c s = Some s' \<and> written n len (w @ [c]) s' \<and> cu_first s' = cu_first s"
proof (cases "1 < unat (cu_left s)")
  case False
  then show ?thesis using assms by (auto simp: cu_put_def left_more written_def)
next
  case True
  then have p: "cu_p s = length w" "length w < unat len - 1" using assms by (auto simp: written_def)
  let ?b = "(cu_buf s)[cu_p s := c]"
  have "unat len < 2 ^ LENGTH(64)" by (rule unsigned_less)
  then have l: "cu_p s < length (cu_buf s)" using p assms by (simp add: written_def)
  have "take (Suc (cu_p s)) ?b = take (cu_p s) (cu_buf s) @ [c]"
    using l by (simp add: take_Suc_conv_app_nth)
  also have "take (cu_p s) (cu_buf s) = w" using assms(1) p by (simp add: written_def)
  finally have t: "take (Suc (cu_p s)) ?b = w @ [c]" .
  have u: "unat (cu_left s - 1) = unat (cu_left s) - 1" using True by (simp add: unat_minus_one unat_gt_0 [symmetric])
  show ?thesis using True l p t u assms by (auto simp: cu_put_def left_more written_def)
qed

lemma written_bit:
  assumes "written n len (commas xs) s" "cu_first s = (xs = [])" "0 < unat len" "unat len \<le> n"
  shows "\<exists>s'. CSFLAG_BIT flags m c s = Some s' \<and>
    written n len (commas (xs @ (if flags AND m \<noteq> 0 then [c] else []))) s' \<and>
    cu_first s' = (xs @ (if flags AND m \<noteq> 0 then [c] else []) = [])"
proof (cases "flags AND m \<noteq> 0")
  case False
  then show ?thesis using assms by (simp add: CSFLAG_BIT_def)
next
  case True
  let ?w = "if xs = [] then commas xs else commas xs @ [of_char CHR '','']"
  obtain s1 where s1: "(if \<not> cu_first s then cu_put (of_char CHR '','') s else Some s) = Some s1"
    "written n len ?w s1"
    using written_put [OF assms(1,3,4)] assms(1,2) by (cases "xs = []") auto
  obtain s2 where s2: "cu_put (of_char c) s1 = Some s2" "written n len (?w @ [of_char c]) s2"
    using written_put [OF s1(2) assms(3,4)] by blast
  have "?w @ [of_char c] = commas (xs @ [c])" by (simp add: commas_snoc)
  then show ?thesis using s1 s2 True by (auto simp: CSFLAG_BIT_def written_def)
qed

lemma written_loop:
  assumes "written n len (commas xs) s" "cu_first s = (xs = [])" "0 < unat len" "unat len \<le> n"
  shows "\<exists>s'. csflag_loop flags tab s = Some s' \<and> written n len (commas (xs @ sig_letters tab flags)) s'"
  using assms(1,2)
proof (induction tab arbitrary: xs s)
  case Nil
  then show ?case by (simp add: sig_letters_def)
next
  case (Cons e tab)
  obtain m c where e: "e = (m, c)" by (cases e)
  obtain s' where s': "CSFLAG_BIT flags m c s = Some s'"
    "written n len (commas (xs @ (if flags AND m \<noteq> 0 then [c] else []))) s'"
    "cu_first s' = (xs @ (if flags AND m \<noteq> 0 then [c] else []) = [])"
    using written_bit [OF Cons.prems assms(3,4)] by blast
  have "(xs @ (if flags AND m \<noteq> 0 then [c] else [])) @ sig_letters tab flags =
      xs @ sig_letters (e # tab) flags"
    using e by (simp add: sig_letters_def)
  then show ?case using Cons.IH [OF s'(2,3)] s'(1) e by simp
qed

lemma commas_nonzero:
  assumes "list_all (\<lambda>c. (of_char c :: byte) \<noteq> 0) xs"
  shows "0 \<notin> set (commas xs)"
  using assms by (induction xs rule: commas.induct) auto

lemma letters_nonzero: "list_all (\<lambda>c. (of_char c :: byte) \<noteq> 0) (sig_letters sig_table flags)"
  by (auto simp: list_all_iff sig_letters_def sig_table_def)

lemma csflag_bits_text:
  assumes "len \<noteq> 0" "unat len \<le> length buf"
  shows "\<exists>b. sebsd_csflag_bits flags buf len = Some b \<and> length b = length buf \<and>
    c_str b = Some (take (unat len - 1) (commas (sig_letters sig_table flags)))"
proof -
  have p: "0 < unat len" using assms(1) by (simp add: unat_gt_0)
  let ?b = "buf[0 := 0]" and ?w = "commas (sig_letters sig_table flags)"
  have "0 < length buf" using p assms(2) by linarith
  then have b: "put_byte buf 0 0 = Some ?b" by (simp add: put_byte_def)
  have "written (length buf) len (commas []) \<lparr>cu_buf = ?b, cu_p = 0, cu_left = len, cu_first = True\<rparr>"
    by (simp add: written_def)
  from written_loop [OF this _ p assms(2), of flags sig_table] obtain s where
    s: "csflag_loop flags sig_table \<lparr>cu_buf = ?b, cu_p = 0, cu_left = len, cu_first = True\<rparr> = Some s"
    and w: "written (length buf) len ?w s" by auto
  have "unat len < 2 ^ LENGTH(64)" by (rule unsigned_less)
  then have l: "cu_p s < length (cu_buf s)" "length (cu_buf s) = length buf" "cu_p s < 2 ^ 64"
    using w p assms(2) by (auto simp: written_def min_less_iff_disj)
  then have u: "unat (of_nat (cu_p s) :: size_t) = cu_p s" by (simp add: unat_of_nat)
  have r: "sebsd_csflag_bits flags buf len = Some ((cu_buf s)[cu_p s := 0])"
    unfolding csflag_bits_loop b using s l u by (simp add: put_byte_def)
  let ?t = "take (unat len - 1) ?w"
  have "(cu_buf s)[cu_p s := 0] = take (cu_p s) (cu_buf s) @ 0 # drop (Suc (cu_p s)) (cu_buf s)"
    using l by (simp add: upd_conv_take_nth_drop)
  also have "take (cu_p s) (cu_buf s) = ?t" using w unfolding written_def by blast
  finally have e: "(cu_buf s)[cu_p s := 0] = ?t @ 0 # drop (Suc (cu_p s)) (cu_buf s)" .
  have "0 \<notin> set ?t" using commas_nonzero [OF letters_nonzero] by (auto dest: in_set_takeD)
  then have "c_str ((cu_buf s)[cu_p s := 0]) = Some ?t" unfolding e by (simp add: c_str_def takeWhile_zero)
  then show ?thesis using r l by simp
qed

lemma length_commas: "length (commas xs) = 2 * length xs - 1"
  by (induction xs rule: commas.induct) auto

lemma length_letters: "length (sig_letters tab flags) \<le> length tab"
  by (simp add: sig_letters_def)

end
