(* ===== verification/Net_Addr.thy ===== *)
theory Net_Addr imports Hooks begin

text \<open>
  The address text of \<open>sebsd_socket_check_connect\<close> (\<open>kext/net.c\<close>): whatever bytes the address holds,
  the 64 byte array takes the whole text, which is the reference rendering of the address.
\<close>

section \<open>The reference rendering\<close>

fun joined :: "byte \<Rightarrow> byte list list \<Rightarrow> byte list" where
  "joined sep [] = []"
| "joined sep [x] = x"
| "joined sep (x # y # xs) = x @ sep # joined sep (y # xs)"

definition addr_text :: "byte list \<Rightarrow> byte list" where
  "addr_text a =
     (if a ! 1 = AF_INET then
        joined (of_char CHR ''.'') (map (\<lambda>i. dec (unat (a ! (4 + i)))) [0..<4]) @
        of_char CHR '':'' # dec (256 * unat (a ! 2) + unat (a ! 3))
      else if a ! 1 = AF_INET6 then
        joined (of_char CHR '':'') (map (\<lambda>i. hex2 (a ! (8 + 2 * i)) @ hex2 (a ! (9 + 2 * i))) [0..<8])
      else if a ! 1 = AF_UNIX then bytes_of ''<unix>''
      else bytes_of ''af='' @ dec (unat (a ! 1)))"

text \<open>A \<open>sockaddr\<close> holds the fields of its family.\<close>

definition addr_ok :: "byte list \<Rightarrow> bool" where
  "addr_ok a \<longleftrightarrow> 2 \<le> length a \<and> (a ! 1 = AF_INET \<longrightarrow> 8 \<le> length a) \<and> (a ! 1 = AF_INET6 \<longrightarrow> 24 \<le> length a)"

section \<open>Lengths\<close>

lemma length_dec: "n < 10 ^ k \<Longrightarrow> length (dec n) \<le> max 1 k"
proof (induction k arbitrary: n)
  case 0
  then show ?case by (simp add: dec.simps)
next
  case (Suc k)
  show ?case
  proof (cases "n < 10")
    case True
    then show ?thesis by (simp add: dec.simps)
  next
    case False
    then have "k \<noteq> 0" using Suc.prems by (cases k) simp_all
    moreover have "n div 10 < 10 ^ k" using Suc.prems by (simp add: div_less_iff_less_mult mult.commute)
    ultimately show ?thesis using Suc.IH [of "n div 10"] False by (simp add: dec.simps [of n] max_def)
  qed
qed

lemma digit_nonzero: "d < 10 \<Longrightarrow> (48 + of_nat d :: byte) \<noteq> 0"
proof -
  assume "d < 10"
  then have "unat (48 + of_nat d :: byte) = 48 + d" by (simp add: unat_word_ariths unat_of_nat)
  then show ?thesis by (metis add_is_0 unat_eq_zero zero_neq_numeral)
qed

lemma dec_nonzero: "0 \<notin> set (dec n)"
proof (induction n rule: dec.induct)
  case (1 n)
  then show ?case using digit_nonzero [of n] digit_nonzero [of "n mod 10"] by (simp add: dec.simps [of n])
qed

lemma byte_bound: "unat (b :: byte) < 256"
proof -
  have "unat b < 2 ^ LENGTH(8)" by (rule unsigned_less)
  then show ?thesis by simp
qed

lemma length_dec_byte: "length (dec (unat (b :: byte))) \<le> 3"
  using length_dec [of "unat b" 3] byte_bound [of b] by simp

lemma length_dec_short: "length (dec (256 * unat (a :: byte) + unat (b :: byte))) \<le> 5"
proof -
  have "unat a < 256" "unat b < 256" by (rule byte_bound)+
  then show ?thesis using length_dec [of "256 * unat a + unat b" 5] by simp
qed

lemma hex_nonzero: "0 \<notin> set (hex2 b)"
proof -
  have "hex_digit d \<noteq> 0" if "d < 16" for d
  proof -
    have "unat (hex_digit d) \<noteq> 0" using that
      by (auto simp: hex_digit_def unat_word_ariths unat_of_nat)
    then show ?thesis by auto
  qed
  moreover have "unat b div 16 < 16" using byte_bound [of b] by linarith
  ultimately show ?thesis by (simp add: hex2_def)
qed

section \<open>The text fits\<close>

lemma snprintf_text:
  assumes "length s < 64" "0 \<notin> set s" "length host = 64"
  shows "\<exists>b. snprintf host 64 s = Some b \<and> c_str b = Some s"
proof -
  have "Option.bind (strlcpy host s 64) c_str = Some s"
    using strlcpy_text [of 64 host s] assms by simp
  then show ?thesis by (auto simp: snprintf_def bind_eq_Some_conv)
qed

lemma joined_four: "joined s (map f [0..<4]) = f 0 @ s # f 1 @ s # f 2 @ s # f 3"
  by (simp add: upt_rec numeral_eq_Suc)

lemma joined_eight:
  "joined s (map f [0..<8]) =
    f 0 @ s # f 1 @ s # f 2 @ s # f 3 @ s # f 4 @ s # f 5 @ s # f 6 @ s # f 7"
  by (simp add: upt_rec numeral_eq_Suc)

lemma field_nth:
  "off + n \<le> length obj \<Longrightarrow> \<exists>f. field obj off n = Some f \<and> (\<forall>i < n. f ! i = obj ! (off + i))"
  by (simp add: field_def)

lemma chars: "bytes_of ''.'' = [of_char CHR ''.'']" "bytes_of '':'' = [of_char CHR '':'']"
  by (simp_all add: bytes_of_def)

lemma addr_text_fits:
  assumes "addr_ok a"
  shows "length (addr_text a) < 64 \<and> 0 \<notin> set (addr_text a)"
proof -
  have d: "length (dec (unat (a ! i))) \<le> 3" for i by (rule length_dec_byte)
  have p: "length (dec (256 * unat (a ! 2) + unat (a ! 3))) \<le> 5" by (rule length_dec_short)
  have h: "length (hex2 b) = 2" for b by (simp add: hex2_def)
  show ?thesis
    using d [of 4] d [of 5] d [of 6] d [of 7] d [of 1] p
    by (simp add: addr_text_def joined_four joined_eight dec_nonzero hex_nonzero h bytes_of_def)
qed

lemma addr_host_text:
  assumes "addr_ok a" "length host = 64"
  shows "\<exists>b. addr_host a host = Some b \<and> c_str b = Some (addr_text a)"
proof -
  have l: "2 \<le> length a" using assms(1) by (simp add: addr_ok_def)
  obtain fam where fam: "field a 1 1 = Some fam" "fam ! 0 = a ! 1"
    using field_nth [of 1 1 a] l by auto
  have h0: "put_byte host 0 0 = Some (host[0 := 0])" using assms(2) by (simp add: put_byte_def)
  note fits = addr_text_fits [OF assms(1)]
  have fmt: "\<exists>b. snprintf (host[0 := 0]) 64 (addr_text a) = Some b \<and> c_str b = Some (addr_text a)"
    using snprintf_text [of "addr_text a" "host[0 := 0]"] fits assms(2) by simp
  consider (inet) "a ! 1 = AF_INET" | (inet6) "a ! 1 = AF_INET6" | (unix) "a ! 1 = AF_UNIX"
    | (other) "a ! 1 \<noteq> AF_INET" "a ! 1 \<noteq> AF_INET6" "a ! 1 \<noteq> AF_UNIX" by blast
  then show ?thesis
  proof cases
    case inet
    then have "8 \<le> length a" using assms(1) by (simp add: addr_ok_def)
    then obtain v port where v: "field a 4 4 = Some v" "\<forall>i < 4. v ! i = a ! (4 + i)"
      and p: "field a 2 2 = Some port" "\<forall>i < 2. port ! i = a ! (2 + i)"
      using field_nth [of 4 4 a] field_nth [of 2 2 a] by auto
    have "port ! 0 = a ! 2" "port ! 1 = a ! 3"
      using p(2) [rule_format, of 0] p(2) [rule_format, of 1] by simp_all
    then have "addr_host a host = snprintf (host[0 := 0]) 64 (addr_text a)"
      using inet fam h0 v p(1)
      by (simp add: addr_host_def addr_text_def joined_four ntohs_def chars mult.commute)
    then show ?thesis using fmt by simp
  next
    case inet6
    then have "24 \<le> length a" using assms(1) by (simp add: addr_ok_def)
    then obtain v where "field a 8 16 = Some v" "\<forall>i < 16. v ! i = a ! (8 + i)"
      using field_nth [of 8 16 a] by auto
    then have "addr_host a host = snprintf (host[0 := 0]) 64 (addr_text a)"
      using inet6 fam h0 by (simp add: addr_host_def addr_text_def joined_eight chars)
    then show ?thesis using fmt by simp
  next
    case unix
    then have "addr_host a host = strlcpy (host[0 := 0]) (addr_text a) 64"
      using fam h0 by (simp add: addr_host_def addr_text_def)
    then show ?thesis using fmt by (simp add: snprintf_def)
  next
    case other
    then have "addr_host a host = snprintf (host[0 := 0]) 64 (addr_text a)"
      using fam h0 by (simp add: addr_host_def addr_text_def)
    then show ?thesis using fmt by simp
  qed
qed

end
