(* ===== verification/Hooks_Spec.thy ===== *)
theory Hooks_Spec imports Spawn_Sig Net_Addr begin

text \<open>
  What the observational hooks promise: they grant every operation, they touch only their own
  arrays, they print at most one line, and only with tracing on; with tracing off they call nothing
  in the kernel. The promise is a locale, which every hook interprets.
\<close>

section \<open>What the kernel's accessors promise\<close>

text \<open>
  \<open>proc_selfname\<close> and \<open>proc_name\<close> stay inside the size they are given and end the name with a nul.
\<close>

definition names_ok :: "hook_env \<Rightarrow> bool" where
  "names_ok e \<longleftrightarrow>
     (\<forall>buf len. 0 < sint len \<and> unat len \<le> length buf \<longrightarrow>
        holds_str (proc_selfname e buf len) (length buf)) \<and>
     (\<forall>pid buf len. 0 < sint len \<and> unat len \<le> length buf \<longrightarrow>
        holds_str (proc_name e pid buf len) (length buf))"

lemma names_okD:
  assumes "names_ok e" "0 < sint len" "unat len \<le> length buf"
  shows "holds_str (proc_selfname e buf len) (length buf)" "holds_str (proc_name e pid buf len) (length buf)"
  using assms unfolding names_ok_def by blast+

lemma cur_nameE:
  assumes "names_ok e"
  obtains b s where "sebsd_cur_name e (pname_array e v) pname_size = Some b" "c_str b = Some s"
proof -
  have "holds_str (sebsd_cur_name e (pname_array e v) pname_size) (MAXCOMLEN + 1)"
    using names_okD(1) [OF assms, of 17 "pname_array e v"] by (simp add: sebsd_cur_name_def)
  then show thesis using that by (auto elim: holds_strE)
qed

lemma proc_nameE:
  assumes "names_ok e"
  obtains b s where "proc_name e pid (pname_array e v) (int_of_size pname_size) = Some b"
    "length b = MAXCOMLEN + 1" "c_str b = Some s"
proof -
  have "holds_str (proc_name e pid (pname_array e v) (int_of_size pname_size)) (MAXCOMLEN + 1)"
    using names_okD(2) [OF assms, of 17 "pname_array e v"] by simp
  then show thesis using that by (auto elim: holds_strE)
qed

lemma name_size_facts:
  "name_size \<noteq> 0" "unat name_size = SEBSD_TRACE_NAME_MAX"
  by (simp_all add: SEBSD_TRACE_NAME_MAX_def)

lemma cnp_nameE:
  assumes "cnp_ok cnp"
  obtains b where "sebsd_cnp_name cnp (name_array e v) name_size = Some b"
    "c_str b = Some (cnp_text cnp SEBSD_TRACE_NAME_MAX)"
proof -
  have "Option.bind (sebsd_cnp_name cnp (name_array e v) name_size) c_str =
      Some (cnp_text cnp SEBSD_TRACE_NAME_MAX)"
    using cnp_name_text(1) [OF assms, of name_size "name_array e v"] name_size_facts by simp
  then show thesis using that by (auto simp: bind_eq_Some_conv)
qed

section \<open>The contract of a hook\<close>

text \<open>A line of the trace, and a hook that returns nothing.\<close>

definition trace_line :: "line \<Rightarrow> bool" where
  "trace_line l \<longleftrightarrow> take 17 (fst l) = ''SEDarwin: debug: ''"

definition void_hook :: "(hook_env \<Rightarrow> cint \<Rightarrow> 'a \<Rightarrow> line list option) \<Rightarrow> hook_env \<Rightarrow> cint \<Rightarrow> 'a \<Rightarrow> verdict" where
  "void_hook H e t a = map_option (Pair 0) (H e t a)"

locale observer =
  fixes H :: "hook_env \<Rightarrow> cint \<Rightarrow> 'a \<Rightarrow> verdict" and ok :: "'a \<Rightarrow> bool"
  assumes quiet: "H e 0 a = Some (0, [])"
    and loud: "names_ok e \<Longrightarrow> ok a \<Longrightarrow> t \<noteq> 0 \<Longrightarrow>
      \<exists>ls. H e t a = Some (0, ls) \<and> length ls \<le> 1 \<and> list_all trace_line ls"
begin

lemma granted:
  assumes "t \<noteq> 0 \<longrightarrow> names_ok e \<and> ok a"
  shows "\<exists>ls. H e t a = Some (0, ls) \<and> length ls \<le> (if t = 0 then 0 else 1) \<and> list_all trace_line ls"
  using assms quiet loud by (cases "t = 0") auto

lemma never_denies: "t \<noteq> 0 \<longrightarrow> names_ok e \<and> ok a \<Longrightarrow> \<exists>ls. H e t a = Some (0, ls)"
  using granted by blast

end

text \<open>
  A hook that only asks about the running process does not go through the process list: it does
  not depend on \<open>proc_name\<close> or \<open>proc_find_ident\<close>, which take its lock.
\<close>

locale self_observer = observer H ok
  for H :: "hook_env \<Rightarrow> cint \<Rightarrow> 'a \<Rightarrow> verdict" and ok :: "'a \<Rightarrow> bool" +
  assumes self_only: "H (e\<lparr>proc_name := f, proc_find_ident := g\<rparr>) t a = H e t a"
begin

text \<open>So it needs of the kernel no more than \<open>proc_selfname\<close>.\<close>

lemma loud_self:
  assumes "ok a" "t \<noteq> 0"
    and "\<And>buf len. 0 < sint len \<Longrightarrow> unat len \<le> length buf \<Longrightarrow>
      holds_str (proc_selfname e buf len) (length buf)"
  shows "\<exists>ls. H e t a = Some (0, ls) \<and> length ls \<le> 1 \<and> list_all trace_line ls"
proof -
  let ?f = "\<lambda>pid buf len. Some (replicate (length buf) 0 :: byte list)"
  have h: "holds_str (Some (replicate (length buf) 0 :: byte list)) (length buf)"
    if "0 < sint len" "unat len \<le> length buf" for buf :: "byte list" and len :: cint
  proof -
    have "len \<noteq> 0" using that(1) by auto
    then have "0 < length buf" using that(2) unat_gt_0 [of len] by linarith
    then show ?thesis by (intro holds_strI) simp_all
  qed
  have "names_ok (e\<lparr>proc_name := ?f, proc_find_ident := \<lambda>_. None\<rparr>)"
    unfolding names_ok_def by (intro conjI allI impI) (auto intro: h assms(3))
  from loud [OF this assms(1,2)] show ?thesis by (simp only: self_only)
qed

end

section \<open>Every hook keeps it\<close>

lemma log_debug_line [simp]:
  "length (sebsd_log_debug t f as) \<le> Suc 0" "list_all trace_line (sebsd_log_debug t f as)"
  by (simp_all add: sebsd_log_debug_def kprintf_def trace_line_def SEBSD_TAG_def)

lemma self_update [simp]:
  "local_array (e\<lparr>proc_name := f, proc_find_ident := g\<rparr>) = local_array e"
  "sebsd_cur_name (e\<lparr>proc_name := f, proc_find_ident := g\<rparr>) = sebsd_cur_name e"
  "sebsd_cur_pid (e\<lparr>proc_name := f, proc_find_ident := g\<rparr>) = sebsd_cur_pid e"
  by (simp_all add: fun_eq_iff local_array_def sebsd_cur_name_def sebsd_cur_pid_def)

lemmas vnode_hooks = sebsd_vnode_check_open_def sebsd_trace_open_def sebsd_vnode_check_create_def
  sebsd_vnode_check_unlink_def sebsd_trace_component_def sebsd_vnode_check_rename_def
  sebsd_trace_rename_def
lemmas empty_hooks = sebsd_vnode_check_readlink_def sebsd_vnode_check_getattr_def
  sebsd_vnode_check_setattrlist_def sebsd_vnode_label_associate_extattr_def
  sebsd_vnode_label_copy_def

interpretation vnode_open: self_observer
  "\<lambda>e t (cred, vp, l, m). sebsd_vnode_check_open e t cred vp l m" "\<lambda>_. True"
proof (unfold_locales, goal_cases)
  case (2 e a t)
  then show ?case
    by (rule_tac cur_nameE [of e "''pname''"])
      (auto simp: vnode_hooks sebsd_tracing_def split: prod.splits)
qed (auto simp: vnode_hooks sebsd_tracing_def)

interpretation vnode_create: self_observer
  "\<lambda>e t (cred, dvp, dl, cnp, vap). sebsd_vnode_check_create e t cred dvp dl cnp vap"
  "\<lambda>(cred, dvp, dl, cnp, vap). cnp_ok cnp"
proof (unfold_locales, goal_cases)
  case (2 e a t)
  obtain cred dvp dl cnp vap where a: "a = (cred, dvp, dl, cnp, vap)" by (cases a)
  obtain b where "sebsd_cnp_name cnp (name_array e ''name'') name_size = Some b"
    "c_str b = Some (cnp_text cnp SEBSD_TRACE_NAME_MAX)"
    using 2(2) a cnp_nameE [of cnp e "''name''"] by auto
  then show ?case using 2 a
    by (rule_tac cur_nameE [of e "''pname''"])
      (auto simp: vnode_hooks sebsd_tracing_def)
qed (auto simp: vnode_hooks sebsd_tracing_def)

interpretation vnode_unlink: self_observer
  "\<lambda>e t (cred, dvp, dl, vp, l, cnp). sebsd_vnode_check_unlink e t cred dvp dl vp l cnp"
  "\<lambda>(cred, dvp, dl, vp, l, cnp). cnp_ok cnp"
proof (unfold_locales, goal_cases)
  case (2 e a t)
  obtain cred dvp dl vp l cnp where a: "a = (cred, dvp, dl, vp, l, cnp)" by (cases a)
  obtain b where "sebsd_cnp_name cnp (name_array e ''name'') name_size = Some b"
    "c_str b = Some (cnp_text cnp SEBSD_TRACE_NAME_MAX)"
    using 2(2) a cnp_nameE [of cnp e "''name''"] by auto
  then show ?case using 2 a
    by (rule_tac cur_nameE [of e "''pname''"])
      (auto simp: vnode_hooks sebsd_tracing_def)
qed (auto simp: vnode_hooks sebsd_tracing_def)

interpretation vnode_rename: self_observer
  "\<lambda>e t (cred, fcnp, tcnp, fdvp, fdl, fvp, fl, tdvp, tdl, tvp, tl).
     sebsd_vnode_check_rename e t cred fdvp fdl fvp fl fcnp tdvp tdl tvp tl tcnp"
  "\<lambda>(cred, fcnp, tcnp, _). cnp_ok fcnp \<and> cnp_ok tcnp"
proof (unfold_locales, goal_cases)
  case (2 e a t)
  obtain cred fcnp tcnp fdvp fdl fvp fl tdvp tdl tvp tl where
    a: "a = (cred, fcnp, tcnp, fdvp, fdl, fvp, fl, tdvp, tdl, tvp, tl)" by (metis surj_pair)
  have f: "cnp_ok fcnp" "cnp_ok tcnp" using 2(2) a by simp_all
  obtain b where b: "sebsd_cnp_name fcnp (name_array e ''from'') name_size = Some b"
    "c_str b = Some (cnp_text fcnp SEBSD_TRACE_NAME_MAX)"
    using f(1) by (rule cnp_nameE)
  obtain c where c: "sebsd_cnp_name tcnp (name_array e ''to'') name_size = Some c"
    "c_str c = Some (cnp_text tcnp SEBSD_TRACE_NAME_MAX)"
    using f(2) by (rule cnp_nameE)
  obtain p s where "sebsd_cur_name e (pname_array e ''pname'') pname_size = Some p" "c_str p = Some s"
    using 2(1) by (rule cur_nameE)
  with b c show ?case using 2(3) unfolding a by (simp add: vnode_hooks sebsd_tracing_def)
qed (auto simp: vnode_hooks sebsd_tracing_def)

text \<open>The slots whose body is empty.\<close>

interpretation vnode_readlink: self_observer
  "\<lambda>e t (cred, vp, l). sebsd_vnode_check_readlink e t cred vp l" "\<lambda>_. True"
  by unfold_locales (auto simp: empty_hooks)

interpretation vnode_getattr: self_observer
  "\<lambda>e t (c1, c2, vp, l, va). sebsd_vnode_check_getattr e t c1 c2 vp l va" "\<lambda>_. True"
  by unfold_locales (auto simp: empty_hooks)

interpretation vnode_setattrlist: self_observer
  "\<lambda>e t (cred, vp, l, al). sebsd_vnode_check_setattrlist e t cred vp l al" "\<lambda>_. True"
  by unfold_locales (auto simp: empty_hooks)

interpretation vnode_extattr: self_observer
  "\<lambda>e t (mp, ml, vp, l). sebsd_vnode_label_associate_extattr e t mp ml vp l" "\<lambda>_. True"
  by unfold_locales (auto simp: empty_hooks)

interpretation vnode_label_copy: self_observer
  "void_hook (\<lambda>e t (src, dest). sebsd_vnode_label_copy e t src dest)" "\<lambda>_. True"
  by unfold_locales (auto simp: empty_hooks void_hook_def)

text \<open>The hooks that name the running process.\<close>

lemmas self_hooks = sebsd_file_check_mmap_def sebsd_proc_check_fork_def
  sebsd_socket_check_create_def sebsd_socket_check_listen_def sebsd_spawn_notify_exec_complete_def
  sebsd_spawn_check_exec_def sebsd_trace_exec_def sebsd_socket_check_connect_def

interpretation file_mmap: self_observer
  "\<lambda>e t (cred, fg, l, prot, flags, pos, maxprot).
     sebsd_file_check_mmap e t cred fg l prot flags pos maxprot" "\<lambda>_. True"
proof (unfold_locales, goal_cases)
  case (2 e a t)
  then show ?case
    by (rule_tac cur_nameE [of e "''pname''"]) (auto simp: self_hooks sebsd_tracing_def split: prod.splits)
qed (auto simp: self_hooks sebsd_tracing_def)

interpretation proc_fork: self_observer
  "\<lambda>e t (cred, p). sebsd_proc_check_fork e t cred p" "\<lambda>_. True"
proof (unfold_locales, goal_cases)
  case (2 e a t)
  then show ?case
    by (rule_tac cur_nameE [of e "''pname''"]) (auto simp: self_hooks sebsd_tracing_def split: prod.splits)
qed (auto simp: self_hooks sebsd_tracing_def)

interpretation socket_create: self_observer
  "\<lambda>e t (cred, dom, ty, pr). sebsd_socket_check_create e t cred dom ty pr" "\<lambda>_. True"
proof (unfold_locales, goal_cases)
  case (2 e a t)
  then show ?case
    by (rule_tac cur_nameE [of e "''pname''"]) (auto simp: self_hooks sebsd_tracing_def split: prod.splits)
qed (auto simp: self_hooks sebsd_tracing_def)

interpretation socket_listen: self_observer
  "\<lambda>e t (cred, so, l). sebsd_socket_check_listen e t cred so l" "\<lambda>_. True"
proof (unfold_locales, goal_cases)
  case (2 e a t)
  then show ?case
    by (rule_tac cur_nameE [of e "''pname''"]) (auto simp: self_hooks sebsd_tracing_def split: prod.splits)
qed (auto simp: self_hooks sebsd_tracing_def)

interpretation exec_complete: self_observer
  "void_hook sebsd_spawn_notify_exec_complete" "\<lambda>_. True"
proof (unfold_locales, goal_cases)
  case (2 e a t)
  then show ?case
    by (rule_tac cur_nameE [of e "''pname''"])
      (auto simp: self_hooks sebsd_tracing_def void_hook_def)
qed (auto simp: self_hooks sebsd_tracing_def void_hook_def)

interpretation spawn_exec: self_observer
  "\<lambda>e t (cred, vp, svp, vl, sl, el, cnp, fl, at, an).
     sebsd_spawn_check_exec e t cred vp svp vl sl el cnp fl at an" "\<lambda>_. True"
proof (unfold_locales, goal_cases)
  case (2 e a t)
  obtain cred vp svp vl sl el cnp fl at an where
    a: "a = (cred, vp, svp, vl, sl, el, cnp, fl, at, an)" by (metis surj_pair)
  obtain b where "sebsd_csflag_bits (case fl of Some f \<Rightarrow> f | None \<Rightarrow> 0) (local_array e ''sig'' 32) 32 = Some b"
    "c_str b \<noteq> None"
    using csflag_bits_text [of 32 "local_array e ''sig'' 32"] by fastforce
  then show ?case using 2 a
    by (rule_tac cur_nameE [of e "''pname''"]) (auto simp: self_hooks sebsd_tracing_def)
qed (auto simp: self_hooks sebsd_tracing_def)

interpretation socket_connect: self_observer
  "\<lambda>e t (cred, so, l, addr). sebsd_socket_check_connect e t cred so l addr"
  "\<lambda>(cred, so, l, addr). pred_option addr_ok addr"
proof (unfold_locales, goal_cases)
  case (2 e a t)
  obtain cred so l addr where a: "a = (cred, so, l, addr)" by (cases a)
  show ?case
  proof (cases addr)
    case None
    then show ?thesis using a by (simp add: self_hooks)
  next
    case (Some x)
    then obtain b where "addr_host x (local_array e ''host'' 64) = Some b" "c_str b = Some (addr_text x)"
      using addr_host_text [of x "local_array e ''host'' 64"] 2(2) a by auto
    then show ?thesis using 2 a Some
      by (rule_tac cur_nameE [of e "''pname''"]) (auto simp: self_hooks sebsd_tracing_def)
  qed
qed (auto simp: self_hooks sebsd_tracing_def)

text \<open>The hooks that name another process.\<close>

lemmas other_hooks = sebsd_file_check_library_validation_def sebsd_proc_notify_exit_def
  sebsd_pty_notify_grant_def sebsd_proc_name_def

interpretation file_libval: observer
  "\<lambda>e t (p, fg, off, msg, sz). sebsd_file_check_library_validation e t p fg off msg sz" "\<lambda>_. True"
proof (unfold_locales, goal_cases)
  case (2 e a t)
  then show ?case
    by (rule_tac proc_nameE [of e "proc_pid e (fst a)" "''pname''"])
      (auto simp: other_hooks sebsd_tracing_def split: prod.splits)
qed (auto simp: other_hooks sebsd_tracing_def)

interpretation proc_exit: observer "void_hook sebsd_proc_notify_exit" "\<lambda>_. True"
proof (unfold_locales, goal_cases)
  case (2 e a t)
  then show ?case
    by (rule_tac proc_nameE [of e "proc_pid e a" "''pname''"])
      (auto simp: other_hooks sebsd_tracing_def void_hook_def)
qed (auto simp: other_hooks sebsd_tracing_def void_hook_def)

interpretation pty_grant: observer
  "void_hook (\<lambda>e t (p, tp, dev, l). sebsd_pty_notify_grant e t p tp dev l)" "\<lambda>_. True"
proof (unfold_locales, goal_cases)
  case (2 e a t)
  then show ?case
    by (rule_tac proc_nameE [of e "proc_pid e (fst a)" "''pname''"])
      (auto simp: other_hooks sebsd_tracing_def void_hook_def split: prod.splits)
qed (auto simp: other_hooks sebsd_tracing_def void_hook_def)

end
