(* ===== verification/Mac_ABI.thy ===== *)
theory Mac_ABI imports Prelude begin

text \<open>
  The hand-declared ABI of the MAC framework (\<open>include/sedarwin/sebsd_mac.h\<close>): the policy
  descriptor laid out by the rules of the target's C ABI, and the operations vector of 335 pointer
  slots, in the order of the header. The layout guards of the header are theorems here.
\<close>

section \<open>Layout of a C structure (LP64)\<close>

datatype c_type = C_int | C_uint | C_pointer

fun c_size :: "c_type \<Rightarrow> nat" where
  "c_size C_int = 4"
| "c_size C_uint = 4"
| "c_size C_pointer = 8"

text \<open>Each member at the next offset that is a multiple of its size, which is its alignment.\<close>

definition align_up :: "nat \<Rightarrow> nat \<Rightarrow> nat" where
  "align_up n a = (n + a - 1) div a * a"

fun layout :: "nat \<Rightarrow> (string \<times> c_type) list \<Rightarrow> (string \<times> nat) list" where
  "layout off [] = []"
| "layout off ((f, t) # fs) =
     (let o1 = align_up off (c_size t) in (f, o1) # layout (o1 + c_size t) fs)"

fun end_offset :: "nat \<Rightarrow> (string \<times> c_type) list \<Rightarrow> nat" where
  "end_offset off [] = off"
| "end_offset off ((f, t) # fs) = end_offset (align_up off (c_size t) + c_size t) fs"

definition struct_align :: "(string \<times> c_type) list \<Rightarrow> nat" where
  "struct_align fs = foldr (\<lambda>(f, t). max (c_size t)) fs 1"

definition struct_size :: "(string \<times> c_type) list \<Rightarrow> nat" where
  "struct_size fs = align_up (end_offset 0 fs) (struct_align fs)"

definition offset_of :: "(string \<times> c_type) list \<Rightarrow> string \<Rightarrow> nat option" where
  "offset_of fs f = map_of (layout 0 fs) f"

section \<open>struct mac_policy_conf\<close>

definition mac_policy_conf_fields :: "(string \<times> c_type) list" where
  "mac_policy_conf_fields =
    [(''mpc_name'', C_pointer), (''mpc_fullname'', C_pointer), (''mpc_labelnames'', C_pointer),
     (''mpc_labelname_count'', C_uint), (''mpc_ops'', C_pointer), (''mpc_loadtime_flags'', C_int),
     (''mpc_field_off'', C_pointer), (''mpc_runtime_flags'', C_int), (''mpc_list'', C_pointer),
     (''mpc_data'', C_pointer)]"

definition MPC_LOADTIME_FLAG_NOTLATE :: cint where "MPC_LOADTIME_FLAG_NOTLATE = 0x00000001"
definition MPC_LOADTIME_FLAG_UNLOADOK :: cint where "MPC_LOADTIME_FLAG_UNLOADOK = 0x00000002"
definition MPC_LOADTIME_FLAG_LABELMBUFS :: cint where "MPC_LOADTIME_FLAG_LABELMBUFS = 0x00000004"
definition MPC_RUNTIME_FLAG_REGISTERED :: cint where "MPC_RUNTIME_FLAG_REGISTERED = 0x00000001"
definition MAC_MAX_MANAGED_NAMESPACES :: nat where "MAC_MAX_MANAGED_NAMESPACES = 4"

section \<open>struct mac_policy_ops\<close>

text \<open>
  A slot without a signature of its own (\<open>mpo_hook_t *f\<close>), or one of type \<open>f_t\<close>.
\<close>

datatype mpo_member = Hook string | Typed string

fun member_name :: "mpo_member \<Rightarrow> string" where
  "member_name (Hook f) = f"
| "member_name (Typed f) = f"

fun is_typed :: "mpo_member \<Rightarrow> bool" where
  "is_typed (Hook f) = False"
| "is_typed (Typed f) = True"

definition mac_policy_ops_1 :: "mpo_member list" where
  "mac_policy_ops_1 =
   [Hook ''mpo_audit_check_postselect'', Hook ''mpo_audit_check_preselect'',
    Hook ''mpo_graft_check_graft'', Hook ''mpo_graft_check_ungraft'',
    Hook ''mpo_graft_notify_graft'', Hook ''mpo_graft_notify_ungraft'',
    Hook ''mpo_cred_check_label_update_execve'', Hook ''mpo_cred_check_label_update'',
    Hook ''mpo_cred_check_visible'', Hook ''mpo_cred_label_associate_fork'',
    Hook ''mpo_cred_label_associate_kernel'', Hook ''mpo_cred_label_associate'',
    Hook ''mpo_cred_label_associate_user'', Hook ''mpo_cred_label_destroy'',
    Hook ''mpo_cred_label_externalize_audit'', Hook ''mpo_cred_label_externalize'',
    Hook ''mpo_cred_label_init'', Hook ''mpo_cred_label_internalize'',
    Hook ''mpo_cred_label_update_execve'', Hook ''mpo_cred_label_update'',
    Hook ''mpo_devfs_label_associate_device'', Hook ''mpo_devfs_label_associate_directory'',
    Hook ''mpo_devfs_label_copy'', Hook ''mpo_devfs_label_destroy'', Hook ''mpo_devfs_label_init'',
    Hook ''mpo_devfs_label_update'', Hook ''mpo_file_check_change_offset'',
    Hook ''mpo_file_check_create'', Hook ''mpo_file_check_dup'', Hook ''mpo_file_check_fcntl'',
    Hook ''mpo_file_check_get_offset'', Hook ''mpo_file_check_get'',
    Hook ''mpo_file_check_inherit'', Hook ''mpo_file_check_ioctl'', Hook ''mpo_file_check_lock'',
    Hook ''mpo_file_check_mmap_downgrade'', Typed ''mpo_file_check_mmap'',
    Hook ''mpo_file_check_receive'', Hook ''mpo_file_check_set'', Hook ''mpo_file_label_init'',
    Hook ''mpo_file_label_destroy'', Hook ''mpo_file_label_associate'',
    Hook ''mpo_file_notify_close'', Hook ''mpo_proc_check_launch_constraints'',
    Hook ''mpo_proc_notify_service_port_derive'', Hook ''mpo_proc_check_set_task_exception_port'',
    Hook ''mpo_proc_check_set_thread_exception_port'', Hook ''mpo_reserved08'',
    Hook ''mpo_reserved09'', Hook ''mpo_reserved10'', Hook ''mpo_reserved11'',
    Hook ''mpo_reserved12'', Hook ''mpo_reserved13'', Hook ''mpo_reserved14'',
    Hook ''mpo_reserved15'', Hook ''mpo_reserved16'', Hook ''mpo_reserved17'',
    Hook ''mpo_reserved18'', Hook ''mpo_reserved19'', Hook ''mpo_reserved20'',
    Hook ''mpo_reserved21'', Hook ''mpo_reserved22'', Hook ''mpo_necp_check_open'',
    Hook ''mpo_necp_check_client_action'', Typed ''mpo_file_check_library_validation'',
    Hook ''mpo_vnode_notify_setacl'', Hook ''mpo_vnode_notify_setattrlist'',
    Hook ''mpo_vnode_notify_setextattr'', Hook ''mpo_vnode_notify_setflags'',
    Hook ''mpo_vnode_notify_setmode'', Hook ''mpo_vnode_notify_setowner'',
    Hook ''mpo_vnode_notify_setutimes'', Hook ''mpo_vnode_notify_truncate'',
    Hook ''mpo_vnode_check_getattrlistbulk'', Hook ''mpo_proc_check_get_task_special_port'',
    Hook ''mpo_proc_check_set_task_special_port'', Hook ''mpo_vnode_notify_swap'',
    Hook ''mpo_vnode_notify_unlink'', Hook ''mpo_vnode_check_swap'',
    Hook ''mpo_vnode_check_dataprotect_set'', Hook ''mpo_mount_check_remount_with_flags'',
    Hook ''mpo_mount_notify_mount'', Hook ''mpo_vnode_check_copyfile'',
    Hook ''mpo_mount_check_quotactl'', Hook ''mpo_mount_check_fsctl'',
    Hook ''mpo_mount_check_getattr'', Hook ''mpo_mount_check_label_update'',
    Hook ''mpo_mount_check_mount'', Hook ''mpo_mount_check_remount'',
    Hook ''mpo_mount_check_setattr'', Hook ''mpo_mount_check_stat'',
    Hook ''mpo_mount_check_umount'', Hook ''mpo_mount_label_associate'',
    Hook ''mpo_mount_label_destroy'', Hook ''mpo_mount_label_externalize'',
    Hook ''mpo_mount_label_init'', Hook ''mpo_mount_label_internalize'',
    Hook ''mpo_proc_check_expose_task_with_flavor'', Hook ''mpo_proc_check_get_task_with_flavor'',
    Hook ''mpo_proc_check_task_id_token_get_task'', Hook ''mpo_pipe_check_ioctl'',
    Hook ''mpo_pipe_check_kqfilter'', Hook ''mpo_reserved41'', Hook ''mpo_pipe_check_read'',
    Hook ''mpo_pipe_check_select'', Hook ''mpo_pipe_check_stat'', Hook ''mpo_pipe_check_write'',
    Hook ''mpo_pipe_label_associate'', Hook ''mpo_reserved42'', Hook ''mpo_pipe_label_destroy'',
    Hook ''mpo_reserved43'', Hook ''mpo_pipe_label_init'', Hook ''mpo_reserved44'',
    Hook ''mpo_proc_check_syscall_mac'', Typed ''mpo_policy_destroy'', Typed ''mpo_policy_init'',
    Typed ''mpo_policy_initbsd'', Hook ''mpo_policy_syscall'',
    Hook ''mpo_system_check_sysctlbyname'', Hook ''mpo_proc_check_inherit_ipc_ports'',
    Typed ''mpo_vnode_check_rename'', Hook ''mpo_kext_check_query'',
    Typed ''mpo_proc_notify_exec_complete'', Hook ''mpo_proc_notify_cs_invalidated'',
    Hook ''mpo_proc_check_syscall_unix'', Hook ''mpo_reserved45'',
    Hook ''mpo_proc_check_set_host_special_port'', Hook ''mpo_proc_check_set_host_exception_port'',
    Hook ''mpo_exc_action_check_exception_send'', Hook ''mpo_exc_action_label_associate'',
    Hook ''mpo_exc_action_label_populate'', Hook ''mpo_exc_action_label_destroy'',
    Hook ''mpo_exc_action_label_init'', Hook ''mpo_exc_action_label_update'',
    Hook ''mpo_vnode_check_trigger_resolve'', Hook ''mpo_mount_check_mount_late'',
    Hook ''mpo_mount_check_snapshot_mount'', Hook ''mpo_vnode_notify_reclaim'',
    Hook ''mpo_skywalk_flow_check_connect'', Hook ''mpo_skywalk_flow_check_listen'',
    Hook ''mpo_posixsem_check_create'', Hook ''mpo_posixsem_check_open'',
    Hook ''mpo_posixsem_check_post'', Hook ''mpo_posixsem_check_unlink'',
    Hook ''mpo_posixsem_check_wait'', Hook ''mpo_posixsem_label_associate'',
    Hook ''mpo_posixsem_label_destroy'', Hook ''mpo_posixsem_label_init'',
    Hook ''mpo_posixshm_check_create'']"

definition mac_policy_ops_2 :: "mpo_member list" where
  "mac_policy_ops_2 =
   [Hook ''mpo_posixshm_check_mmap'', Hook ''mpo_posixshm_check_open'',
    Hook ''mpo_posixshm_check_stat'', Hook ''mpo_posixshm_check_truncate'',
    Hook ''mpo_posixshm_check_unlink'', Hook ''mpo_posixshm_label_associate'',
    Hook ''mpo_posixshm_label_destroy'', Hook ''mpo_posixshm_label_init'',
    Hook ''mpo_proc_check_debug'', Typed ''mpo_proc_check_fork'', Hook ''mpo_reserved61'',
    Hook ''mpo_reserved62'', Hook ''mpo_proc_check_getaudit'', Hook ''mpo_proc_check_getauid'',
    Hook ''mpo_reserved63'', Hook ''mpo_proc_check_mprotect'', Hook ''mpo_proc_check_sched'',
    Hook ''mpo_proc_check_setaudit'', Hook ''mpo_proc_check_setauid'',
    Hook ''mpo_proc_check_iopolicysys'', Typed ''mpo_proc_check_signal'',
    Hook ''mpo_proc_check_wait'', Hook ''mpo_proc_check_dump_core'',
    Hook ''mpo_proc_check_remote_thread_create'', Hook ''mpo_socket_check_accept'',
    Hook ''mpo_socket_check_accepted'', Hook ''mpo_socket_check_bind'',
    Typed ''mpo_socket_check_connect'', Typed ''mpo_socket_check_create'', Hook ''mpo_reserved46'',
    Hook ''mpo_reserved47'', Hook ''mpo_reserved48'', Typed ''mpo_socket_check_listen'',
    Hook ''mpo_socket_check_receive'', Hook ''mpo_socket_check_received'', Hook ''mpo_reserved49'',
    Hook ''mpo_socket_check_send'', Hook ''mpo_socket_check_stat'',
    Hook ''mpo_socket_check_setsockopt'', Hook ''mpo_socket_check_getsockopt'',
    Hook ''mpo_proc_check_get_movable_control_port'',
    Hook ''mpo_proc_check_dyld_process_info_notify_register'', Hook ''mpo_proc_check_setuid'',
    Hook ''mpo_proc_check_seteuid'', Hook ''mpo_proc_check_setreuid'',
    Hook ''mpo_proc_check_setgid'', Hook ''mpo_proc_check_setegid'',
    Hook ''mpo_proc_check_setregid'', Hook ''mpo_proc_check_settid'',
    Hook ''mpo_proc_check_memorystatus_control'', Hook ''mpo_reserved60'',
    Hook ''mpo_thread_telemetry'', Hook ''mpo_iokit_check_open_service'',
    Hook ''mpo_system_check_acct'', Hook ''mpo_system_check_audit'',
    Hook ''mpo_system_check_auditctl'', Hook ''mpo_system_check_auditon'',
    Hook ''mpo_system_check_host_priv'', Hook ''mpo_system_check_nfsd'',
    Hook ''mpo_system_check_reboot'', Hook ''mpo_system_check_settime'',
    Hook ''mpo_system_check_swapoff'', Hook ''mpo_system_check_swapon'',
    Hook ''mpo_socket_check_ioctl'', Hook ''mpo_sysvmsg_label_associate'',
    Hook ''mpo_sysvmsg_label_destroy'', Hook ''mpo_sysvmsg_label_init'',
    Hook ''mpo_sysvmsg_label_recycle'', Hook ''mpo_sysvmsq_check_enqueue'',
    Hook ''mpo_sysvmsq_check_msgrcv'', Hook ''mpo_sysvmsq_check_msgrmid'',
    Hook ''mpo_sysvmsq_check_msqctl'', Hook ''mpo_sysvmsq_check_msqget'',
    Hook ''mpo_sysvmsq_check_msqrcv'', Hook ''mpo_sysvmsq_check_msqsnd'',
    Hook ''mpo_sysvmsq_label_associate'', Hook ''mpo_sysvmsq_label_destroy'',
    Hook ''mpo_sysvmsq_label_init'', Hook ''mpo_sysvmsq_label_recycle'',
    Hook ''mpo_sysvsem_check_semctl'', Hook ''mpo_sysvsem_check_semget'',
    Hook ''mpo_sysvsem_check_semop'', Hook ''mpo_sysvsem_label_associate'',
    Hook ''mpo_sysvsem_label_destroy'', Hook ''mpo_sysvsem_label_init'',
    Hook ''mpo_sysvsem_label_recycle'', Hook ''mpo_sysvshm_check_shmat'',
    Hook ''mpo_sysvshm_check_shmctl'', Hook ''mpo_sysvshm_check_shmdt'',
    Hook ''mpo_sysvshm_check_shmget'', Hook ''mpo_sysvshm_label_associate'',
    Hook ''mpo_sysvshm_label_destroy'', Hook ''mpo_sysvshm_label_init'',
    Hook ''mpo_sysvshm_label_recycle'', Typed ''mpo_proc_notify_exit'',
    Hook ''mpo_mount_check_snapshot_revert'', Typed ''mpo_vnode_check_getattr'',
    Hook ''mpo_mount_check_snapshot_create'', Hook ''mpo_mount_check_snapshot_delete'',
    Hook ''mpo_vnode_check_clone'', Hook ''mpo_proc_check_get_cs_info'',
    Hook ''mpo_proc_check_set_cs_info'', Hook ''mpo_iokit_check_hid_control'',
    Hook ''mpo_vnode_check_access'', Hook ''mpo_vnode_check_chdir'',
    Hook ''mpo_vnode_check_chroot'', Typed ''mpo_vnode_check_create'',
    Hook ''mpo_vnode_check_deleteextattr'', Hook ''mpo_vnode_check_exchangedata'',
    Typed ''mpo_vnode_check_exec'', Hook ''mpo_vnode_check_getattrlist'',
    Hook ''mpo_vnode_check_getextattr'', Hook ''mpo_vnode_check_ioctl'',
    Hook ''mpo_vnode_check_kqfilter'', Hook ''mpo_vnode_check_label_update'',
    Hook ''mpo_vnode_check_link'', Hook ''mpo_vnode_check_listextattr'',
    Typed ''mpo_vnode_check_lookup'', Typed ''mpo_vnode_check_open'',
    Hook ''mpo_vnode_check_read'', Hook ''mpo_vnode_check_readdir'',
    Typed ''mpo_vnode_check_readlink'', Hook ''mpo_vnode_check_rename_from'',
    Hook ''mpo_vnode_check_rename_to'', Hook ''mpo_vnode_check_revoke'',
    Hook ''mpo_vnode_check_select'', Typed ''mpo_vnode_check_setattrlist'',
    Hook ''mpo_vnode_check_setextattr'', Hook ''mpo_vnode_check_setflags'',
    Hook ''mpo_vnode_check_setmode'', Hook ''mpo_vnode_check_setowner'',
    Hook ''mpo_vnode_check_setutimes'', Hook ''mpo_vnode_check_stat'',
    Hook ''mpo_vnode_check_truncate'', Typed ''mpo_vnode_check_unlink'',
    Hook ''mpo_vnode_check_write'', Hook ''mpo_vnode_label_associate_devfs'',
    Typed ''mpo_vnode_label_associate_extattr'', Hook ''mpo_vnode_label_associate_file'',
    Hook ''mpo_vnode_label_associate_pipe'', Hook ''mpo_vnode_label_associate_posixsem'',
    Hook ''mpo_vnode_label_associate_posixshm'', Hook ''mpo_vnode_label_associate_singlelabel'',
    Hook ''mpo_vnode_label_associate_socket'', Typed ''mpo_vnode_label_copy'',
    Hook ''mpo_vnode_label_destroy'', Hook ''mpo_vnode_label_externalize_audit'',
    Hook ''mpo_vnode_label_externalize'', Hook ''mpo_vnode_label_init'',
    Hook ''mpo_vnode_label_internalize'']"

definition mac_policy_ops_3 :: "mpo_member list" where
  "mac_policy_ops_3 =
   [Hook ''mpo_vnode_label_recycle'', Hook ''mpo_vnode_label_store'',
    Hook ''mpo_vnode_label_update_extattr'', Hook ''mpo_vnode_label_update'',
    Hook ''mpo_vnode_notify_create'', Hook ''mpo_vnode_check_signature'',
    Hook ''mpo_vnode_check_uipc_bind'', Hook ''mpo_vnode_check_uipc_connect'',
    Hook ''mpo_proc_check_run_cs_invalid'', Hook ''mpo_proc_check_suspend_resume'',
    Hook ''mpo_thread_userret'', Hook ''mpo_iokit_check_set_properties'',
    Hook ''mpo_vnode_check_supplemental_signature'', Hook ''mpo_vnode_check_searchfs'',
    Hook ''mpo_priv_check'', Hook ''mpo_priv_grant'', Hook ''mpo_proc_check_map_anon'',
    Hook ''mpo_vnode_check_fsgetpath'', Hook ''mpo_iokit_check_open'',
    Hook ''mpo_proc_check_ledger'', Hook ''mpo_vnode_notify_rename'',
    Hook ''mpo_vnode_check_setacl'', Hook ''mpo_vnode_notify_deleteextattr'',
    Hook ''mpo_system_check_kas_info'', Hook ''mpo_vnode_check_lookup_preflight'',
    Hook ''mpo_vnode_notify_open'', Hook ''mpo_system_check_info'', Typed ''mpo_pty_notify_grant'',
    Hook ''mpo_pty_notify_close'', Hook ''mpo_vnode_find_sigs'', Hook ''mpo_kext_check_load'',
    Hook ''mpo_kext_check_unload'', Hook ''mpo_proc_check_proc_info'',
    Hook ''mpo_vnode_notify_link'', Hook ''mpo_iokit_check_filter_properties'',
    Hook ''mpo_iokit_check_get_property'']"

definition mac_policy_ops :: "mpo_member list" where
  "mac_policy_ops = mac_policy_ops_1 @ mac_policy_ops_2 @ mac_policy_ops_3"

definition MAC_POLICY_OPS_SLOTS :: nat where "MAC_POLICY_OPS_SLOTS = 335"

text \<open>The offset of a slot: every member is one pointer.\<close>

definition slot_fields :: "(string \<times> c_type) list" where
  "slot_fields = map (\<lambda>m. (member_name m, C_pointer)) mac_policy_ops"

section \<open>Facts about the layout\<close>

lemma align_up_pointer: "align_up (8 * n) 8 = 8 * n"
  by (simp add: align_up_def)

lemma layout_pointers:
  "layout (8 * k) (map (\<lambda>m. (member_name m, C_pointer)) ms) =
    map (\<lambda>i. (member_name (ms ! i), 8 * (k + i))) [0..<length ms]"
proof (induction ms arbitrary: k)
  case (Cons m ms)
  have "map (\<lambda>i. (member_name ((m # ms) ! i), 8 * (k + i))) [0..<length (m # ms)] =
      (member_name m, 8 * k) # map (\<lambda>i. (member_name (ms ! i), 8 * (Suc k + i))) [0..<length ms]"
    by (simp add: upt_conv_Cons map_Suc_upt [symmetric] comp_def del: upt_Suc)
  moreover have "8 * k + 8 = 8 * Suc k" by simp
  ultimately show ?case using Cons.IH [of "Suc k"]
    by (simp only: list.map layout.simps Let_def c_size.simps align_up_pointer)
qed simp

lemma end_offset_pointers:
  "end_offset (8 * k) (map (\<lambda>m. (member_name m, C_pointer)) ms) = 8 * (k + length ms)"
proof (induction ms arbitrary: k)
  case (Cons m ms)
  have "8 * k + 8 = 8 * Suc k" by simp
  then show ?case using Cons.IH [of "Suc k"]
    by (simp only: list.map end_offset.simps c_size.simps align_up_pointer list.size) simp
qed simp

lemma foldr_max_pointers:
  "foldr (\<lambda>(f, t). max (c_size t)) (map (\<lambda>m. (member_name m, C_pointer)) ms) 1 =
    (if ms = [] then 1 else 8)"
  by (induction ms) simp_all

lemma length_mac_policy_ops: "length mac_policy_ops = 335"
  by (simp add: mac_policy_ops_def mac_policy_ops_1_def mac_policy_ops_2_def mac_policy_ops_3_def)

lemma struct_size_ops: "struct_size slot_fields = 2680"
proof -
  have "mac_policy_ops \<noteq> []" using length_mac_policy_ops by auto
  then have "struct_align slot_fields = 8"
    unfolding struct_align_def slot_fields_def foldr_max_pointers by simp
  moreover have "end_offset 0 slot_fields = 8 * 335"
    using end_offset_pointers [of 0 mac_policy_ops]
    by (simp add: slot_fields_def length_mac_policy_ops)
  ultimately show ?thesis using align_up_pointer [of 335] by (simp add: struct_size_def)
qed

lemma slot_at:
  assumes "mac_policy_ops ! i = m" "i < 335"
  shows "(member_name m, 8 * i) \<in> set (layout 0 slot_fields)"
proof -
  have "layout 0 slot_fields = map (\<lambda>i. (member_name (mac_policy_ops ! i), 8 * i)) [0..<335]"
    using layout_pointers [of 0 mac_policy_ops] by (simp add: slot_fields_def length_mac_policy_ops)
  then show ?thesis using assms by auto
qed

text \<open>The typed slots, by position.\<close>

lemma typed_slots:
  "mac_policy_ops ! 36 = Typed ''mpo_file_check_mmap''"
  "mac_policy_ops ! 64 = Typed ''mpo_file_check_library_validation''"
  "mac_policy_ops ! 114 = Typed ''mpo_policy_destroy''"
  "mac_policy_ops ! 115 = Typed ''mpo_policy_init''"
  "mac_policy_ops ! 116 = Typed ''mpo_policy_initbsd''"
  "mac_policy_ops ! 120 = Typed ''mpo_vnode_check_rename''"
  "mac_policy_ops ! 122 = Typed ''mpo_proc_notify_exec_complete''"
  "mac_policy_ops ! 158 = Typed ''mpo_proc_check_fork''"
  "mac_policy_ops ! 169 = Typed ''mpo_proc_check_signal''"
  "mac_policy_ops ! 176 = Typed ''mpo_socket_check_connect''"
  "mac_policy_ops ! 177 = Typed ''mpo_socket_check_create''"
  "mac_policy_ops ! 181 = Typed ''mpo_socket_check_listen''"
  "mac_policy_ops ! 243 = Typed ''mpo_proc_notify_exit''"
  "mac_policy_ops ! 245 = Typed ''mpo_vnode_check_getattr''"
  "mac_policy_ops ! 255 = Typed ''mpo_vnode_check_create''"
  "mac_policy_ops ! 258 = Typed ''mpo_vnode_check_exec''"
  "mac_policy_ops ! 266 = Typed ''mpo_vnode_check_lookup''"
  "mac_policy_ops ! 267 = Typed ''mpo_vnode_check_open''"
  "mac_policy_ops ! 270 = Typed ''mpo_vnode_check_readlink''"
  "mac_policy_ops ! 275 = Typed ''mpo_vnode_check_setattrlist''"
  "mac_policy_ops ! 283 = Typed ''mpo_vnode_check_unlink''"
  "mac_policy_ops ! 286 = Typed ''mpo_vnode_label_associate_extattr''"
  "mac_policy_ops ! 293 = Typed ''mpo_vnode_label_copy''"
  "mac_policy_ops ! 326 = Typed ''mpo_pty_notify_grant''"
  by (simp_all add: mac_policy_ops_def nth_append mac_policy_ops_1_def mac_policy_ops_2_def
      mac_policy_ops_3_def)

lemma typed_offset:
  "mac_policy_ops ! i = Typed f \<Longrightarrow> i < 335 \<Longrightarrow> (f, 8 * i) \<in> set (layout 0 slot_fields)"
  using slot_at [of i "Typed f"] by simp

text \<open>The offsets of slots that the header asserts.\<close>

definition asserted_offsets :: "(string \<times> nat) list" where
  "asserted_offsets =
    [(''mpo_policy_destroy'', 0x390), (''mpo_policy_init'', 0x398), (''mpo_policy_initbsd'', 0x3a0)]"

text \<open>
  The offsets of all slots the policy installs. The header does not assert these; they follow from the
  order of the members, and include the asserted ones.
\<close>

definition installed_offsets :: "(string \<times> nat) list" where
  "installed_offsets =
    [(''mpo_file_check_mmap'', 0x120),
     (''mpo_file_check_library_validation'', 0x200),
     (''mpo_policy_destroy'', 0x390),
     (''mpo_policy_init'', 0x398),
     (''mpo_policy_initbsd'', 0x3a0),
     (''mpo_vnode_check_rename'', 0x3c0),
     (''mpo_proc_notify_exec_complete'', 0x3d0),
     (''mpo_proc_check_fork'', 0x4f0),
     (''mpo_proc_check_signal'', 0x548),
     (''mpo_socket_check_connect'', 0x580),
     (''mpo_socket_check_create'', 0x588),
     (''mpo_socket_check_listen'', 0x5a8),
     (''mpo_proc_notify_exit'', 0x798),
     (''mpo_vnode_check_getattr'', 0x7a8),
     (''mpo_vnode_check_create'', 0x7f8),
     (''mpo_vnode_check_exec'', 0x810),
     (''mpo_vnode_check_lookup'', 0x850),
     (''mpo_vnode_check_open'', 0x858),
     (''mpo_vnode_check_readlink'', 0x870),
     (''mpo_vnode_check_setattrlist'', 0x898),
     (''mpo_vnode_check_unlink'', 0x8d8),
     (''mpo_vnode_label_associate_extattr'', 0x8f0),
     (''mpo_vnode_label_copy'', 0x928),
     (''mpo_pty_notify_grant'', 0xa30)]"

lemma installed_offsets_in: "set installed_offsets \<subseteq> set (layout 0 slot_fields)"
  unfolding installed_offsets_def
  using typed_slots [THEN typed_offset] by simp

lemma asserted_offsets_in: "set asserted_offsets \<subseteq> set (layout 0 slot_fields)"
  using installed_offsets_in by (simp add: asserted_offsets_def installed_offsets_def)

lemma conf_size: "struct_size mac_policy_conf_fields = 80"
  by (simp add: struct_size_def struct_align_def mac_policy_conf_fields_def align_up_def)

lemma conf_layout:
  "layout 0 mac_policy_conf_fields =
     [(''mpc_name'', 0x00), (''mpc_fullname'', 0x08), (''mpc_labelnames'', 0x10),
      (''mpc_labelname_count'', 0x18), (''mpc_ops'', 0x20), (''mpc_loadtime_flags'', 0x28),
      (''mpc_field_off'', 0x30), (''mpc_runtime_flags'', 0x38), (''mpc_list'', 0x40),
      (''mpc_data'', 0x48)]"
  by code_simp

section \<open>Properties\<close>

text \<open>
  The layout guards of the header hold: the policy descriptor is 80 bytes with every field at
  the offset read from the running kernel, the operations vector is 335 slots in 2680 bytes, and the
  three slots that the header asserts are at their offsets.
\<close>

theorem mac_abi_guards:
  "struct_size mac_policy_conf_fields = 80 \<and>
   layout 0 mac_policy_conf_fields =
     [(''mpc_name'', 0x00), (''mpc_fullname'', 0x08), (''mpc_labelnames'', 0x10),
      (''mpc_labelname_count'', 0x18), (''mpc_ops'', 0x20), (''mpc_loadtime_flags'', 0x28),
      (''mpc_field_off'', 0x30), (''mpc_runtime_flags'', 0x38), (''mpc_list'', 0x40),
      (''mpc_data'', 0x48)] \<and>
   length mac_policy_ops = MAC_POLICY_OPS_SLOTS \<and> struct_size slot_fields = 2680 \<and>
   set asserted_offsets \<subseteq> set (layout 0 slot_fields)"
  using conf_size conf_layout length_mac_policy_ops [folded MAC_POLICY_OPS_SLOTS_def]
    struct_size_ops asserted_offsets_in by (intro conjI)

end
