(* ===== verification/Policy.thy ===== *)
theory Policy imports Klog Mac_ABI begin

text \<open>
  The policy module (\<open>kext/main.c\<close>, \<open>include/sedarwin/sebsd.h\<close>): the hook mask, the operations
  vector and how the mask fills it, the sysctl oids and their handlers, and registration with the
  MAC framework. The kernel's side (\<open>sysctl_handle_int\<close>, \<open>mac_policy_register\<close>,
  \<open>mac_policy_unregister\<close>) enters through what those calls return.
\<close>

section \<open>sebsd.h\<close>

definition SEBSD_HOOK_VNODE_OPEN :: cint where "SEBSD_HOOK_VNODE_OPEN = 0x00000001"
definition SEBSD_HOOK_VNODE_CREATE :: cint where "SEBSD_HOOK_VNODE_CREATE = 0x00000002"
definition SEBSD_HOOK_VNODE_UNLINK :: cint where "SEBSD_HOOK_VNODE_UNLINK = 0x00000004"
definition SEBSD_HOOK_VNODE_RENAME :: cint where "SEBSD_HOOK_VNODE_RENAME = 0x00000008"
definition SEBSD_HOOK_VNODE_LOOKUP :: cint where "SEBSD_HOOK_VNODE_LOOKUP = 0x00000010"
definition SEBSD_HOOK_VNODE_READLINK :: cint where "SEBSD_HOOK_VNODE_READLINK = 0x00000020"
definition SEBSD_HOOK_VNODE_GETATTR :: cint where "SEBSD_HOOK_VNODE_GETATTR = 0x00000040"
definition SEBSD_HOOK_VNODE_SETATTRLIST :: cint where "SEBSD_HOOK_VNODE_SETATTRLIST = 0x00000080"
definition SEBSD_HOOK_VNODE_LBL_EXTATTR :: cint where "SEBSD_HOOK_VNODE_LBL_EXTATTR = 0x00000100"
definition SEBSD_HOOK_VNODE_LBL_COPY :: cint where "SEBSD_HOOK_VNODE_LBL_COPY = 0x00000200"
definition SEBSD_HOOK_FILE_MMAP :: cint where "SEBSD_HOOK_FILE_MMAP = 0x00000400"
definition SEBSD_HOOK_FILE_LIBVAL :: cint where "SEBSD_HOOK_FILE_LIBVAL = 0x00000800"
definition SEBSD_HOOK_PROC_SIGNAL :: cint where "SEBSD_HOOK_PROC_SIGNAL = 0x00001000"
definition SEBSD_HOOK_PROC_FORK :: cint where "SEBSD_HOOK_PROC_FORK = 0x00002000"
definition SEBSD_HOOK_PROC_EXIT :: cint where "SEBSD_HOOK_PROC_EXIT = 0x00004000"
definition SEBSD_HOOK_SOCKET_CONNECT :: cint where "SEBSD_HOOK_SOCKET_CONNECT = 0x00008000"
definition SEBSD_HOOK_SOCKET_CREATE :: cint where "SEBSD_HOOK_SOCKET_CREATE = 0x00010000"
definition SEBSD_HOOK_SOCKET_LISTEN :: cint where "SEBSD_HOOK_SOCKET_LISTEN = 0x00020000"
definition SEBSD_HOOK_PTY_GRANT :: cint where "SEBSD_HOOK_PTY_GRANT = 0x00040000"
definition SEBSD_HOOK_EXEC_CHECK :: cint where "SEBSD_HOOK_EXEC_CHECK = 0x00080000"
definition SEBSD_HOOK_EXEC_COMPLETE :: cint where "SEBSD_HOOK_EXEC_COMPLETE = 0x00100000"

definition SEBSD_HOOK_UNSAFE :: cint where "SEBSD_HOOK_UNSAFE = SEBSD_HOOK_VNODE_LOOKUP"

definition SEBSD_HOOK_VNODE_CHECK :: cint where
  "SEBSD_HOOK_VNODE_CHECK = SEBSD_HOOK_VNODE_OPEN OR SEBSD_HOOK_VNODE_CREATE OR
     SEBSD_HOOK_VNODE_UNLINK OR SEBSD_HOOK_VNODE_RENAME OR SEBSD_HOOK_VNODE_READLINK OR
     SEBSD_HOOK_VNODE_GETATTR OR SEBSD_HOOK_VNODE_SETATTRLIST"
definition SEBSD_HOOK_VNODE_LABEL :: cint where
  "SEBSD_HOOK_VNODE_LABEL = SEBSD_HOOK_VNODE_LBL_EXTATTR OR SEBSD_HOOK_VNODE_LBL_COPY"
definition SEBSD_HOOK_FILE :: cint where
  "SEBSD_HOOK_FILE = SEBSD_HOOK_FILE_MMAP OR SEBSD_HOOK_FILE_LIBVAL"
definition SEBSD_HOOK_PROC :: cint where
  "SEBSD_HOOK_PROC = SEBSD_HOOK_PROC_SIGNAL OR SEBSD_HOOK_PROC_FORK OR SEBSD_HOOK_PROC_EXIT"
definition SEBSD_HOOK_SOCKET :: cint where
  "SEBSD_HOOK_SOCKET = SEBSD_HOOK_SOCKET_CONNECT OR SEBSD_HOOK_SOCKET_CREATE OR
     SEBSD_HOOK_SOCKET_LISTEN"
definition SEBSD_HOOK_PTY :: cint where "SEBSD_HOOK_PTY = SEBSD_HOOK_PTY_GRANT"
definition SEBSD_HOOK_EXEC :: cint where
  "SEBSD_HOOK_EXEC = SEBSD_HOOK_EXEC_CHECK OR SEBSD_HOOK_EXEC_COMPLETE"
definition SEBSD_HOOK_ALL :: cint where
  "SEBSD_HOOK_ALL = SEBSD_HOOK_VNODE_CHECK OR SEBSD_HOOK_VNODE_LABEL OR SEBSD_HOOK_FILE OR
     SEBSD_HOOK_PROC OR SEBSD_HOOK_SOCKET OR SEBSD_HOOK_PTY OR SEBSD_HOOK_EXEC"
definition SEBSD_HOOK_DEFAULT :: cint where "SEBSD_HOOK_DEFAULT = 0"

lemmas hook_bits =
  SEBSD_HOOK_VNODE_OPEN_def SEBSD_HOOK_VNODE_CREATE_def SEBSD_HOOK_VNODE_UNLINK_def
  SEBSD_HOOK_VNODE_RENAME_def SEBSD_HOOK_VNODE_LOOKUP_def SEBSD_HOOK_VNODE_READLINK_def
  SEBSD_HOOK_VNODE_GETATTR_def SEBSD_HOOK_VNODE_SETATTRLIST_def SEBSD_HOOK_VNODE_LBL_EXTATTR_def
  SEBSD_HOOK_VNODE_LBL_COPY_def SEBSD_HOOK_FILE_MMAP_def SEBSD_HOOK_FILE_LIBVAL_def
  SEBSD_HOOK_PROC_SIGNAL_def SEBSD_HOOK_PROC_FORK_def SEBSD_HOOK_PROC_EXIT_def
  SEBSD_HOOK_SOCKET_CONNECT_def SEBSD_HOOK_SOCKET_CREATE_def SEBSD_HOOK_SOCKET_LISTEN_def
  SEBSD_HOOK_PTY_GRANT_def SEBSD_HOOK_EXEC_CHECK_def SEBSD_HOOK_EXEC_COMPLETE_def

lemmas hook_groups =
  SEBSD_HOOK_UNSAFE_def SEBSD_HOOK_VNODE_CHECK_def SEBSD_HOOK_VNODE_LABEL_def SEBSD_HOOK_FILE_def
  SEBSD_HOOK_PROC_def SEBSD_HOOK_SOCKET_def SEBSD_HOOK_PTY_def SEBSD_HOOK_EXEC_def
  SEBSD_HOOK_ALL_def

definition SEBSD_POLICY_NAME :: string where
  "SEBSD_POLICY_NAME = ''com.beako.security.sedarwin''"
definition SEBSD_POLICY_FULLNAME :: string where
  "SEBSD_POLICY_FULLNAME = ''SEDarwin Security Extension''"
definition SEBSD_POLICY_VERSION :: string where "SEBSD_POLICY_VERSION = ''0.0.1''"
definition SEBSD_LOADTIME_FLAGS :: cint where "SEBSD_LOADTIME_FLAGS = 0"
definition SEBSD_LABELNAME_COUNT :: uint32 where "SEBSD_LABELNAME_COUNT = 0"

section \<open>The operations vector\<close>

text \<open>The members of \<open>struct mac_policy_ops\<close> that the module assigns, and what it assigns.\<close>

datatype slot =
    mpo_policy_init | mpo_policy_initbsd | mpo_policy_destroy
  | mpo_vnode_check_open | mpo_vnode_check_create | mpo_vnode_check_unlink
  | mpo_vnode_check_rename | mpo_vnode_check_lookup | mpo_vnode_check_readlink
  | mpo_vnode_check_getattr | mpo_vnode_check_setattrlist
  | mpo_vnode_label_associate_extattr | mpo_vnode_label_copy
  | mpo_file_check_mmap | mpo_file_check_library_validation
  | mpo_proc_check_signal | mpo_proc_check_fork | mpo_proc_notify_exit
  | mpo_socket_check_connect | mpo_socket_check_create | mpo_socket_check_listen
  | mpo_pty_notify_grant | mpo_vnode_check_exec | mpo_proc_notify_exec_complete

datatype hook_fn =
    F_policy_init | F_policy_initbsd | F_policy_destroy
  | F_vnode_check_open | F_vnode_check_create | F_vnode_check_unlink | F_vnode_check_rename
  | F_vnode_check_lookup | F_vnode_check_readlink | F_vnode_check_getattr
  | F_vnode_check_setattrlist | F_vnode_label_associate_extattr | F_vnode_label_copy
  | F_file_check_mmap | F_file_check_library_validation | F_proc_check_signal | F_proc_check_fork
  | F_proc_notify_exit | F_socket_check_connect | F_socket_check_create | F_socket_check_listen
  | F_pty_notify_grant | F_spawn_check_exec | F_spawn_notify_exec_complete

type_synonym ops = "slot \<Rightarrow> hook_fn option"

definition sebsd_install_lifecycle :: "ops \<Rightarrow> ops" where
  "sebsd_install_lifecycle ops = ops(
     mpo_policy_init := Some F_policy_init,
     mpo_policy_initbsd := Some F_policy_initbsd,
     mpo_policy_destroy := Some F_policy_destroy)"

text \<open>\<open>(mask & bit) ? f : NULL\<close>.\<close>

definition masked :: "cint \<Rightarrow> cint \<Rightarrow> hook_fn \<Rightarrow> hook_fn option" where
  "masked m b f = (if m AND b \<noteq> 0 then Some f else None)"

definition sebsd_install_hooks :: "ops \<Rightarrow> cint \<Rightarrow> ops" where
  "sebsd_install_hooks ops m = ops(
     mpo_vnode_check_open := masked m SEBSD_HOOK_VNODE_OPEN F_vnode_check_open,
     mpo_vnode_check_create := masked m SEBSD_HOOK_VNODE_CREATE F_vnode_check_create,
     mpo_vnode_check_unlink := masked m SEBSD_HOOK_VNODE_UNLINK F_vnode_check_unlink,
     mpo_vnode_check_rename := masked m SEBSD_HOOK_VNODE_RENAME F_vnode_check_rename,
     mpo_vnode_check_lookup := masked m SEBSD_HOOK_VNODE_LOOKUP F_vnode_check_lookup,
     mpo_vnode_check_readlink := masked m SEBSD_HOOK_VNODE_READLINK F_vnode_check_readlink,
     mpo_vnode_check_getattr := masked m SEBSD_HOOK_VNODE_GETATTR F_vnode_check_getattr,
     mpo_vnode_check_setattrlist :=
       masked m SEBSD_HOOK_VNODE_SETATTRLIST F_vnode_check_setattrlist,
     mpo_vnode_label_associate_extattr :=
       masked m SEBSD_HOOK_VNODE_LBL_EXTATTR F_vnode_label_associate_extattr,
     mpo_vnode_label_copy := masked m SEBSD_HOOK_VNODE_LBL_COPY F_vnode_label_copy,
     mpo_file_check_mmap := masked m SEBSD_HOOK_FILE_MMAP F_file_check_mmap,
     mpo_file_check_library_validation :=
       masked m SEBSD_HOOK_FILE_LIBVAL F_file_check_library_validation,
     mpo_proc_check_signal := masked m SEBSD_HOOK_PROC_SIGNAL F_proc_check_signal,
     mpo_proc_check_fork := masked m SEBSD_HOOK_PROC_FORK F_proc_check_fork,
     mpo_proc_notify_exit := masked m SEBSD_HOOK_PROC_EXIT F_proc_notify_exit,
     mpo_socket_check_connect := masked m SEBSD_HOOK_SOCKET_CONNECT F_socket_check_connect,
     mpo_socket_check_create := masked m SEBSD_HOOK_SOCKET_CREATE F_socket_check_create,
     mpo_socket_check_listen := masked m SEBSD_HOOK_SOCKET_LISTEN F_socket_check_listen,
     mpo_pty_notify_grant := masked m SEBSD_HOOK_PTY_GRANT F_pty_notify_grant,
     mpo_vnode_check_exec := masked m SEBSD_HOOK_EXEC_CHECK F_spawn_check_exec,
     mpo_proc_notify_exec_complete :=
       masked m SEBSD_HOOK_EXEC_COMPLETE F_spawn_notify_exec_complete)"

text \<open>The hook table those assignments spell out: slot, bit, function.\<close>

definition hook_table :: "(slot \<times> cint \<times> hook_fn) list" where
  "hook_table =
    [(mpo_vnode_check_open, SEBSD_HOOK_VNODE_OPEN, F_vnode_check_open),
     (mpo_vnode_check_create, SEBSD_HOOK_VNODE_CREATE, F_vnode_check_create),
     (mpo_vnode_check_unlink, SEBSD_HOOK_VNODE_UNLINK, F_vnode_check_unlink),
     (mpo_vnode_check_rename, SEBSD_HOOK_VNODE_RENAME, F_vnode_check_rename),
     (mpo_vnode_check_lookup, SEBSD_HOOK_VNODE_LOOKUP, F_vnode_check_lookup),
     (mpo_vnode_check_readlink, SEBSD_HOOK_VNODE_READLINK, F_vnode_check_readlink),
     (mpo_vnode_check_getattr, SEBSD_HOOK_VNODE_GETATTR, F_vnode_check_getattr),
     (mpo_vnode_check_setattrlist, SEBSD_HOOK_VNODE_SETATTRLIST, F_vnode_check_setattrlist),
     (mpo_vnode_label_associate_extattr, SEBSD_HOOK_VNODE_LBL_EXTATTR,
        F_vnode_label_associate_extattr),
     (mpo_vnode_label_copy, SEBSD_HOOK_VNODE_LBL_COPY, F_vnode_label_copy),
     (mpo_file_check_mmap, SEBSD_HOOK_FILE_MMAP, F_file_check_mmap),
     (mpo_file_check_library_validation, SEBSD_HOOK_FILE_LIBVAL, F_file_check_library_validation),
     (mpo_proc_check_signal, SEBSD_HOOK_PROC_SIGNAL, F_proc_check_signal),
     (mpo_proc_check_fork, SEBSD_HOOK_PROC_FORK, F_proc_check_fork),
     (mpo_proc_notify_exit, SEBSD_HOOK_PROC_EXIT, F_proc_notify_exit),
     (mpo_socket_check_connect, SEBSD_HOOK_SOCKET_CONNECT, F_socket_check_connect),
     (mpo_socket_check_create, SEBSD_HOOK_SOCKET_CREATE, F_socket_check_create),
     (mpo_socket_check_listen, SEBSD_HOOK_SOCKET_LISTEN, F_socket_check_listen),
     (mpo_pty_notify_grant, SEBSD_HOOK_PTY_GRANT, F_pty_notify_grant),
     (mpo_vnode_check_exec, SEBSD_HOOK_EXEC_CHECK, F_spawn_check_exec),
     (mpo_proc_notify_exec_complete, SEBSD_HOOK_EXEC_COMPLETE, F_spawn_notify_exec_complete)]"

section \<open>The sysctl oids\<close>

datatype ctl_kind = CTLTYPE_NODE | CTLTYPE_INT | CTLFLAG_RW | CTLFLAG_LOCKED | CTLFLAG_OID2

datatype oid_parent = sysctl__children | sebsd_sysctl_children

datatype oid_var =
    V_children | V_trace | V_hooks | V_unsafe | V_lookup_count | V_lookup_recursed
  | V_lookup_maxdepth | V_lookup_fuse

datatype oid_handler = H_none | H_sysctl_handle_int | H_hooks_handler

record sysctl_oid =
  o_parent :: oid_parent
  o_kind :: "ctl_kind list"
  o_arg1 :: oid_var
  o_name :: string
  o_handler :: oid_handler
  o_fmt :: string

definition sebsd_sysctl_node :: sysctl_oid where
  "sebsd_sysctl_node = \<lparr>o_parent = sysctl__children,
     o_kind = [CTLTYPE_NODE, CTLFLAG_RW, CTLFLAG_LOCKED, CTLFLAG_OID2], o_arg1 = V_children,
     o_name = ''sedarwin'', o_handler = H_none, o_fmt = ''N''\<rparr>"

definition int_kind :: "ctl_kind list" where
  "int_kind = [CTLTYPE_INT, CTLFLAG_RW, CTLFLAG_LOCKED, CTLFLAG_OID2]"

definition sebsd_sysctl_trace :: sysctl_oid where
  "sebsd_sysctl_trace = \<lparr>o_parent = sebsd_sysctl_children, o_kind = int_kind, o_arg1 = V_trace,
     o_name = ''trace'', o_handler = H_sysctl_handle_int, o_fmt = ''I''\<rparr>"
definition sebsd_sysctl_hooks :: sysctl_oid where
  "sebsd_sysctl_hooks = \<lparr>o_parent = sebsd_sysctl_children, o_kind = int_kind, o_arg1 = V_hooks,
     o_name = ''hooks'', o_handler = H_hooks_handler, o_fmt = ''I''\<rparr>"
definition sebsd_sysctl_lookup_count :: sysctl_oid where
  "sebsd_sysctl_lookup_count = \<lparr>o_parent = sebsd_sysctl_children, o_kind = int_kind,
     o_arg1 = V_lookup_count, o_name = ''lookup_count'', o_handler = H_sysctl_handle_int,
     o_fmt = ''IU''\<rparr>"
definition sebsd_sysctl_lookup_recursed :: sysctl_oid where
  "sebsd_sysctl_lookup_recursed = \<lparr>o_parent = sebsd_sysctl_children, o_kind = int_kind,
     o_arg1 = V_lookup_recursed, o_name = ''lookup_recursed'', o_handler = H_sysctl_handle_int,
     o_fmt = ''IU''\<rparr>"
definition sebsd_sysctl_lookup_maxdepth :: sysctl_oid where
  "sebsd_sysctl_lookup_maxdepth = \<lparr>o_parent = sebsd_sysctl_children, o_kind = int_kind,
     o_arg1 = V_lookup_maxdepth, o_name = ''lookup_maxdepth'', o_handler = H_sysctl_handle_int,
     o_fmt = ''IU''\<rparr>"
definition sebsd_sysctl_lookup_fuse :: sysctl_oid where
  "sebsd_sysctl_lookup_fuse = \<lparr>o_parent = sebsd_sysctl_children, o_kind = int_kind,
     o_arg1 = V_lookup_fuse, o_name = ''lookup_fuse'', o_handler = H_sysctl_handle_int,
     o_fmt = ''I''\<rparr>"
definition sebsd_sysctl_unsafe :: sysctl_oid where
  "sebsd_sysctl_unsafe = \<lparr>o_parent = sebsd_sysctl_children, o_kind = int_kind, o_arg1 = V_unsafe,
     o_name = ''unsafe'', o_handler = H_sysctl_handle_int, o_fmt = ''I''\<rparr>"

section \<open>The module's state\<close>

text \<open>
  The static data of the module, the lines it has printed, and what the kernel holds of it: the
  oids linked into the sysctl tree, whether the framework's policy list points to it, and whether
  its image is loaded.
\<close>

record kext =
  sebsd_ops :: ops
  sebsd_handle :: uint32
  sebsd_registered :: cint
  sebsd_trace_enabled :: cint
  sebsd_hooks_enabled :: cint
  sebsd_unsafe_enabled :: cint
  sebsd_lookup_count :: uint32
  sebsd_lookup_fuse :: cint
  sebsd_lookup_owner :: "64 word"
  sebsd_lookup_depth :: uint32
  sebsd_lookup_maxdepth :: uint32
  sebsd_lookup_recursed :: uint32
  k_log :: "line list"
  k_tree :: "sysctl_oid list"
  k_policy :: bool
  k_loaded :: bool

text \<open>The data segment of a freshly loaded module, before \<open>_start\<close> calls in.\<close>

definition kext_data :: kext where
  "kext_data = \<lparr>sebsd_ops = (\<lambda>_. None), sebsd_handle = 0, sebsd_registered = 0,
     sebsd_trace_enabled = 0, sebsd_hooks_enabled = SEBSD_HOOK_DEFAULT, sebsd_unsafe_enabled = 0,
     sebsd_lookup_count = 0, sebsd_lookup_fuse = 16, sebsd_lookup_owner = 0,
     sebsd_lookup_depth = 0, sebsd_lookup_maxdepth = 0, sebsd_lookup_recursed = 0,
     k_log = [], k_tree = [], k_policy = False, k_loaded = True\<rparr>"

definition emit :: "line list \<Rightarrow> kext \<Rightarrow> kext" where
  "emit ls k = k\<lparr>k_log := k_log k @ ls\<rparr>"

section \<open>sysctl handlers\<close>

text \<open>
  A request: the user's new value, if \<open>newptr\<close> is not \<open>NULL\<close>. The kernel's \<open>sysctl_handle_int\<close> on
  a variable holding \<open>v\<close> is a parameter: its error and what the variable holds afterwards.
\<close>

record sysctl_req =
  rq_newptr :: "64 word"
  rq_new :: cint
  rq_fault :: cint

type_synonym handle_int = "cint \<Rightarrow> sysctl_req \<Rightarrow> cint \<times> cint"

definition sebsd_sysctl_hooks_handler ::
  "handle_int \<Rightarrow> sysctl_req \<Rightarrow> kext \<Rightarrow> cint \<times> kext" where
  "sebsd_sysctl_hooks_handler sysctl_handle_int req k =
     (let (error, v) = sysctl_handle_int (sebsd_hooks_enabled k) req in
      if error \<noteq> 0 \<or> rq_newptr req = 0 then (error, k)
      else if v AND NOT (SEBSD_HOOK_ALL OR SEBSD_HOOK_UNSAFE) \<noteq> 0 then (EINVAL, k)
      else if v AND SEBSD_HOOK_UNSAFE \<noteq> 0 \<and> sebsd_unsafe_enabled k = 0 then
        (EPERM, emit (kprintf (SEBSD_TAG @ '': refusing hooks 0x%x: known to wedge the '' @
           ''machine. Set sysctl sedarwin.unsafe=1 first.'' @ newline)
           [A_int (v AND SEBSD_HOOK_UNSAFE)]) k)
      else
        (0, emit (sebsd_log ''hooks now 0x%x'' [A_int v])
           (k\<lparr>sebsd_hooks_enabled := v, sebsd_ops := sebsd_install_hooks (sebsd_ops k) v\<rparr>)))"

definition sebsd_hooks_blow_lookup_fuse :: "kext \<Rightarrow> kext" where
  "sebsd_hooks_blow_lookup_fuse k =
     k\<lparr>sebsd_ops := (sebsd_ops k)(mpo_vnode_check_lookup := None),
       sebsd_hooks_enabled := sebsd_hooks_enabled k AND NOT SEBSD_HOOK_VNODE_LOOKUP\<rparr>"

text \<open>\<open>*(int *)arg1\<close>, read and written.\<close>

fun var_get :: "oid_var \<Rightarrow> kext \<Rightarrow> cint" where
  "var_get V_children k = 0"
| "var_get V_trace k = sebsd_trace_enabled k"
| "var_get V_hooks k = sebsd_hooks_enabled k"
| "var_get V_unsafe k = sebsd_unsafe_enabled k"
| "var_get V_lookup_count k = sebsd_lookup_count k"
| "var_get V_lookup_recursed k = sebsd_lookup_recursed k"
| "var_get V_lookup_maxdepth k = sebsd_lookup_maxdepth k"
| "var_get V_lookup_fuse k = sebsd_lookup_fuse k"

fun var_set :: "oid_var \<Rightarrow> cint \<Rightarrow> kext \<Rightarrow> kext" where
  "var_set V_children x k = k"
| "var_set V_trace x k = k\<lparr>sebsd_trace_enabled := x\<rparr>"
| "var_set V_hooks x k = k\<lparr>sebsd_hooks_enabled := x\<rparr>"
| "var_set V_unsafe x k = k\<lparr>sebsd_unsafe_enabled := x\<rparr>"
| "var_set V_lookup_count x k = k\<lparr>sebsd_lookup_count := x\<rparr>"
| "var_set V_lookup_recursed x k = k\<lparr>sebsd_lookup_recursed := x\<rparr>"
| "var_set V_lookup_maxdepth x k = k\<lparr>sebsd_lookup_maxdepth := x\<rparr>"
| "var_set V_lookup_fuse x k = k\<lparr>sebsd_lookup_fuse := x\<rparr>"

text \<open>A sysctl of the oid: the kernel calls its handler with its \<open>arg1\<close>.\<close>

definition sysctl_call :: "handle_int \<Rightarrow> sysctl_oid \<Rightarrow> sysctl_req \<Rightarrow> kext \<Rightarrow> cint \<times> kext" where
  "sysctl_call sysctl_handle_int o1 req k =
     (case o_handler o1 of
        H_none \<Rightarrow> (0, k)
      | H_sysctl_handle_int \<Rightarrow>
          (let (error, v) = sysctl_handle_int (var_get (o_arg1 o1) k) req
           in (error, var_set (o_arg1 o1) v k))
      | H_hooks_handler \<Rightarrow> sebsd_sysctl_hooks_handler sysctl_handle_int req k)"

section \<open>Registration\<close>

definition sysctl_register_oid :: "sysctl_oid \<Rightarrow> kext \<Rightarrow> kext" where
  "sysctl_register_oid o1 k = k\<lparr>k_tree := k_tree k @ [o1]\<rparr>"

definition sysctl_unregister_oid :: "sysctl_oid \<Rightarrow> kext \<Rightarrow> kext" where
  "sysctl_unregister_oid o1 k = k\<lparr>k_tree := remove1 o1 (k_tree k)\<rparr>"

text \<open>The calls of \<open>sebsd_sysctl_register\<close> and \<open>sebsd_sysctl_unregister\<close>, in order.\<close>

definition register_order :: "sysctl_oid list" where
  "register_order = [sebsd_sysctl_node, sebsd_sysctl_trace, sebsd_sysctl_hooks,
     sebsd_sysctl_unsafe, sebsd_sysctl_lookup_fuse, sebsd_sysctl_lookup_maxdepth,
     sebsd_sysctl_lookup_recursed, sebsd_sysctl_lookup_count]"

definition unregister_order :: "sysctl_oid list" where
  "unregister_order = [sebsd_sysctl_lookup_count, sebsd_sysctl_lookup_recursed,
     sebsd_sysctl_lookup_maxdepth, sebsd_sysctl_lookup_fuse, sebsd_sysctl_unsafe,
     sebsd_sysctl_hooks, sebsd_sysctl_trace, sebsd_sysctl_node]"

definition sebsd_sysctl_register :: "kext \<Rightarrow> kext" where
  "sebsd_sysctl_register k = fold sysctl_register_oid register_order k"

definition sebsd_sysctl_unregister :: "kext \<Rightarrow> kext" where
  "sebsd_sysctl_unregister k = fold sysctl_unregister_oid unregister_order k"

text \<open>
  \<open>mac_policy_register\<close> stores a handle and returns an error: both are parameters. If it succeeds the
  framework keeps the pointer to the descriptor; if \<open>mac_policy_unregister\<close> succeeds it drops it.
\<close>

definition sebsd_mac_policy_register :: "cint \<Rightarrow> uint32 \<Rightarrow> kext \<Rightarrow> cint \<times> kext" where
  "sebsd_mac_policy_register error handle k =
     (let k = k\<lparr>sebsd_ops := sebsd_install_lifecycle (sebsd_ops k)\<rparr>;
          k = k\<lparr>sebsd_ops := sebsd_install_hooks (sebsd_ops k) (sebsd_hooks_enabled k)\<rparr>;
          k = sebsd_sysctl_register k
      in if error \<noteq> 0 then
           (KERN_FAILURE,
            emit (kprintf (SEBSD_TAG @ '': mac_policy_register failed: %d'' @ newline)
              [A_int error]) (sebsd_sysctl_unregister k))
         else
           (let k = k\<lparr>k_policy := True, sebsd_handle := handle, sebsd_registered := 1\<rparr>;
                k = emit (sebsd_log ''registered with MAC framework (handle %u), hooks=0x%x''
                  [A_int (sebsd_handle k), A_int (sebsd_hooks_enabled k)]) k;
                k = (if sebsd_hooks_enabled k = 0
                  then emit (sebsd_log (''no check hooks installed; enable groups with '' @
                    ''`sysctl sedarwin.hooks=<mask>`'') []) k else k)
            in (KERN_SUCCESS, k)))"

definition sebsd_mac_policy_unregister :: "cint \<Rightarrow> kext \<Rightarrow> cint \<times> kext" where
  "sebsd_mac_policy_unregister error k =
     (if sebsd_registered k = 0 then (KERN_SUCCESS, k)
      else
        (let k = k\<lparr>sebsd_ops := sebsd_install_hooks (sebsd_ops k) 0\<rparr>
         in if error \<noteq> 0 then
              (KERN_FAILURE,
               emit (kprintf (SEBSD_TAG @ '': mac_policy_unregister failed: %d'' @ newline)
                 [A_int error]) k)
            else
              (let k = k\<lparr>k_policy := False, sebsd_registered := 0\<rparr>;
                   k = sebsd_sysctl_unregister k
               in (KERN_SUCCESS, emit (sebsd_log ''unregistered from MAC framework'' []) k))))"

end
