(* ===== verification/Policy_Spec.thy ===== *)
theory Policy_Spec imports Policy begin

text \<open>
  The properties of the policy module: the mask and the operations vector agree, the quarantined
  lookup hook needs its second key, the sysctl tree never refers to a missing parent or to an
  unloaded module. The module's life is an inductive set of reachable states.
\<close>

section \<open>The mask and the slots\<close>

lemmas hook_masks = hook_bits hook_groups

lemma hook_all_value: "SEBSD_HOOK_ALL = 0x1fffef" "SEBSD_HOOK_ALL OR SEBSD_HOOK_UNSAFE = 0x1fffff"
  by (simp_all add: hook_masks)

definition hook_slots :: "slot list" where
  "hook_slots = map fst hook_table"

text \<open>The vector reports exactly what the mask asks for; or nothing it does not ask for.\<close>

definition mask_installed :: "ops \<Rightarrow> cint \<Rightarrow> bool" where
  "mask_installed ops m \<longleftrightarrow> list_all (\<lambda>(s, b, f). ops s = masked m b f) hook_table"

definition mask_covers :: "ops \<Rightarrow> cint \<Rightarrow> bool" where
  "mask_covers ops m \<longleftrightarrow> list_all (\<lambda>(s, b, f). ops s \<noteq> None \<longrightarrow> ops s = Some f \<and> m AND b \<noteq> 0) hook_table"

definition lifecycle_installed :: "ops \<Rightarrow> bool" where
  "lifecycle_installed ops \<longleftrightarrow> ops mpo_policy_init = Some F_policy_init \<and>
     ops mpo_policy_initbsd = Some F_policy_initbsd \<and> ops mpo_policy_destroy = Some F_policy_destroy"

lemma install_hooks_at:
  "sebsd_install_hooks ops m mpo_vnode_check_open = masked m SEBSD_HOOK_VNODE_OPEN F_vnode_check_open"
  "sebsd_install_hooks ops m mpo_vnode_check_create = masked m SEBSD_HOOK_VNODE_CREATE F_vnode_check_create"
  "sebsd_install_hooks ops m mpo_vnode_check_unlink = masked m SEBSD_HOOK_VNODE_UNLINK F_vnode_check_unlink"
  "sebsd_install_hooks ops m mpo_vnode_check_rename = masked m SEBSD_HOOK_VNODE_RENAME F_vnode_check_rename"
  "sebsd_install_hooks ops m mpo_vnode_check_lookup = masked m SEBSD_HOOK_VNODE_LOOKUP F_vnode_check_lookup"
  "sebsd_install_hooks ops m mpo_vnode_check_readlink = masked m SEBSD_HOOK_VNODE_READLINK F_vnode_check_readlink"
  "sebsd_install_hooks ops m mpo_vnode_check_getattr = masked m SEBSD_HOOK_VNODE_GETATTR F_vnode_check_getattr"
  "sebsd_install_hooks ops m mpo_vnode_check_setattrlist = masked m SEBSD_HOOK_VNODE_SETATTRLIST F_vnode_check_setattrlist"
  "sebsd_install_hooks ops m mpo_vnode_label_associate_extattr = masked m SEBSD_HOOK_VNODE_LBL_EXTATTR F_vnode_label_associate_extattr"
  "sebsd_install_hooks ops m mpo_vnode_label_copy = masked m SEBSD_HOOK_VNODE_LBL_COPY F_vnode_label_copy"
  "sebsd_install_hooks ops m mpo_file_check_mmap = masked m SEBSD_HOOK_FILE_MMAP F_file_check_mmap"
  "sebsd_install_hooks ops m mpo_file_check_library_validation = masked m SEBSD_HOOK_FILE_LIBVAL F_file_check_library_validation"
  "sebsd_install_hooks ops m mpo_proc_check_signal = masked m SEBSD_HOOK_PROC_SIGNAL F_proc_check_signal"
  "sebsd_install_hooks ops m mpo_proc_check_fork = masked m SEBSD_HOOK_PROC_FORK F_proc_check_fork"
  "sebsd_install_hooks ops m mpo_proc_notify_exit = masked m SEBSD_HOOK_PROC_EXIT F_proc_notify_exit"
  "sebsd_install_hooks ops m mpo_socket_check_connect = masked m SEBSD_HOOK_SOCKET_CONNECT F_socket_check_connect"
  "sebsd_install_hooks ops m mpo_socket_check_create = masked m SEBSD_HOOK_SOCKET_CREATE F_socket_check_create"
  "sebsd_install_hooks ops m mpo_socket_check_listen = masked m SEBSD_HOOK_SOCKET_LISTEN F_socket_check_listen"
  "sebsd_install_hooks ops m mpo_pty_notify_grant = masked m SEBSD_HOOK_PTY_GRANT F_pty_notify_grant"
  "sebsd_install_hooks ops m mpo_vnode_check_exec = masked m SEBSD_HOOK_EXEC_CHECK F_spawn_check_exec"
  "sebsd_install_hooks ops m mpo_proc_notify_exec_complete = masked m SEBSD_HOOK_EXEC_COMPLETE F_spawn_notify_exec_complete"
  "sebsd_install_hooks ops m mpo_policy_init = ops mpo_policy_init"
  "sebsd_install_hooks ops m mpo_policy_initbsd = ops mpo_policy_initbsd"
  "sebsd_install_hooks ops m mpo_policy_destroy = ops mpo_policy_destroy"
  by (simp_all only: sebsd_install_hooks_def fun_upd_apply slot.distinct if_True if_False refl)

lemma install_hooks_installs: "mask_installed (sebsd_install_hooks ops m) m"
  by (simp add: mask_installed_def hook_table_def install_hooks_at)

lemma installed_covers: "mask_installed ops m \<Longrightarrow> mask_covers ops m"
  by (fastforce simp: mask_installed_def mask_covers_def list_all_iff masked_def split: if_splits)

lemma install_hooks_lifecycle [simp]:
  "lifecycle_installed (sebsd_install_hooks ops m) = lifecycle_installed ops"
  by (simp add: lifecycle_installed_def install_hooks_at)

lemma install_lifecycle: "lifecycle_installed (sebsd_install_lifecycle ops)"
  by (simp add: lifecycle_installed_def sebsd_install_lifecycle_def)

lemma masked_zero [simp]: "masked 0 b f = None"
  by (simp add: masked_def)

lemma install_none_covers: "mask_covers (sebsd_install_hooks ops 0) m"
  by (simp add: mask_covers_def hook_table_def install_hooks_at)

lemma blow_ops:
  "sebsd_ops (sebsd_hooks_blow_lookup_fuse k) = (sebsd_ops k)(mpo_vnode_check_lookup := None)"
  "sebsd_hooks_enabled (sebsd_hooks_blow_lookup_fuse k) =
    sebsd_hooks_enabled k AND NOT SEBSD_HOOK_VNODE_LOOKUP"
  by (simp_all add: sebsd_hooks_blow_lookup_fuse_def)

lemma masked_blow:
  "b AND SEBSD_HOOK_VNODE_LOOKUP = 0 \<Longrightarrow> (m AND NOT SEBSD_HOOK_VNODE_LOOKUP) AND b = m AND b"
proof -
  assume "b AND SEBSD_HOOK_VNODE_LOOKUP = 0"
  then have "NOT SEBSD_HOOK_VNODE_LOOKUP AND b = b" by (auto simp: bit_eq_iff bit_simps)
  then show ?thesis by (simp only: and.assoc)
qed

lemma masked_blown: "(m AND NOT SEBSD_HOOK_VNODE_LOOKUP) AND SEBSD_HOOK_VNODE_LOOKUP = 0"
  by (simp add: and.assoc)

lemma table_blow:
  "(s, b, f) \<in> set hook_table \<Longrightarrow> s \<noteq> mpo_vnode_check_lookup \<Longrightarrow> b AND SEBSD_HOOK_VNODE_LOOKUP = 0"
  "(mpo_vnode_check_lookup, b, f) \<in> set hook_table \<Longrightarrow> b = SEBSD_HOOK_VNODE_LOOKUP \<and> f = F_vnode_check_lookup"
  by (auto simp: hook_table_def hook_bits)

lemma blow_installed:
  assumes "mask_installed (sebsd_ops k) (sebsd_hooks_enabled k)"
  shows "mask_installed (sebsd_ops (sebsd_hooks_blow_lookup_fuse k))
    (sebsd_hooks_enabled (sebsd_hooks_blow_lookup_fuse k))"
  unfolding mask_installed_def list_all_iff
proof safe
  fix s b f
  assume e: "(s, b, f) \<in> set hook_table"
  have "sebsd_ops k s = masked (sebsd_hooks_enabled k) b f"
    using assms e by (auto simp: mask_installed_def list_all_iff)
  then show "sebsd_ops (sebsd_hooks_blow_lookup_fuse k) s =
      masked (sebsd_hooks_enabled (sebsd_hooks_blow_lookup_fuse k)) b f"
    using table_blow(1) [of s b f] table_blow(2) [of b f] e
    by (cases "s = mpo_vnode_check_lookup") (auto simp: blow_ops masked_def masked_blow masked_blown)
qed

lemma blow_covers:
  assumes "mask_covers (sebsd_ops k) (sebsd_hooks_enabled k)"
  shows "mask_covers (sebsd_ops (sebsd_hooks_blow_lookup_fuse k))
    (sebsd_hooks_enabled (sebsd_hooks_blow_lookup_fuse k))"
  unfolding mask_covers_def list_all_iff
proof safe
  fix s b f y
  assume e: "(s, b, f) \<in> set hook_table"
    and y: "sebsd_ops (sebsd_hooks_blow_lookup_fuse k) s = Some y"
  then have s: "s \<noteq> mpo_vnode_check_lookup" "sebsd_ops k s = Some y" by (auto simp: blow_ops split: if_splits)
  then have "sebsd_ops k s = Some f \<and> sebsd_hooks_enabled k AND b \<noteq> 0"
    using assms e by (auto simp: mask_covers_def list_all_iff)
  then show "sebsd_ops (sebsd_hooks_blow_lookup_fuse k) s = Some f"
    "sebsd_hooks_enabled (sebsd_hooks_blow_lookup_fuse k) AND b = 0 \<Longrightarrow> False"
    using s table_blow(1) [OF e s(1)] by (auto simp: blow_ops masked_blow)
qed

section \<open>The hooks handler\<close>

text \<open>The three outcomes of the handler.\<close>

lemma hooks_handler_cases:
  obtains (refused) e ls where "sebsd_sysctl_hooks_handler shi req k = (e, emit ls k)"
  | (accepted) v ls where "sebsd_sysctl_hooks_handler shi req k = (0, emit ls (k\<lparr>sebsd_hooks_enabled := v,
        sebsd_ops := sebsd_install_hooks (sebsd_ops k) v\<rparr>))"
      "v AND NOT (SEBSD_HOOK_ALL OR SEBSD_HOOK_UNSAFE) = 0"
      "v AND SEBSD_HOOK_UNSAFE \<noteq> 0 \<Longrightarrow> sebsd_unsafe_enabled k \<noteq> 0"
proof -
  obtain e v where h: "shi (sebsd_hooks_enabled k) req = (e, v)" by (cases "shi (sebsd_hooks_enabled k) req")
  have nil: "emit [] k = k" by (simp add: emit_def)
  show thesis
  proof (cases "e \<noteq> 0 \<or> rq_newptr req = 0 \<or> v AND NOT (SEBSD_HOOK_ALL OR SEBSD_HOOK_UNSAFE) \<noteq> 0 \<or>
      v AND SEBSD_HOOK_UNSAFE \<noteq> 0 \<and> sebsd_unsafe_enabled k = 0")
    case True
    then have "\<exists>e ls. sebsd_sysctl_hooks_handler shi req k = (e, emit ls k)"
      unfolding sebsd_sysctl_hooks_handler_def h Let_def prod.case
      using nil by (auto intro: exI [of _ "[]"])
    then show thesis using refused by blast
  next
    case False
    then have "sebsd_sysctl_hooks_handler shi req k =
        (0, emit (sebsd_log ''hooks now 0x%x'' [A_int v]) (k\<lparr>sebsd_hooks_enabled := v,
        sebsd_ops := sebsd_install_hooks (sebsd_ops k) v\<rparr>))"
      unfolding sebsd_sysctl_hooks_handler_def h Let_def prod.case by (simp only: if_False de_Morgan_disj simp_thms)
    then show thesis using accepted False by blast
  qed
qed

lemma emit_fields [simp]:
  "sebsd_ops (emit ls k) = sebsd_ops k" "sebsd_hooks_enabled (emit ls k) = sebsd_hooks_enabled k"
  "sebsd_unsafe_enabled (emit ls k) = sebsd_unsafe_enabled k" "k_tree (emit ls k) = k_tree k"
  "k_policy (emit ls k) = k_policy k" "k_loaded (emit ls k) = k_loaded k"
  "sebsd_registered (emit ls k) = sebsd_registered k" "sebsd_handle (emit ls k) = sebsd_handle k"
  by (simp_all add: emit_def)

section \<open>Reachable states\<close>

text \<open>
  The life of one load of the module: \<open>_start\<close> on its fresh data, then sysctls on the oids that are
  in the tree (those that \<open>P\<close> allows), the lookup hook blowing its fuse, and \<open>_stop\<close>; the kernel
  unloads the image if \<open>_start\<close> fails or \<open>_stop\<close> succeeds. The errors and values the kernel returns
  are arbitrary at each step.
\<close>

inductive kext_reach ::
  "handle_int \<Rightarrow> (sysctl_oid \<Rightarrow> sysctl_req \<Rightarrow> bool) \<Rightarrow> kext \<Rightarrow> bool"
  for shi :: handle_int and P :: "sysctl_oid \<Rightarrow> sysctl_req \<Rightarrow> bool" where
  start_ok: "sebsd_mac_policy_register error handle kext_data = (KERN_SUCCESS, k) \<Longrightarrow>
    kext_reach shi P k"
| start_failed: "sebsd_mac_policy_register error handle kext_data = (KERN_FAILURE, k) \<Longrightarrow>
    kext_reach shi P (k\<lparr>k_loaded := False\<rparr>)"
| sysctl: "kext_reach shi P k \<Longrightarrow> k_loaded k \<Longrightarrow> o1 \<in> set (k_tree k) \<Longrightarrow> P o1 req \<Longrightarrow>
    sysctl_call shi o1 req k = (e, k') \<Longrightarrow> kext_reach shi P k'"
| blow: "kext_reach shi P k \<Longrightarrow> k_loaded k \<Longrightarrow> kext_reach shi P (sebsd_hooks_blow_lookup_fuse k)"
| stop_ok: "kext_reach shi P k \<Longrightarrow> k_loaded k \<Longrightarrow>
    sebsd_mac_policy_unregister error k = (KERN_SUCCESS, k') \<Longrightarrow>
    kext_reach shi P (k'\<lparr>k_loaded := False\<rparr>)"
| stop_failed: "kext_reach shi P k \<Longrightarrow> k_loaded k \<Longrightarrow>
    sebsd_mac_policy_unregister error k = (KERN_FAILURE, k') \<Longrightarrow> kext_reach shi P k'"

inductive_cases kext_reachE: "kext_reach shi P k"

text \<open>The eight oids are distinct, so that unregistering them all empties the tree.\<close>

lemmas oid_defs = sebsd_sysctl_node_def sebsd_sysctl_trace_def sebsd_sysctl_hooks_def
  sebsd_sysctl_unsafe_def sebsd_sysctl_lookup_fuse_def sebsd_sysctl_lookup_maxdepth_def
  sebsd_sysctl_lookup_recursed_def sebsd_sysctl_lookup_count_def

lemma register_tree: "k_tree (sebsd_sysctl_register k) = k_tree k @ register_order"
  by (simp add: sebsd_sysctl_register_def register_order_def sysctl_register_oid_def)

lemma unregister_empty: "fold remove1 unregister_order register_order = []"
  by (simp add: unregister_order_def register_order_def oid_defs)

lemma fold_unregister_tree: "k_tree (fold sysctl_unregister_oid os k) = fold remove1 os (k_tree k)"
  by (induction os arbitrary: k) (simp_all add: sysctl_unregister_oid_def)

lemma unregister_tree:
  "k_tree k = register_order \<Longrightarrow> k_tree (sebsd_sysctl_unregister k) = []"
  by (simp add: sebsd_sysctl_unregister_def fold_unregister_tree unregister_empty)

lemma fold_register_fields:
  "fold sysctl_register_oid os k = k\<lparr>k_tree := k_tree k @ os\<rparr>"
  by (induction os arbitrary: k) (simp_all add: sysctl_register_oid_def)

lemma fold_unregister_fields:
  "fold sysctl_unregister_oid os k = k\<lparr>k_tree := fold remove1 os (k_tree k)\<rparr>"
  by (induction os arbitrary: k) (simp_all add: sysctl_unregister_oid_def)

lemmas tree_simps = sebsd_sysctl_register_def sebsd_sysctl_unregister_def fold_register_fields
  fold_unregister_fields unregister_empty

text \<open>What \<open>_start\<close> and \<open>_stop\<close> leave.\<close>

lemma register_result:
  assumes "sebsd_mac_policy_register error handle kext_data = (r, k)"
  shows "r = (if error = 0 then KERN_SUCCESS else KERN_FAILURE) \<and>
    lifecycle_installed (sebsd_ops k) \<and> mask_installed (sebsd_ops k) (sebsd_hooks_enabled k) \<and>
    sebsd_hooks_enabled k = 0 \<and> sebsd_unsafe_enabled k = 0 \<and> k_loaded k \<and>
    (if error = 0 then k_tree k = register_order \<and> k_policy k \<and> sebsd_registered k = 1
     else k_tree k = [] \<and> \<not> k_policy k \<and> sebsd_registered k = 0)"
proof -
  have "lifecycle_installed (sebsd_install_hooks (sebsd_install_lifecycle (\<lambda>_. None)) 0)"
    by (simp add: install_lifecycle)
  moreover have "mask_installed (sebsd_install_hooks (sebsd_install_lifecycle (\<lambda>_. None)) 0) 0"
    by (rule install_hooks_installs)
  ultimately show ?thesis using assms
    by (auto simp: sebsd_mac_policy_register_def Let_def kext_data_def tree_simps
        SEBSD_HOOK_DEFAULT_def)
qed

lemma unregister_result:
  assumes "sebsd_mac_policy_unregister error k = (r, k')" "sebsd_registered k = 1"
    "k_tree k = register_order"
  shows "r = (if error = 0 then KERN_SUCCESS else KERN_FAILURE) \<and>
    sebsd_ops k' = sebsd_install_hooks (sebsd_ops k) 0 \<and>
    sebsd_hooks_enabled k' = sebsd_hooks_enabled k \<and>
    sebsd_unsafe_enabled k' = sebsd_unsafe_enabled k \<and> k_loaded k' = k_loaded k \<and>
    (if error = 0 then k_tree k' = [] \<and> \<not> k_policy k' \<and> sebsd_registered k' = 0
     else k_tree k' = k_tree k \<and> k_policy k' = k_policy k \<and> sebsd_registered k' = 1)"
  using assms by (auto simp: sebsd_mac_policy_unregister_def Let_def tree_simps split: if_splits)

text \<open>A sysctl touches nothing but its variable, and the vector through \<open>hooks\<close>.\<close>

lemma var_set_fields [simp]:
  "sebsd_ops (var_set x i k) = sebsd_ops k" "k_tree (var_set x i k) = k_tree k"
  "k_policy (var_set x i k) = k_policy k" "k_loaded (var_set x i k) = k_loaded k"
  "sebsd_registered (var_set x i k) = sebsd_registered k"
  by (cases x; simp)+

lemma var_set_hooks: "x \<noteq> V_hooks \<Longrightarrow> sebsd_hooks_enabled (var_set x i k) = sebsd_hooks_enabled k"
  by (cases x; simp)

lemma var_set_unsafe: "x \<noteq> V_unsafe \<Longrightarrow> sebsd_unsafe_enabled (var_set x i k) = sebsd_unsafe_enabled k"
  by (cases x; simp)

lemma int_oids:
  assumes "o1 \<in> set register_order" "o_handler o1 = H_sysctl_handle_int"
  shows "o_arg1 o1 \<noteq> V_hooks"
  using assms by (auto simp: register_order_def oid_defs)

lemma sysctl_cases:
  assumes "sysctl_call shi o1 req k = (e, k')" "o1 \<in> set register_order"
  obtains (same) ls where "k' = emit ls k"
  | (var) i where "k' = var_set (o_arg1 o1) i k" "o_arg1 o1 \<noteq> V_hooks"
      "i = snd (shi (var_get (o_arg1 o1) k) req)"
  | (hooks) v ls where "k' = emit ls (k\<lparr>sebsd_hooks_enabled := v,
        sebsd_ops := sebsd_install_hooks (sebsd_ops k) v\<rparr>)"
      "v AND NOT (SEBSD_HOOK_ALL OR SEBSD_HOOK_UNSAFE) = 0"
      "v AND SEBSD_HOOK_UNSAFE \<noteq> 0 \<Longrightarrow> sebsd_unsafe_enabled k \<noteq> 0"
proof (cases "o_handler o1")
  case H_none
  then have "k' = emit [] k" using assms(1) by (simp add: sysctl_call_def emit_def)
  then show thesis by (rule same)
next
  case H_sysctl_handle_int
  then show thesis using assms int_oids [OF assms(2)] var
    by (auto simp: sysctl_call_def split: prod.splits)
next
  case H_hooks_handler
  then have call: "sebsd_sysctl_hooks_handler shi req k = (e, k')"
    using assms(1) by (simp add: sysctl_call_def)
  show thesis
    by (rule hooks_handler_cases [of shi req k]) (use call same hooks in auto)
qed

section \<open>The invariant\<close>

text \<open>No bit outside the mask of known hooks.\<close>

definition known_bits :: "cint \<Rightarrow> bool" where
  "known_bits m \<longleftrightarrow> m AND NOT (SEBSD_HOOK_ALL OR SEBSD_HOOK_UNSAFE) = 0"

lemma known_bits_zero [simp]: "known_bits 0"
  by (simp add: known_bits_def)

definition kext_inv :: "kext \<Rightarrow> bool" where
  "kext_inv k \<longleftrightarrow>
     (if k_loaded k
      then k_policy k \<and> sebsd_registered k = 1 \<and> k_tree k = register_order \<and>
        lifecycle_installed (sebsd_ops k)
      else \<not> k_policy k \<and> k_tree k = []) \<and>
     mask_covers (sebsd_ops k) (sebsd_hooks_enabled k) \<and>
     known_bits (sebsd_hooks_enabled k)"

lemma known_bits_blow: "known_bits m \<Longrightarrow> known_bits (m AND NOT b)"
proof -
  have "(m AND NOT b) AND z = (m AND z) AND NOT b" for z :: cint
    by (auto simp: bit_eq_iff bit_simps)
  then show "known_bits m \<Longrightarrow> known_bits (m AND NOT b)"
    unfolding known_bits_def by (simp only: bit.conj_zero_left)
qed

lemma blow_fields [simp]:
  "k_tree (sebsd_hooks_blow_lookup_fuse k) = k_tree k"
  "k_policy (sebsd_hooks_blow_lookup_fuse k) = k_policy k"
  "k_loaded (sebsd_hooks_blow_lookup_fuse k) = k_loaded k"
  "sebsd_registered (sebsd_hooks_blow_lookup_fuse k) = sebsd_registered k"
  "sebsd_unsafe_enabled (sebsd_hooks_blow_lookup_fuse k) = sebsd_unsafe_enabled k"
  "lifecycle_installed (sebsd_ops (sebsd_hooks_blow_lookup_fuse k)) = lifecycle_installed (sebsd_ops k)"
  by (simp_all add: sebsd_hooks_blow_lookup_fuse_def lifecycle_installed_def)

lemma kext_inv_sysctl:
  assumes "kext_inv k" "k_loaded k" "o1 \<in> set (k_tree k)" "sysctl_call shi o1 req k = (e, k')"
  shows "kext_inv k' \<and> k_loaded k'"
proof -
  have "o1 \<in> set register_order" using assms(1-3) by (simp add: kext_inv_def)
  from assms(4) this show ?thesis
  proof (cases rule: sysctl_cases)
    case (hooks v ls)
    then show ?thesis using assms(1,2)
      by (simp add: kext_inv_def installed_covers [OF install_hooks_installs] known_bits_def)
  qed (use assms(1,2) in \<open>auto simp: kext_inv_def var_set_hooks\<close>)
qed

lemma kext_inv_blow:
  assumes "kext_inv k"
  shows "kext_inv (sebsd_hooks_blow_lookup_fuse k)"
proof -
  have "mask_covers (sebsd_ops (sebsd_hooks_blow_lookup_fuse k))
      (sebsd_hooks_enabled (sebsd_hooks_blow_lookup_fuse k))"
    using assms by (intro blow_covers) (simp add: kext_inv_def)
  then show ?thesis using assms
    by (simp add: kext_inv_def blow_ops(2) known_bits_blow del: fun_upd_apply)
qed

lemma kext_inv_stop:
  assumes "kext_inv k" "k_loaded k" "sebsd_mac_policy_unregister error k = (r, k')"
  shows "(r = KERN_SUCCESS \<longrightarrow> kext_inv (k'\<lparr>k_loaded := False\<rparr>)) \<and> (r = KERN_FAILURE \<longrightarrow> kext_inv k')"
proof -
  have "sebsd_registered k = 1" "k_tree k = register_order" using assms(1,2) by (auto simp: kext_inv_def)
  note r = unregister_result [OF assms(3) this]
  show ?thesis
  proof (cases "error = 0")
    case True
    then show ?thesis using r assms(1,2) by (simp add: kext_inv_def install_none_covers)
  next
    case False
    then show ?thesis using r assms(1,2) by (simp add: kext_inv_def install_none_covers)
  qed
qed

lemma kext_reach_inv: "kext_reach shi P k \<Longrightarrow> kext_inv k"
proof (induction rule: kext_reach.induct)
  case (start_ok error handle k)
  note r = register_result [OF start_ok]
  then show ?case using installed_covers [of "sebsd_ops k" 0]
    by (auto simp: kext_inv_def split: if_splits)
next
  case (start_failed error handle k)
  note r = register_result [OF start_failed]
  then show ?case using installed_covers [of "sebsd_ops k" 0]
    by (auto simp: kext_inv_def split: if_splits)
qed (use kext_inv_sysctl kext_inv_blow kext_inv_stop in blast)+

end
