(* ===== verification/Lookup.thy ===== *)
theory Lookup imports Hooks_Spec Policy_Spec begin

text \<open>
  The quarantined lookup hook (\<open>sebsd_vnode_check_lookup\<close>, \<open>sebsd_trace_lookup\<close> in \<open>kext/vnode.c\<close>):
  the whole function, and its execution as atomic steps on the module's shared data, one step per
  load, store or atomic operation of the source.
\<close>

section \<open>The function\<close>

definition sebsd_trace_lookup ::
  "hook_env \<Rightarrow> cint \<Rightarrow> uint32 \<Rightarrow> opaque \<Rightarrow> opaque \<Rightarrow> componentname option \<Rightarrow> line list option" where
  "sebsd_trace_lookup e t n dvp dlabel cnp = do {
     pname \<leftarrow> sebsd_cur_name e (pname_array e ''pname'') pname_size;
     name \<leftarrow> sebsd_cnp_name cnp (name_array e ''name'') name_size;
     pname \<leftarrow> c_str pname;
     name \<leftarrow> c_str name;
     Some (sebsd_log_debug t (''lookup #%u: %s pid=%d name=%s op=%u flags=0x%x '' @
         ''dvp=%p label=%p thread=%p'')
       [A_int n, A_str pname, A_int (sebsd_cur_pid e), A_str name,
        A_int (case cnp of Some c \<Rightarrow> cn_nameiop c | None \<Rightarrow> 0),
        A_int (case cnp of Some c \<Rightarrow> cn_flags c | None \<Rightarrow> 0),
        A_ptr dvp, A_ptr dlabel, A_ptr (current_thread e)]) }"

definition fuse_blown :: "kext \<Rightarrow> uint32 \<Rightarrow> bool" where
  "fuse_blown k n \<longleftrightarrow> 0 < sint (sebsd_lookup_fuse k) \<and> sebsd_lookup_fuse k \<le> n"

definition sebsd_vnode_check_lookup ::
  "hook_env \<Rightarrow> cred \<Rightarrow> opaque \<Rightarrow> opaque \<Rightarrow> componentname option \<Rightarrow> kext \<Rightarrow> (cint \<times> kext) option" where
  "sebsd_vnode_check_lookup e cred dvp dlabel cnp k =
     (let self = current_thread e in
      if sebsd_lookup_owner k = self then
        Some (0, sebsd_hooks_blow_lookup_fuse (k\<lparr>sebsd_lookup_recursed := 1\<rparr>))
      else do {
        k \<leftarrow> Some (k\<lparr>sebsd_lookup_owner := self\<rparr>);
        d \<leftarrow> Some (sebsd_lookup_depth k + 1);
        k \<leftarrow> Some (k\<lparr>sebsd_lookup_depth := d\<rparr>);
        k \<leftarrow> Some (if d > sebsd_lookup_maxdepth k then k\<lparr>sebsd_lookup_maxdepth := d\<rparr> else k);
        n \<leftarrow> Some (sebsd_lookup_count k + 1);
        k \<leftarrow> Some (k\<lparr>sebsd_lookup_count := n\<rparr>);
        k \<leftarrow> (if sebsd_tracing (sebsd_trace_enabled k) then do {
                l \<leftarrow> sebsd_trace_lookup e (sebsd_trace_enabled k) n dvp dlabel cnp;
                Some (emit l k) }
              else Some k);
        k \<leftarrow> Some (if fuse_blown k n then sebsd_hooks_blow_lookup_fuse k else k);
        k \<leftarrow> Some (k\<lparr>sebsd_lookup_depth := sebsd_lookup_depth k - 1\<rparr>);
        k \<leftarrow> Some (k\<lparr>sebsd_lookup_owner := 0\<rparr>);
        Some (0, k) })"

text \<open>What the framework does with the slot: call it, or nothing if it is \<open>NULL\<close>.\<close>

definition lookup_dispatch ::
  "hook_env \<Rightarrow> cred \<Rightarrow> opaque \<Rightarrow> opaque \<Rightarrow> componentname option \<Rightarrow> kext \<Rightarrow> kext option" where
  "lookup_dispatch e cred dvp dlabel cnp k =
     (if sebsd_ops k mpo_vnode_check_lookup = None then Some k
      else map_option snd (sebsd_vnode_check_lookup e cred dvp dlabel cnp k))"

section \<open>Its atomic steps\<close>

text \<open>
  Where a thread is in the function, with its locals \<open>d\<close>, \<open>n\<close>; the flag of the blow steps tells the
  normal path from the re-entered one.
\<close>

datatype frame =
    F_owner | F_flag | F_claim | F_enter | F_max uint32 | F_setmax uint32 | F_count
  | F_trace uint32 | F_fuse uint32
  | F_blow_slot bool | F_blow_load bool | F_blow_store bool cint | F_leave | F_release

text \<open>
  One step of the thread \<open>self\<close>: the module's data after it and where the thread is next, \<open>None\<close> when
  the function has returned. \<open>ls n\<close> is what the trace of dispatch \<open>n\<close> prints.
\<close>

fun lookup_step ::
  "(uint32 \<Rightarrow> line list) \<Rightarrow> 64 word \<Rightarrow> frame \<Rightarrow> kext \<Rightarrow> kext \<times> frame option" where
  "lookup_step ls self F_owner k =
     (k, Some (if sebsd_lookup_owner k = self then F_flag else F_claim))"
| "lookup_step ls self F_flag k = (k\<lparr>sebsd_lookup_recursed := 1\<rparr>, Some (F_blow_slot False))"
| "lookup_step ls self F_claim k = (k\<lparr>sebsd_lookup_owner := self\<rparr>, Some F_enter)"
| "lookup_step ls self F_enter k =
     (k\<lparr>sebsd_lookup_depth := sebsd_lookup_depth k + 1\<rparr>, Some (F_max (sebsd_lookup_depth k + 1)))"
| "lookup_step ls self (F_max d) k =
     (k, Some (if d > sebsd_lookup_maxdepth k then F_setmax d else F_count))"
| "lookup_step ls self (F_setmax d) k = (k\<lparr>sebsd_lookup_maxdepth := d\<rparr>, Some F_count)"
| "lookup_step ls self F_count k =
     (k\<lparr>sebsd_lookup_count := sebsd_lookup_count k + 1\<rparr>, Some (F_trace (sebsd_lookup_count k + 1)))"
| "lookup_step ls self (F_trace n) k =
     (if sebsd_tracing (sebsd_trace_enabled k) then emit (ls n) k else k, Some (F_fuse n))"
| "lookup_step ls self (F_fuse n) k =
     (k, Some (if fuse_blown k n then F_blow_slot True else F_leave))"
| "lookup_step ls self (F_blow_slot b) k =
     (k\<lparr>sebsd_ops := (sebsd_ops k)(mpo_vnode_check_lookup := None)\<rparr>, Some (F_blow_load b))"
| "lookup_step ls self (F_blow_load b) k = (k, Some (F_blow_store b (sebsd_hooks_enabled k)))"
| "lookup_step ls self (F_blow_store b m) k =
     (k\<lparr>sebsd_hooks_enabled := m AND NOT SEBSD_HOOK_VNODE_LOOKUP\<rparr>, if b then Some F_leave else None)"
| "lookup_step ls self F_leave k =
     (k\<lparr>sebsd_lookup_depth := sebsd_lookup_depth k - 1\<rparr>, Some F_release)"
| "lookup_step ls self F_release k = (k\<lparr>sebsd_lookup_owner := 0\<rparr>, None)"

text \<open>A thread alone, for at most so many steps.\<close>

fun lookup_alone ::
  "(uint32 \<Rightarrow> line list) \<Rightarrow> 64 word \<Rightarrow> nat \<Rightarrow> kext \<times> frame option \<Rightarrow> kext \<times> frame option" where
  "lookup_alone ls self 0 s = s"
| "lookup_alone ls self (Suc n) s =
     (case s of (k, None) \<Rightarrow> s
      | (k, Some f) \<Rightarrow> lookup_alone ls self n (lookup_step ls self f k))"

section \<open>Threads, re-entry and writes of the mask\<close>

text \<open>
  The stores of \<open>sebsd_install_hooks\<close> to the vector, one per slot, in the order of the source.
\<close>

definition hook_stores :: "cint \<Rightarrow> (slot \<times> hook_fn option) list" where
  "hook_stores m = map (\<lambda>s. (s, sebsd_install_hooks (\<lambda>_. None) m s)) hook_slots"

text \<open>
  The world: the module's data; for each thread (a non-zero \<open>thread_t\<close>) its nested activations of the
  hook, innermost first; for each write to \<open>sedarwin.hooks\<close> under way (numbered, since the handler takes
  no lock and its oid is \<open>CTLFLAG_LOCKED\<close>) the slots it has still to store after the mask; and two records of
  the run, whether a thread entered the hook while inside it, and the highest depth there was.
\<close>

record world =
  wk :: kext
  stacks :: "64 word \<Rightarrow> frame list"
  writers :: "nat \<Rightarrow> (slot \<times> hook_fn option) list"
  nested :: bool
  peak :: nat

text \<open>Nobody is writing the mask.\<close>

definition no_writer :: "world \<Rightarrow> bool" where
  "no_writer w \<longleftrightarrow> (\<forall>u. writers w u = [])"

text \<open>The mask is stored; then one slot after the other.\<close>

definition start_write :: "nat \<Rightarrow> cint \<Rightarrow> world \<Rightarrow> world" where
  "start_write u v w = w\<lparr>wk := (wk w)\<lparr>sebsd_hooks_enabled := v\<rparr>,
     writers := (writers w)(u := hook_stores v)\<rparr>"

definition store_slot :: "nat \<Rightarrow> slot \<Rightarrow> hook_fn option \<Rightarrow> (slot \<times> hook_fn option) list \<Rightarrow> world \<Rightarrow> world" where
  "store_slot u s r rs w = w\<lparr>wk := (wk w)\<lparr>sebsd_ops := (sebsd_ops (wk w))(s := r)\<rparr>,
     writers := (writers w)(u := rs)\<rparr>"

definition set_stack :: "64 word \<Rightarrow> frame list \<Rightarrow> world \<Rightarrow> world" where
  "set_stack t fs w = w\<lparr>stacks := (stacks w)(t := fs)\<rparr>"

definition world_step :: "(uint32 \<Rightarrow> line list) \<Rightarrow> 64 word \<Rightarrow> frame \<Rightarrow> frame list \<Rightarrow> world \<Rightarrow> world" where
  "world_step ls t f fs w =
     (let (k', r) = lookup_step ls t f (wk w)
      in set_stack t (case r of Some f' \<Rightarrow> f' # fs | None \<Rightarrow> fs)
           (w\<lparr>wk := k', peak := max (peak w) (unat (sebsd_lookup_depth k'))\<rparr>))"

text \<open>
  A thread outside the hook (one of \<open>T\<close>) calls it through the slot it read. A thread inside it can
  only enter it again where the hook calls out of itself, which is in its trace. Any number of writes of
  the mask may be under way, each at its own store.
\<close>

inductive lookup_conc ::
  "(uint32 \<Rightarrow> line list) \<Rightarrow> 64 word set \<Rightarrow> world \<Rightarrow> world \<Rightarrow> bool"
  for ls :: "uint32 \<Rightarrow> line list" and T :: "64 word set" where
  call: "t \<in> T \<Longrightarrow> t \<noteq> 0 \<Longrightarrow> stacks w t = [] \<Longrightarrow> sebsd_ops (wk w) mpo_vnode_check_lookup \<noteq> None \<Longrightarrow>
    lookup_conc ls T w (set_stack t [F_owner] w)"
| reenter: "stacks w t = F_trace n # fs \<Longrightarrow> sebsd_tracing (sebsd_trace_enabled (wk w)) \<Longrightarrow>
    sebsd_ops (wk w) mpo_vnode_check_lookup \<noteq> None \<Longrightarrow>
    lookup_conc ls T w (set_stack t (F_owner # F_trace n # fs) (w\<lparr>nested := True\<rparr>))"
| step: "stacks w t = f # fs \<Longrightarrow> lookup_conc ls T w (world_step ls t f fs w)"
| write_mask: "writers w u = [] \<Longrightarrow> lookup_conc ls T w (start_write u v w)"
| write_slot: "writers w u = (s, r) # rs \<Longrightarrow> lookup_conc ls T w (store_slot u s r rs w)"

inductive lookup_reach ::
  "(uint32 \<Rightarrow> line list) \<Rightarrow> 64 word set \<Rightarrow> world \<Rightarrow> world \<Rightarrow> bool"
  for ls :: "uint32 \<Rightarrow> line list" and T :: "64 word set" and w0 :: world where
  start: "lookup_reach ls T w0 w0"
| more: "lookup_reach ls T w0 w \<Longrightarrow> lookup_conc ls T w w' \<Longrightarrow> lookup_reach ls T w0 w'"

inductive_cases lookup_concE: "lookup_conc ls T w w'"

text \<open>Schedules: which of these happens next; \<open>None\<close> if it cannot.\<close>

datatype act = Call "64 word" | Reenter "64 word" | Step "64 word" nat | Write_mask nat cint | Write_slots nat nat

fun steps :: "(uint32 \<Rightarrow> line list) \<Rightarrow> 64 word \<Rightarrow> nat \<Rightarrow> world \<Rightarrow> world option" where
  "steps ls t 0 w = Some w"
| "steps ls t (Suc n) w =
     (case stacks w t of f # fs \<Rightarrow> steps ls t n (world_step ls t f fs w) | [] \<Rightarrow> None)"

fun stores :: "nat \<Rightarrow> nat \<Rightarrow> world \<Rightarrow> world option" where
  "stores u 0 w = Some w"
| "stores u (Suc n) w =
     (case writers w u of (s, r) # rs \<Rightarrow> stores u n (store_slot u s r rs w) | [] \<Rightarrow> None)"

fun do_act :: "(uint32 \<Rightarrow> line list) \<Rightarrow> act \<Rightarrow> world \<Rightarrow> world option" where
  "do_act ls (Call t) w =
     (if t \<noteq> 0 \<and> stacks w t = [] \<and> sebsd_ops (wk w) mpo_vnode_check_lookup \<noteq> None
      then Some (set_stack t [F_owner] w) else None)"
| "do_act ls (Reenter t) w =
     (case stacks w t of
        F_trace n # fs \<Rightarrow>
          (if sebsd_tracing (sebsd_trace_enabled (wk w)) \<and>
             sebsd_ops (wk w) mpo_vnode_check_lookup \<noteq> None
           then Some (set_stack t (F_owner # F_trace n # fs) (w\<lparr>nested := True\<rparr>)) else None)
      | _ \<Rightarrow> None)"
| "do_act ls (Step t n) w = steps ls t n w"
| "do_act ls (Write_mask u v) w = (if writers w u = [] then Some (start_write u v w) else None)"
| "do_act ls (Write_slots u n) w = stores u n w"

fun schedule :: "(uint32 \<Rightarrow> line list) \<Rightarrow> act list \<Rightarrow> world \<Rightarrow> world option" where
  "schedule ls [] w = Some w"
| "schedule ls (a # as) w = do { w \<leftarrow> do_act ls a w; schedule ls as w }"

text \<open>Before anybody dispatches, with the counters reset.\<close>

definition world0 :: "kext \<Rightarrow> world" where
  "world0 k = \<lparr>wk = k, stacks = (\<lambda>_. []), writers = (\<lambda>_. []), nested = False, peak = 0\<rparr>"

definition counters_reset :: "kext \<Rightarrow> bool" where
  "counters_reset k \<longleftrightarrow> sebsd_lookup_owner k = 0 \<and> sebsd_lookup_depth k = 0 \<and>
     sebsd_lookup_maxdepth k = 0 \<and> sebsd_lookup_recursed k = 0"

end
