(* ===== verification/Lookup_Spec.thy ===== *)
theory Lookup_Spec imports Lookup begin

text \<open>
  The properties of the quarantined lookup hook: the steps are the function; the fuse; and what the
  re-entry detector and the depth counter can and cannot say when threads interleave.
\<close>

section \<open>The steps are the function\<close>

lemma alone_done [simp]: "lookup_alone ls self n (k, None) = (k, None)"
  by (cases n) simp_all

lemma alone_function:
  assumes "sebsd_vnode_check_lookup e cred dvp dlabel cnp k = Some (r, k')"
    and "\<And>n. ls n = the (sebsd_trace_lookup e (sebsd_trace_enabled k) n dvp dlabel cnp)"
  shows "lookup_alone ls (current_thread e) 13 (k, Some F_owner) = (k', None) \<and> r = 0"
  using assms(1)
  by (cases k) (auto simp: sebsd_vnode_check_lookup_def Let_def numeral_eq_Suc assms(2)
      sebsd_hooks_blow_lookup_fuse_def emit_def fuse_blown_def bind_eq_Some_conv split: if_splits)

section \<open>Runs and schedules\<close>

text \<open>What the steps of a write leave alone.\<close>

lemma write_fields [simp]:
  "stacks (start_write u v w) = stacks w" "nested (start_write u v w) = nested w"
  "peak (start_write u v w) = peak w" "sebsd_ops (wk (start_write u v w)) = sebsd_ops (wk w)"
  "sebsd_hooks_enabled (wk (start_write u v w)) = v"
  "sebsd_trace_enabled (wk (start_write u v w)) = sebsd_trace_enabled (wk w)"
  "writers (start_write u v w) = (writers w)(u := hook_stores v)"
  by (simp_all add: start_write_def)

lemma store_fields [simp]:
  "stacks (store_slot u s r rs w) = stacks w" "nested (store_slot u s r rs w) = nested w"
  "peak (store_slot u s r rs w) = peak w" "sebsd_ops (wk (store_slot u s r rs w)) = (sebsd_ops (wk w))(s := r)"
  "sebsd_hooks_enabled (wk (store_slot u s r rs w)) = sebsd_hooks_enabled (wk w)"
  "sebsd_trace_enabled (wk (store_slot u s r rs w)) = sebsd_trace_enabled (wk w)"
  "writers (store_slot u s r rs w) = (writers w)(u := rs)"
  by (simp_all add: store_slot_def)

lemma stack_fields [simp]:
  "stacks (set_stack t fs w) u = (if u = t then fs else stacks w u)"
  "wk (set_stack t fs w) = wk w" "writers (set_stack t fs w) = writers w"
  "nested (set_stack t fs w) = nested w" "peak (set_stack t fs w) = peak w"
  by (simp_all add: set_stack_def)

lemma hook_stores_not_Nil [simp]: "hook_stores v \<noteq> []"
  by (simp add: hook_stores_def hook_slots_def hook_table_def)

lemma no_writer_simps [simp]:
  "no_writer (world0 k)" "no_writer (set_stack t fs w) = no_writer w"
  "no_writer (w\<lparr>wk := k', nested := q, peak := p\<rparr>) = no_writer w" "no_writer (w\<lparr>wk := k', peak := p\<rparr>) = no_writer w"
  "\<not> no_writer (start_write u v w)"
  by (auto simp: no_writer_def world0_def set_stack_def)

lemma steps_sound:
  "lookup_reach ls T w0 w \<Longrightarrow> steps ls t n w = Some w' \<Longrightarrow> lookup_reach ls T w0 w'"
proof (induction n arbitrary: w)
  case (Suc n)
  then show ?case by (auto split: list.splits intro: lookup_reach.more lookup_conc.step)
qed simp

lemma stores_sound:
  "lookup_reach ls T w0 w \<Longrightarrow> stores u n w = Some w' \<Longrightarrow> lookup_reach ls T w0 w'"
proof (induction n arbitrary: w)
  case (Suc n)
  then show ?case by (auto split: list.splits intro: lookup_reach.more lookup_conc.write_slot)
qed simp

text \<open>The stores of a write, all together.\<close>

definition store_all :: "(slot \<times> hook_fn option) list \<Rightarrow> ops \<Rightarrow> ops" where
  "store_all rs ops = fold (\<lambda>(s, r) ops. ops(s := r)) rs ops"

lemma store_all_hooks: "store_all (hook_stores m) ops = sebsd_install_hooks ops m"
  by (simp only: store_all_def hook_stores_def hook_slots_def hook_table_def list.map fst_conv
      install_hooks_at fold_simps case_prod_conv id_apply) (simp only: sebsd_install_hooks_def)

lemma stores_done:
  "writers w u = rs \<Longrightarrow> stores u (length rs) w =
    Some (w\<lparr>wk := (wk w)\<lparr>sebsd_ops := store_all rs (sebsd_ops (wk w))\<rparr>, writers := (writers w)(u := [])\<rparr>)"
proof (induction rs arbitrary: w)
  case Nil
  then have "(writers w)(u := []) = writers w" by (rule fun_upd_idem)
  then show ?case by (simp add: store_all_def)
next
  case (Cons x rs)
  obtain s r where x: "x = (s, r)" by (cases x)
  have "writers (store_slot u s r rs w) u = rs" by (simp add: store_slot_def)
  from Cons.IH [OF this] Cons.prems show ?case
    by (simp add: x store_slot_def store_all_def del: fun_upd_apply)
qed

text \<open>A whole write is the handler's: the mask, and the vector as \<open>sebsd_install_hooks\<close> leaves it.\<close>

lemma stores_write:
  assumes "writers w u = hook_stores v"
  shows "stores u 21 w = Some (w\<lparr>wk := (wk w)\<lparr>sebsd_ops := sebsd_install_hooks (sebsd_ops (wk w)) v\<rparr>,
    writers := (writers w)(u := [])\<rparr>)"
proof -
  have "length (hook_stores v) = 21" by (simp add: hook_stores_def hook_slots_def hook_table_def)
  then show ?thesis using stores_done [OF assms] by (simp add: store_all_hooks)
qed

text \<open>A schedule that calls only threads of \<open>T\<close>.\<close>

fun calls_in :: "64 word set \<Rightarrow> act \<Rightarrow> bool" where
  "calls_in T (Call t) = (t \<in> T)"
| "calls_in T _ = True"

lemma act_sound:
  assumes "lookup_reach ls T w0 w" "do_act ls a w = Some w'" "calls_in T a"
  shows "lookup_reach ls T w0 w'"
proof (cases a)
  case (Step t n)
  then show ?thesis using steps_sound assms by simp
next
  case (Reenter t)
  then obtain n fs where "stacks w t = F_trace n # fs" "sebsd_tracing (sebsd_trace_enabled (wk w))"
    "sebsd_ops (wk w) mpo_vnode_check_lookup \<noteq> None"
    "w' = set_stack t (F_owner # F_trace n # fs) (w\<lparr>nested := True\<rparr>)"
    using assms(2) by (auto split: list.splits frame.splits if_splits)
  then show ?thesis using lookup_reach.more [OF assms(1)] lookup_conc.reenter by simp
next
  case (Call t)
  then show ?thesis using lookup_reach.more [OF assms(1)] lookup_conc.call [of t T w ls] assms(2,3)
    by (auto split: if_splits)
next
  case (Write_mask u v)
  then show ?thesis using lookup_reach.more [OF assms(1)] lookup_conc.write_mask [of w u ls T v] assms(2)
    by (auto split: if_splits)
next
  case (Write_slots u n)
  then show ?thesis using stores_sound assms by simp
qed

lemma schedule_sound:
  "lookup_reach ls T w0 w \<Longrightarrow> schedule ls as w = Some w' \<Longrightarrow> list_all (calls_in T) as \<Longrightarrow>
    lookup_reach ls T w0 w'"
proof (induction as arbitrary: w)
  case (Cons a as)
  then obtain w1 where "do_act ls a w = Some w1" "schedule ls as w1 = Some w'"
    by (auto simp: bind_eq_Some_conv)
  moreover have "calls_in T a" "list_all (calls_in T) as" using Cons.prems(3) by simp_all
  ultimately show ?case using Cons.IH act_sound [OF Cons.prems(1)] by blast
qed simp

section \<open>Invariants\<close>

text \<open>Between its store of \<open>owner\<close> and its clearing of it, on the normal path.\<close>

fun claimed :: "frame \<Rightarrow> bool" where
  "claimed F_owner = False" | "claimed F_flag = False" | "claimed F_claim = False"
| "claimed (F_blow_slot b) = b" | "claimed (F_blow_load b) = b" | "claimed (F_blow_store b m) = b"
| "claimed _ = True"

definition outer :: "frame list \<Rightarrow> bool" where
  "outer fs \<longleftrightarrow> list_all (\<lambda>f. \<exists>n. f = F_trace n) fs"

lemma outer_simps [simp]: "outer []" "outer (f # fs) = ((\<exists>n. f = F_trace n) \<and> outer fs)"
  by (simp_all add: outer_def)

text \<open>
  Whoever is the owner is inside; a thread that is about to raise the flag has been re-entered; an
  activation below the top waits in its trace.
\<close>

definition stack_ok :: "bool \<Rightarrow> 64 word \<Rightarrow> 64 word \<Rightarrow> frame list \<Rightarrow> bool" where
  "stack_ok nest owner t fs \<longleftrightarrow>
     outer (tl fs) \<and> (t = 0 \<longrightarrow> fs = []) \<and> (owner = t \<and> t \<noteq> 0 \<longrightarrow> list_ex claimed fs) \<and>
     (\<not> nest \<longrightarrow> tl fs = [] \<and> fs \<noteq> [F_flag])"

definition owner_inv :: "world \<Rightarrow> bool" where
  "owner_inv w \<longleftrightarrow>
     (\<forall>t. stack_ok (nested w) (sebsd_lookup_owner (wk w)) t (stacks w t)) \<and>
     (\<not> nested w \<longrightarrow> sebsd_lookup_recursed (wk w) = 0)"

lemma owner_inv_start: "counters_reset k \<Longrightarrow> owner_inv (world0 k)"
  by (auto simp: owner_inv_def stack_ok_def world0_def counters_reset_def)

lemma step_owner:
  "lookup_step ls t f k = (k', r) \<Longrightarrow> sebsd_lookup_owner k' \<in> {sebsd_lookup_owner k, t, 0}"
  by (cases f) (auto simp: emit_def split: if_splits)

lemma step_recursed:
  "lookup_step ls t f k = (k', r) \<Longrightarrow> f \<noteq> F_flag \<Longrightarrow> sebsd_lookup_recursed k' = sebsd_lookup_recursed k"
  by (cases f) (auto simp: emit_def split: if_splits)

lemma stack_ok_other:
  "stack_ok n ow u fs \<Longrightarrow> ow' \<in> {ow, t, 0} \<Longrightarrow> u \<noteq> t \<Longrightarrow> stack_ok n ow' u fs"
  by (auto simp: stack_ok_def)

lemma stack_ok_self:
  assumes "stack_ok n (sebsd_lookup_owner k) t (f # fs)" "lookup_step ls t f k = (k', r)"
  shows "stack_ok n (sebsd_lookup_owner k') t (case r of Some f' \<Rightarrow> f' # fs | None \<Rightarrow> fs)"
  using assms by (cases f; cases fs) (auto simp: stack_ok_def emit_def split: if_splits)

lemma owner_inv_step:
  assumes "owner_inv w" "stacks w t = f # fs"
  shows "owner_inv (world_step ls t f fs w)"
proof -
  obtain k' r where st: "lookup_step ls t f (wk w) = (k', r)" by (cases "lookup_step ls t f (wk w)")
  have ok: "stack_ok (nested w) (sebsd_lookup_owner (wk w)) u (stacks w u)" for u
    using assms(1) by (simp add: owner_inv_def)
  have "stack_ok (nested w) (sebsd_lookup_owner k') u (stacks (world_step ls t f fs w) u)" for u
    using stack_ok_self [OF ok [of t, unfolded assms(2)] st]
      stack_ok_other [OF ok [of u] step_owner [OF st]]
    by (simp add: world_step_def set_stack_def st)
  moreover have "\<not> nested w \<Longrightarrow> f \<noteq> F_flag"
    using ok [of t] assms(2) by (auto simp: stack_ok_def)
  ultimately show ?thesis
    using assms(1) step_recursed [OF st] by (auto simp: owner_inv_def world_step_def set_stack_def st)
qed

lemma owner_inv_push:
  assumes "owner_inv w" "t \<noteq> 0" "stacks w t = [] \<or> (\<exists>n gs. stacks w t = F_trace n # gs) \<and> b"
  shows "owner_inv (set_stack t (F_owner # stacks w t) (w\<lparr>nested := nested w \<or> b\<rparr>))"
proof -
  let ?ow = "sebsd_lookup_owner (wk w)"
  have ok: "stack_ok (nested w) ?ow u (stacks w u)" for u using assms(1) by (simp add: owner_inv_def)
  have "stack_ok (nested w \<or> b) ?ow t (F_owner # stacks w t)"
    using ok [of t] assms(2,3) by (auto simp: stack_ok_def)
  moreover have "stack_ok (nested w \<or> b) ?ow u (stacks w u)" for u
    using ok [of u] by (auto simp: stack_ok_def)
  ultimately show ?thesis using assms(1) by (auto simp: owner_inv_def set_stack_def)
qed

lemma owner_inv_kext:
  "owner_inv w \<Longrightarrow> sebsd_lookup_owner k = sebsd_lookup_owner (wk w) \<Longrightarrow>
    sebsd_lookup_recursed k = sebsd_lookup_recursed (wk w) \<Longrightarrow> owner_inv (w\<lparr>wk := k, writers := v\<rparr>)"
  by (simp add: owner_inv_def)

lemma owner_inv_conc: "lookup_conc ls T w w' \<Longrightarrow> owner_inv w \<Longrightarrow> owner_inv w'"
proof (induction rule: lookup_conc.induct)
  case (call t w)
  then show ?case using owner_inv_push [of w t False] by simp
next
  case (reenter w t n fs)
  have "stack_ok (nested w) (sebsd_lookup_owner (wk w)) t (stacks w t)"
    using reenter.prems by (simp add: owner_inv_def)
  then have "t \<noteq> 0" using reenter.hyps(1) by (auto simp: stack_ok_def)
  then show ?case using owner_inv_push [OF reenter.prems, of t True] reenter.hyps(1) by simp
next
  case (step w t f fs)
  then show ?case by (simp add: owner_inv_step)
next
  case (write_mask w u v)
  then show ?case unfolding start_write_def by (intro owner_inv_kext) simp_all
next
  case (write_slot w u s r rs)
  then show ?case unfolding store_slot_def by (intro owner_inv_kext) simp_all
qed

lemma owner_inv_reach: "lookup_reach ls T (world0 k) w \<Longrightarrow> counters_reset k \<Longrightarrow> owner_inv w"
  by (induction rule: lookup_reach.induct) (auto intro: owner_inv_start owner_inv_conc)

text \<open>With tracing off nothing re-enters.\<close>

lemma step_trace_flag:
  "lookup_step ls t f k = (k', r) \<Longrightarrow> sebsd_trace_enabled k' = sebsd_trace_enabled k"
  by (cases f) (auto simp: emit_def split: if_splits)

lemma untraced_conc:
  assumes "lookup_conc ls T w w'" "sebsd_trace_enabled (wk w) = 0 \<and> \<not> nested w"
  shows "sebsd_trace_enabled (wk w') = 0 \<and> \<not> nested w'"
  using assms
proof (induction rule: lookup_conc.induct)
  case (step w t f fs)
  obtain k' r where st: "lookup_step ls t f (wk w) = (k', r)" by (cases "lookup_step ls t f (wk w)")
  then show ?case using step.prems step_trace_flag [OF st]
    by (simp add: world_step_def set_stack_def)
qed (simp_all add: set_stack_def sebsd_tracing_def start_write_def store_slot_def)

lemma untraced_reach:
  "lookup_reach ls T (world0 k) w \<Longrightarrow> sebsd_trace_enabled k = 0 \<Longrightarrow>
    sebsd_trace_enabled (wk w) = 0 \<and> \<not> nested w"
proof (induction rule: lookup_reach.induct)
  case start
  then show ?case by (simp add: world0_def)
next
  case (more w w')
  then show ?case using untraced_conc by blast
qed

section \<open>The depth counter\<close>

text \<open>The local \<open>d\<close> of an activation.\<close>

fun frame_depth :: "frame \<Rightarrow> nat" where
  "frame_depth (F_max d) = unat d" | "frame_depth (F_setmax d) = unat d" | "frame_depth _ = 0"

definition peak_inv :: "world \<Rightarrow> bool" where
  "peak_inv w \<longleftrightarrow> unat (sebsd_lookup_maxdepth (wk w)) \<le> peak w \<and>
     (\<forall>t. list_all (\<lambda>f. frame_depth f \<le> peak w) (stacks w t))"

lemma step_depth:
  assumes "lookup_step ls t f k = (k', r)" "unat (sebsd_lookup_maxdepth k) \<le> p" "frame_depth f \<le> p"
  shows "unat (sebsd_lookup_maxdepth k') \<le> max p (unat (sebsd_lookup_depth k'))"
    "pred_option (\<lambda>f'. frame_depth f' \<le> max p (unat (sebsd_lookup_depth k'))) r"
  using assms by (cases f; auto simp: emit_def split: if_splits)+

lemma peak_inv_conc:
  assumes "lookup_conc ls T w w'" "peak_inv w"
  shows "peak_inv w'"
  using assms
proof (induction rule: lookup_conc.induct)
  case (step w t f fs)
  obtain k' r where st: "lookup_step ls t f (wk w) = (k', r)" by (cases "lookup_step ls t f (wk w)")
  have f: "frame_depth f \<le> peak w" "list_all (\<lambda>f. frame_depth f \<le> peak w) fs"
  proof -
    have "list_all (\<lambda>f. frame_depth f \<le> peak w) (stacks w t)" using step.prems by (simp add: peak_inv_def)
    then show "frame_depth f \<le> peak w" "list_all (\<lambda>f. frame_depth f \<le> peak w) fs"
      using step.hyps by simp_all
  qed
  have m: "unat (sebsd_lookup_maxdepth (wk w)) \<le> peak w" using step.prems by (simp add: peak_inv_def)
  note sd = step_depth [OF st m f(1)]
  have up: "list_all (\<lambda>f. frame_depth f \<le> max (peak w) d) gs"
    if "list_all (\<lambda>f. frame_depth f \<le> peak w) gs" for gs and d
    using that by (auto simp: list_all_iff le_max_iff_disj)
  show ?case
    using step.prems sd up f(2)
    by (auto simp: peak_inv_def world_step_def set_stack_def st split: option.splits)
next
  case (reenter w t n fs)
  then have "list_all (\<lambda>f. frame_depth f \<le> peak w) (F_trace n # fs)"
    by (metis peak_inv_def)
  then show ?case using reenter.prems by (simp add: peak_inv_def set_stack_def)
qed (auto simp: peak_inv_def set_stack_def start_write_def store_slot_def)

lemma peak_inv_reach:
  "lookup_reach ls T (world0 k) w \<Longrightarrow> counters_reset k \<Longrightarrow> peak_inv w"
proof (induction rule: lookup_reach.induct)
  case start
  then show ?case by (simp add: peak_inv_def world0_def counters_reset_def)
next
  case (more w w')
  then show ?case using peak_inv_conc by blast
qed

section \<open>One thread\<close>

text \<open>
  Where a single thread can be, with the owner and the depth that go with it: outside; on its first
  activation; or re-entered from its trace, on the path that pulls the slot.
\<close>

fun one_activation :: "64 word \<Rightarrow> 64 word \<Rightarrow> uint32 \<Rightarrow> frame \<Rightarrow> bool" where
  "one_activation t ow d F_owner = (ow = 0 \<and> d = 0)"
| "one_activation t ow d F_claim = (ow = 0 \<and> d = 0)"
| "one_activation t ow d F_enter = (ow = t \<and> d = 0)"
| "one_activation t ow d F_release = (ow = t \<and> d = 0)"
| "one_activation t ow d (F_max x) = (ow = t \<and> d = 1 \<and> x = 1)"
| "one_activation t ow d (F_setmax x) = (ow = t \<and> d = 1 \<and> x = 1)"
| "one_activation t ow d f = (claimed f \<and> ow = t \<and> d = 1)"

definition solo_shape :: "64 word \<Rightarrow> 64 word \<Rightarrow> uint32 \<Rightarrow> frame list \<Rightarrow> bool" where
  "solo_shape t ow d fs \<longleftrightarrow>
     fs = [] \<and> ow = 0 \<and> d = 0 \<or>
     (\<exists>f. fs = [f] \<and> one_activation t ow d f) \<or>
     (\<exists>g n. fs = [g, F_trace n] \<and> ow = t \<and> d = 1 \<and> \<not> claimed g \<and> g \<noteq> F_claim)"

definition solo_inv :: "64 word \<Rightarrow> world \<Rightarrow> bool" where
  "solo_inv t w \<longleftrightarrow>
     (\<forall>u. u \<noteq> t \<longrightarrow> stacks w u = []) \<and>
     solo_shape t (sebsd_lookup_owner (wk w)) (sebsd_lookup_depth (wk w)) (stacks w t) \<and>
     sebsd_lookup_maxdepth (wk w) \<le> 1 \<and>
     (nested w \<longrightarrow> sebsd_lookup_recursed (wk w) = 1 \<or>
        (\<exists>g n. stacks w t = [g, F_trace n] \<and> g \<in> {F_owner, F_flag}))"

lemma solo_step:
  assumes "solo_shape t (sebsd_lookup_owner k) (sebsd_lookup_depth k) (f # fs)"
    "sebsd_lookup_maxdepth k \<le> 1" "t \<noteq> 0" "lookup_step ls t f k = (k', r)"
  shows "solo_shape t (sebsd_lookup_owner k') (sebsd_lookup_depth k') (case r of Some f' \<Rightarrow> f' # fs | None \<Rightarrow> fs)"
    "sebsd_lookup_maxdepth k' \<le> 1"
  using assms
  by (cases f; cases fs; auto simp: solo_shape_def emit_def split: if_splits)+

lemma solo_nested:
  assumes "solo_shape t (sebsd_lookup_owner k) (sebsd_lookup_depth k) (f # fs)" "lookup_step ls t f k = (k', r)"
    "nest \<longrightarrow> sebsd_lookup_recursed k = 1 \<or> (\<exists>g n. f # fs = [g, F_trace n] \<and> g \<in> {F_owner, F_flag})"
    nest
  shows "sebsd_lookup_recursed k' = 1 \<or>
    (\<exists>g n. (case r of Some f' \<Rightarrow> f' # fs | None \<Rightarrow> fs) = [g, F_trace n] \<and> g \<in> {F_owner, F_flag})"
  using assms by (cases f; cases fs) (auto simp: solo_shape_def emit_def split: if_splits)

end
