(* ===== verification/Lookup_Rest.thy ===== *)
theory Lookup_Rest imports Lookup_Spec begin

text \<open>
  Invariants of the lookup hook over all threads at once: sums over the activations inside the hook.
  The depth counter is such a sum, and so are the bounds on the fuse in \<open>Lookup_Race\<close>.
\<close>

section \<open>Sums over the activations inside\<close>

definition active :: "world \<Rightarrow> 64 word set" where
  "active w = {t. stacks w t \<noteq> []}"

definition weight :: "(frame \<Rightarrow> nat) \<Rightarrow> frame list \<Rightarrow> nat" where
  "weight g fs = sum_list (map g fs)"

lemma weight_simps [simp]: "weight g [] = 0" "weight g (f # fs) = g f + weight g fs"
  by (simp_all add: weight_def)

definition tally :: "(frame \<Rightarrow> nat) \<Rightarrow> world \<Rightarrow> nat" where
  "tally g w = (\<Sum>t \<in> active w. weight g (stacks w t))"

lemma active_set: "active (set_stack t fs w) = (if fs = [] then active w - {t} else insert t (active w))"
  by (auto simp: active_def)

lemma active_finite: "finite (active w) \<Longrightarrow> finite (active (set_stack t fs w))"
  by (simp add: active_set)

lemma tally_over:
  assumes "finite A" "active w \<subseteq> A"
  shows "tally g w = (\<Sum>t \<in> A. weight g (stacks w t))"
  unfolding tally_def using assms by (intro sum.mono_neutral_left) (auto simp: active_def)

text \<open>Changing one thread's activations changes the sum by the difference.\<close>

lemma tally_set:
  assumes "finite (active w)"
  shows "tally g (set_stack t fs w) + weight g (stacks w t) = tally g w + weight g fs"
proof -
  let ?A = "insert t (active w)"
  have fin: "finite ?A" using assms by simp
  have "tally g (set_stack t fs w) = (\<Sum>u \<in> ?A. weight g (if u = t then fs else stacks w u))"
    using fin by (subst tally_over [of ?A]) (auto simp: active_set)
  also have "\<dots> = weight g fs + (\<Sum>u \<in> ?A - {t}. weight g (stacks w u))"
    using fin by (simp only: sum.remove [of ?A t] insertI1) (simp cong: sum.cong_simp)
  finally have "tally g (set_stack t fs w) = weight g fs + (\<Sum>u \<in> ?A - {t}. weight g (stacks w u))" .
  moreover have "tally g w = weight g (stacks w t) + (\<Sum>u \<in> ?A - {t}. weight g (stacks w u))"
    using fin by (subst tally_over [of ?A]) (auto simp: sum.remove [of ?A t])
  ultimately show ?thesis by simp
qed

lemma tally_cong: "stacks w' = stacks w \<Longrightarrow> tally g w' = tally g w"
  by (simp add: tally_def active_def)

lemma active_cong: "stacks w' = stacks w \<Longrightarrow> active w' = active w"
  by (simp add: active_def)

lemma tally_mem: "finite (active w) \<Longrightarrow> weight g (stacks w t) \<le> tally g w"
  using tally_over [of "insert t (active w)" w g] by (metis finite_insert insertI1 member_le_sum subset_insertI zero_le)

lemma tally_le_card:
  assumes "finite T" "active w \<subseteq> T" "\<And>t. weight g (stacks w t) \<le> 1"
  shows "tally g w \<le> card T"
proof -
  have "tally g w = (\<Sum>t \<in> T. weight g (stacks w t))" using assms(1,2) by (rule tally_over)
  also have "\<dots> \<le> (\<Sum>t \<in> T. 1)" using assms(3) by (intro sum_mono) auto
  finally show ?thesis by simp
qed

definition at_rest :: "world \<Rightarrow> bool" where
  "at_rest w \<longleftrightarrow> (\<forall>t. stacks w t = [])"

lemma tally_rest [simp]: "at_rest w \<Longrightarrow> tally g w = 0"
  by (simp add: at_rest_def tally_def active_def)

text \<open>A step of a thread, as its effect on the module's data and on the thread's top activation.\<close>

lemma world_stepE:
  obtains k' r p where "lookup_step ls t f (wk w) = (k', r)"
    "world_step ls t f fs w =
      set_stack t (case r of Some f' \<Rightarrow> f' # fs | None \<Rightarrow> fs) (w\<lparr>wk := k', peak := p\<rparr>)"
  by (cases "lookup_step ls t f (wk w)") (auto simp: world_step_def)

section \<open>The depth counter\<close>

text \<open>Between its increment of the depth and its decrement.\<close>

fun deep :: "frame \<Rightarrow> nat" where
  "deep F_owner = 0" | "deep F_flag = 0" | "deep F_claim = 0" | "deep F_enter = 0" | "deep F_release = 0"
| "deep (F_blow_slot b) = of_bool b" | "deep (F_blow_load b) = of_bool b"
| "deep (F_blow_store b m) = of_bool b"
| "deep _ = 1"

definition depth_inv :: "world \<Rightarrow> bool" where
  "depth_inv w \<longleftrightarrow> finite (active w) \<and> sebsd_lookup_depth (wk w) = of_nat (tally deep w)"

lemma step_deep:
  "lookup_step ls t f k = (k', r) \<Longrightarrow>
    sebsd_lookup_depth k' + of_nat (deep f) =
      sebsd_lookup_depth k + of_nat (case r of Some f' \<Rightarrow> deep f' | None \<Rightarrow> 0)"
  by (cases f) (auto simp: emit_def split: if_splits)

lemma depth_inv_set:
  assumes "depth_inv w" "sebsd_lookup_depth k' + of_nat (weight deep (stacks w t)) =
      sebsd_lookup_depth (wk w) + of_nat (weight deep fs)"
  shows "depth_inv (set_stack t fs (w\<lparr>wk := k', writers := v, nested := q, peak := p\<rparr>))"
proof -
  let ?w = "w\<lparr>wk := k', writers := v, nested := q, peak := p\<rparr>"
  have same: "stacks ?w = stacks w" by simp
  have fin: "finite (active ?w)" using assms(1) active_cong [OF same] by (simp add: depth_inv_def)
  have "of_nat (tally deep (set_stack t fs ?w) + weight deep (stacks w t)) =
      (of_nat (tally deep w + weight deep fs) :: uint32)"
    using tally_set [OF fin, of deep t fs] tally_cong [OF same, of deep] by simp
  then have "of_nat (tally deep (set_stack t fs ?w)) = sebsd_lookup_depth k'"
    using assms unfolding depth_inv_def of_nat_add by (metis add_right_cancel)
  then show ?thesis using active_finite [OF fin] by (simp add: depth_inv_def)
qed

lemma depth_inv_conc: "lookup_conc ls T w w' \<Longrightarrow> depth_inv w \<Longrightarrow> depth_inv w'"
proof (induction rule: lookup_conc.induct)
  case (call t w)
  then show ?case using depth_inv_set [of w "wk w" t "[F_owner]" "peak w" "nested w" "writers w"] by simp
next
  case (reenter w t n fs)
  then show ?case using depth_inv_set [of w "wk w" t "F_owner # F_trace n # fs" "peak w" True "writers w"] by simp
next
  case (step w t f fs)
  obtain k' r p where st: "lookup_step ls t f (wk w) = (k', r)"
    "world_step ls t f fs w =
      set_stack t (case r of Some f' \<Rightarrow> f' # fs | None \<Rightarrow> fs) (w\<lparr>wk := k', peak := p\<rparr>)"
    by (rule world_stepE)
  have "sebsd_lookup_depth k' + of_nat (weight deep (stacks w t)) =
      sebsd_lookup_depth (wk w) + of_nat (weight deep (case r of Some f' \<Rightarrow> f' # fs | None \<Rightarrow> fs))"
    using step_deep [OF st(1)] step.hyps by (cases r) (simp_all add: algebra_simps)
  from depth_inv_set [OF step.prems this, of p "nested w" "writers w"] show ?case by (simp add: st(2))
qed (simp_all add: depth_inv_def tally_def active_def start_write_def store_slot_def)

lemma depth_inv_reach:
  "lookup_reach ls T (world0 k) w \<Longrightarrow> counters_reset k \<Longrightarrow> depth_inv w"
proof (induction rule: lookup_reach.induct)
  case start
  then show ?case by (simp add: depth_inv_def world0_def counters_reset_def tally_def active_def)
next
  case (more w w')
  then show ?case using depth_inv_conc by blast
qed

lemma owner_at_rest:
  assumes "owner_inv w" "at_rest w"
  shows "sebsd_lookup_owner (wk w) = 0"
proof -
  let ?o = "sebsd_lookup_owner (wk w)"
  have "stack_ok (nested w) ?o ?o (stacks w ?o)" using assms(1) by (simp add: owner_inv_def)
  then show ?thesis using assms(2) by (auto simp: stack_ok_def at_rest_def)
qed

end
