(* ===== verification/Hooks_Props.thy ===== *)
theory Hooks_Props imports Hooks_Spec begin

text \<open>
  The properties of single hooks: the names they print, the signature letters, the address, the
  references of the signal hook.
\<close>

section \<open>A kernel\<close>

text \<open>
  For the witnesses: a kernel with process names, where the process 7 has the pid 70 and the only
  live identity.
\<close>

definition name_into :: "string \<Rightarrow> byte list \<Rightarrow> cint \<Rightarrow> byte list option" where
  "name_into s buf len = strlcpy buf (bytes_of s) (size_of_int len)"

definition lab :: hook_env where
  "lab = \<lparr>uninit = (\<lambda>_ _. 0xAA), current_thread = 0xffff0010, current_proc = 7,
     proc_pid = (\<lambda>p. of_nat (10 * p)), proc_selfname = name_into ''sh'',
     proc_name = (\<lambda>pid. name_into ''launchd''),
     proc_find_ident = (\<lambda>i. if i = 70 then Some 7 else None), kauth_cred_getuid = (\<lambda>c. of_nat c),
     major = (\<lambda>d. drop_bit 24 d AND 0xff), minor = (\<lambda>d. d AND 0xffffff)\<rparr>"

lemma name_into_holds:
  assumes "0 < sint len" "unat len \<le> length buf"
  shows "holds_str (name_into s buf len) (length buf)"
proof -
  have "0 \<le> sint len" using assms(1) by simp
  then have u: "unat (size_of_int len) = unat len"
    using sint_nonneg_iff [of len] by (intro unat_scast_nonneg) simp
  have "len \<noteq> 0" using assms(1) by auto
  then have "unat (size_of_int len) \<noteq> 0" using u by (simp add: unat_eq_0)
  then have "size_of_int len \<noteq> 0" by (metis unat_0)
  then show ?thesis unfolding name_into_def using u assms(2) by (intro strlcpy_holds) simp_all
qed

lemma lab_names: "names_ok lab"
  by (simp add: names_ok_def lab_def name_into_holds)

section \<open>proc.c\<close>

lemma ident_name_balanced:
  assumes "names_ok e"
  shows "\<exists>pid b s. sebsd_ident_name e r ident (pname_array e v) pname_size = Some (pid, b, r) \<and>
    c_str b = Some s"
proof -
  have str: "\<exists>b s. strlcpy (pname_array e v) t pname_size = Some b \<and> c_str b = Some s" for t
    using strlcpy_holds [of pname_size "pname_array e v" t] by (auto elim: holds_strE)
  show ?thesis
  proof (cases "\<exists>i p. ident = Some i \<and> proc_find_ident e i = Some p")
    case False
    then have "sebsd_ident_name e r ident (pname_array e v) pname_size =
        Option.bind (strlcpy (pname_array e v) (bytes_of ''<kernel>'') pname_size) (\<lambda>b. Some (-1, b, r)) \<or>
      sebsd_ident_name e r ident (pname_array e v) pname_size =
        Option.bind (strlcpy (pname_array e v) (bytes_of ''<exited>'') pname_size) (\<lambda>b. Some (-1, b, r))"
      by (cases ident; cases "proc_find_ident e (the ident)"; simp add: sebsd_ident_name_def)
    then show ?thesis using str [of "bytes_of ''<kernel>''"] str [of "bytes_of ''<exited>''"] by auto
  next
    case True
    then obtain i p where ip: "ident = Some i" "proc_find_ident e i = Some p" by blast
    obtain b s where "proc_name e (proc_pid e p) (pname_array e v) (int_of_size pname_size) = Some b"
      "c_str b = Some s"
      using assms by (rule proc_nameE)
    then show ?thesis using ip by (simp add: sebsd_ident_name_def proc_rele_def Let_def)
  qed
qed

lemma signal_result:
  assumes "t \<noteq> 0 \<longrightarrow> names_ok e"
  shows "\<exists>ls. sebsd_proc_check_signal e t r cred i1 i2 signum = Some (0, ls, r) \<and>
    length ls = (if t \<noteq> 0 \<and> signum \<in> {SIGKILL, SIGSEGV, SIGBUS, SIGILL, SIGABRT, SIGTERM} then 1 else 0) \<and>
    list_all trace_line ls"
proof (cases "t \<noteq> 0 \<and> signum \<in> {SIGKILL, SIGSEGV, SIGBUS, SIGILL, SIGABRT, SIGTERM}")
  case False
  then show ?thesis by (auto simp: sebsd_proc_check_signal_def sebsd_tracing_def)
next
  case True
  then have n: "names_ok e" using assms by simp
  obtain p1 b1 s1 where "sebsd_ident_name e r i1 (pname_array e ''iname'') pname_size = Some (p1, b1, r)"
    "c_str b1 = Some s1"
    using ident_name_balanced [OF n] by blast
  moreover obtain p2 b2 s2 where
    "sebsd_ident_name e r i2 (pname_array e ''tname'') pname_size = Some (p2, b2, r)" "c_str b2 = Some s2"
    using ident_name_balanced [OF n] by blast
  ultimately show ?thesis using True
    by (auto simp: sebsd_proc_check_signal_def sebsd_tracing_def sebsd_log_debug_def kprintf_def
        trace_line_def SEBSD_TAG_def)
qed

text \<open>As a hook, without the references it gives back.\<close>

definition signal_hook :: "hook_env \<Rightarrow> cint \<Rightarrow> refs \<times> cred \<times> nat option \<times> nat option \<times> cint \<Rightarrow> verdict" where
  "signal_hook e t = (\<lambda>(r, cred, i1, i2, signum).
     map_option (\<lambda>(v, ls, r). (v, ls)) (sebsd_proc_check_signal e t r cred i1 i2 signum))"

interpretation proc_signal: observer signal_hook "\<lambda>_. True"
proof (unfold_locales, goal_cases)
  case (1 e a)
  show ?case by (auto simp: signal_hook_def sebsd_proc_check_signal_def sebsd_tracing_def)
next
  case (2 e a t)
  obtain r cred i1 i2 signum where a: "a = (r, cred, i1, i2, signum)" by (cases a)
  obtain ls where "sebsd_proc_check_signal e t r cred i1 i2 signum = Some (0, ls, r)" "length ls \<le> 1"
    "list_all trace_line ls"
    using signal_result [of t e r cred i1 i2 signum] 2(1) by (auto split: if_splits)
  then show ?case unfolding a by (simp add: signal_hook_def)
qed

section \<open>Properties\<close>

text \<open>
  The copy of a path component stays inside its buffer and is terminated, for every component
  whose name object covers its length, terminated or not, and every buffer size but 0: what is
  printed is the name up to the buffer's room, or \<open><none>\<close>.
\<close>

theorem cnp_name_bounded:
  assumes "cnp_ok cnp" "len \<noteq> 0" "unat len \<le> length buf"
  shows "\<exists>b. sebsd_cnp_name cnp buf len = Some b \<and> length b = length buf \<and>
    c_str b = Some (cnp_text cnp (unat len)) \<and> length (cnp_text cnp (unat len)) < unat len"
proof -
  obtain b where b: "sebsd_cnp_name cnp buf len = Some b" "length b = length buf"
    using cnp_name_text(2) [OF assms] by (auto simp: holds_str_def)
  moreover have "c_str b = Some (cnp_text cnp (unat len))" using cnp_name_text(1) [OF assms] b by simp
  moreover have "0 < unat len" using assms(2) by (simp add: unat_gt_0)
  then have "length (cnp_text cnp (unat len)) < unat len"
    by (auto simp: cnp_text_def bytes_of_def split: option.splits
        intro: le_less_trans [OF length_takeWhile_le])
  ultimately show ?thesis by blast
qed

definition long_name :: componentname where
  "long_name = \<lparr>cn_nameiop = 0, cn_flags = 0, cn_nameptr = Some (bytes_of ''component/rest''),
     cn_namelen = 9\<rparr>"

theorem cnp_name_bounded_witness:
  "\<exists>b. sebsd_cnp_name (Some long_name) [1, 2, 3, 4, 5] 5 = Some b \<and> length b = 5 \<and>
    c_str b = Some (bytes_of ''comp'')"
proof -
  have "cnp_ok (Some long_name)" by (simp add: cnp_ok_def long_name_def bytes_of_def)
  moreover have "cnp_text (Some long_name) 5 = bytes_of ''comp''"
    by (simp add: cnp_text_def long_name_def bytes_of_def)
  ultimately show ?thesis using cnp_name_bounded [of "Some long_name" 5 "[1, 2, 3, 4, 5]"] by auto
qed

text \<open>
  C22. The exec hook prints the letters of exactly the code signing flags that are set, in order and
  separated by commas, whatever the flags: its 32 bytes are never too few; a missing \<open>csflags\<close>
  pointer reads as no flags. The hook grants.
\<close>

theorem exec_letters_exact:
  assumes "names_ok e" "t \<noteq> 0" "flags = (case csflags of Some f \<Rightarrow> f | None \<Rightarrow> 0)"
  shows "\<exists>pname. sebsd_spawn_check_exec e t cred vp svp vl sl el cnp csflags at an =
    Some (0, sebsd_log_debug t ''exec: %s pid=%d uid=%d cs=0x%x(%s)''
      [A_str pname, A_int (sebsd_cur_pid e), A_int (kauth_cred_getuid e cred), A_int flags,
       A_str (commas (sig_letters sig_table flags))])"
proof -
  obtain b where b: "sebsd_csflag_bits flags (local_array e ''sig'' 32) 32 = Some b"
    "c_str b = Some (take 31 (commas (sig_letters sig_table flags)))"
    using csflag_bits_text [of 32 "local_array e ''sig'' 32" flags] by auto
  have "length (sig_letters sig_table flags) \<le> 10"
    using length_letters [of sig_table flags] by (simp add: sig_table_def)
  then have "length (commas (sig_letters sig_table flags)) \<le> 19" by (simp add: length_commas)
  then have "take 31 (commas (sig_letters sig_table flags)) = commas (sig_letters sig_table flags)" by simp
  moreover obtain p s where "sebsd_cur_name e (pname_array e ''pname'') pname_size = Some p" "c_str p = Some s"
    using assms(1) by (rule cur_nameE)
  ultimately show ?thesis using assms(2,3) b
    by (intro exI [of _ s]) (simp add: sebsd_spawn_check_exec_def sebsd_trace_exec_def sebsd_tracing_def)
qed

theorem exec_letters_exact_witness:
  "\<exists>pname. sebsd_spawn_check_exec lab 1 501 1 0 0 0 0 0 (Some 0x20010001) 0 0 =
    Some (0, sebsd_log_debug 1 ''exec: %s pid=%d uid=%d cs=0x%x(%s)''
      [A_str pname, A_int 70, A_int 501, A_int 0x20010001, A_str (bytes_of ''V,S,R'')])"
  using exec_letters_exact [OF lab_names, of 1 "0x20010001" "Some 0x20010001" 501 1 0 0 0 0 0 0 0]
  by (simp add: sig_letters_def sig_table_def bytes_of_def sebsd_cur_pid_def lab_def)

text \<open>
  C23. For every address that has the fields of its family, the connect hook prints the whole text of
  that address (dotted quad and port, eight groups, \<open><unix>\<close> or the family number) from its 64 byte
  array, with nothing cut off, and grants the connection.
\<close>

theorem connect_text_exact:
  assumes "names_ok e" "t \<noteq> 0" "addr_ok a"
  shows "\<exists>pname. sebsd_socket_check_connect e t cred so sl (Some a) =
      Some (0, sebsd_log_debug t ''connect: %s pid=%d -> %s uid=%d''
        [A_str pname, A_int (sebsd_cur_pid e), A_str (addr_text a),
         A_int (kauth_cred_getuid e cred)]) \<and> length (addr_text a) < 64"
proof -
  obtain b where "addr_host a (local_array e ''host'' 64) = Some b" "c_str b = Some (addr_text a)"
    using addr_host_text [OF assms(3), of "local_array e ''host'' 64"] by auto
  moreover obtain p s where "sebsd_cur_name e (pname_array e ''pname'') pname_size = Some p" "c_str p = Some s"
    using assms(1) by (rule cur_nameE)
  ultimately show ?thesis using assms(2) addr_text_fits [OF assms(3)]
    by (intro exI [of _ s]) (simp add: sebsd_socket_check_connect_def sebsd_tracing_def)
qed

definition loopback :: "byte list" where
  "loopback = [16, AF_INET, 31, 144, 127, 0, 0, 1, 0, 0, 0, 0, 0, 0, 0, 0]"

theorem connect_text_exact_witness:
  "\<exists>pname. sebsd_socket_check_connect lab 1 501 0 0 (Some loopback) =
      Some (0, sebsd_log_debug 1 ''connect: %s pid=%d -> %s uid=%d''
        [A_str pname, A_int 70, A_str (bytes_of ''127.0.0.1:8080''), A_int 501])"
proof -
  have "addr_text loopback = bytes_of ''127.0.0.1:8080''"
    by (simp add: addr_text_def loopback_def joined_four dec.simps bytes_of_def)
  moreover have "addr_ok loopback" by (simp add: addr_ok_def loopback_def)
  ultimately show ?thesis
    using connect_text_exact [OF lab_names, of 1 loopback 501 0 0]
    by (simp add: sebsd_cur_pid_def lab_def)
qed

text \<open>
  C24. The signal hook gives back every process reference it takes, in each case of the two identities
  (none, exited, live), grants the signal, and prints one line exactly for the six fatal signals
  with tracing on.
\<close>

theorem signal_refs_balanced:
  assumes "names_ok e"
  shows "\<exists>ls. sebsd_proc_check_signal e t r cred i1 i2 signum = Some (0, ls, r) \<and>
    length ls = (if t \<noteq> 0 \<and> signum \<in> {SIGKILL, SIGSEGV, SIGBUS, SIGILL, SIGABRT, SIGTERM} then 1 else 0) \<and>
    list_all trace_line ls"
  using assms by (intro signal_result) simp

theorem signal_refs_balanced_witness:
  "\<exists>ls. sebsd_proc_check_signal lab 1 (\<lambda>_. 0) 501 (Some 70) (Some 71) SIGKILL = Some (0, ls, \<lambda>_. 0) \<and>
    length ls = 1"
  using signal_refs_balanced [OF lab_names, of 1 "\<lambda>_. 0" 501 "Some 70" "Some 71" SIGKILL] by auto

end
