(* ===== verification/Lookup_Fuse.thy ===== *)
theory Lookup_Fuse imports Lookup_Spec Hooks_Props begin

text \<open>
  The fuse of the lookup hook over any number of dispatches one after the other: how many land, and
  what the module looks like afterwards.
\<close>

section \<open>One dispatch\<close>

definition trace_ok :: "hook_env \<Rightarrow> cint \<Rightarrow> componentname option \<Rightarrow> bool" where
  "trace_ok e t cnp \<longleftrightarrow> (t \<noteq> 0 \<longrightarrow> names_ok e \<and> cnp_ok cnp)"

lemma trace_lookup_total:
  assumes "names_ok e" "cnp_ok cnp"
  shows "\<exists>l. sebsd_trace_lookup e t n dvp dlabel cnp = Some l"
proof -
  obtain b where "sebsd_cnp_name cnp (name_array e ''name'') name_size = Some b"
    "c_str b = Some (cnp_text cnp SEBSD_TRACE_NAME_MAX)"
    using assms(2) by (rule cnp_nameE)
  moreover obtain p s where "sebsd_cur_name e (pname_array e ''pname'') pname_size = Some p" "c_str p = Some s"
    using assms(1) by (rule cur_nameE)
  ultimately show ?thesis by (simp add: sebsd_trace_lookup_def)
qed

text \<open>What dispatches leave alone; and the slots and mask before and after the fuse.\<close>

definition same_switches :: "kext \<Rightarrow> kext \<Rightarrow> bool" where
  "same_switches k k' \<longleftrightarrow> sebsd_lookup_owner k' = sebsd_lookup_owner k \<and>
     sebsd_lookup_fuse k' = sebsd_lookup_fuse k \<and> sebsd_trace_enabled k' = sebsd_trace_enabled k \<and>
     sebsd_lookup_depth k' = sebsd_lookup_depth k \<and> sebsd_lookup_recursed k' = sebsd_lookup_recursed k \<and>
     sebsd_unsafe_enabled k' = sebsd_unsafe_enabled k \<and> k_tree k' = k_tree k"

definition still_armed :: "kext \<Rightarrow> kext \<Rightarrow> bool" where
  "still_armed k k' \<longleftrightarrow> sebsd_ops k' = sebsd_ops k \<and> sebsd_hooks_enabled k' = sebsd_hooks_enabled k"

definition disarmed :: "kext \<Rightarrow> kext \<Rightarrow> bool" where
  "disarmed k k' \<longleftrightarrow> sebsd_ops k' = (sebsd_ops k)(mpo_vnode_check_lookup := None) \<and>
     sebsd_hooks_enabled k' = sebsd_hooks_enabled k AND NOT SEBSD_HOOK_VNODE_LOOKUP"

lemma one_dispatch:
  assumes "sebsd_lookup_owner k = 0" "current_thread e \<noteq> 0" "trace_ok e (sebsd_trace_enabled k) cnp"
    "sebsd_ops k mpo_vnode_check_lookup \<noteq> None"
  shows "\<exists>k'. lookup_dispatch e cred dvp dlabel cnp k = Some k' \<and> same_switches k k' \<and>
    sebsd_lookup_count k' = sebsd_lookup_count k + 1 \<and>
    (if fuse_blown k (sebsd_lookup_count k + 1) then disarmed k k' else still_armed k k')"
proof (cases "sebsd_trace_enabled k = 0")
  case True
  then show ?thesis using assms
    by (auto simp: lookup_dispatch_def sebsd_vnode_check_lookup_def Let_def sebsd_tracing_def
        same_switches_def disarmed_def still_armed_def sebsd_hooks_blow_lookup_fuse_def fuse_blown_def)
next
  case False
  obtain l where "sebsd_trace_lookup e (sebsd_trace_enabled k) (sebsd_lookup_count k + 1) dvp dlabel cnp = Some l"
    using trace_lookup_total [of e cnp "sebsd_trace_enabled k" "sebsd_lookup_count k + 1" dvp dlabel]
      assms(3) False by (auto simp: trace_ok_def)
  then show ?thesis using assms False
    by (auto simp: lookup_dispatch_def sebsd_vnode_check_lookup_def Let_def sebsd_tracing_def
        same_switches_def disarmed_def still_armed_def sebsd_hooks_blow_lookup_fuse_def fuse_blown_def
        emit_def)
qed

section \<open>Many dispatches\<close>

fun lookup_dispatches ::
  "hook_env \<Rightarrow> cred \<Rightarrow> opaque \<Rightarrow> opaque \<Rightarrow> componentname option \<Rightarrow> nat \<Rightarrow> kext \<Rightarrow> kext option" where
  "lookup_dispatches e cred dvp dlabel cnp 0 k = Some k"
| "lookup_dispatches e cred dvp dlabel cnp (Suc m) k = do {
     k \<leftarrow> lookup_dispatches e cred dvp dlabel cnp m k;
     lookup_dispatch e cred dvp dlabel cnp k }"

text \<open>How many dispatches land before the fuse blows.\<close>

definition landing :: "kext \<Rightarrow> nat" where
  "landing k = max 1 (unat (sebsd_lookup_fuse k) - unat (sebsd_lookup_count k))"

lemma landing_pos: "0 < landing k"
  by (simp add: landing_def)

lemma count_below:
  fixes c :: uint32
  assumes "unat c + m < 2 ^ 32"
  shows "unat (c + of_nat m) = unat c + m"
  using assms by (simp add: unat_word_ariths unat_of_nat)

lemma blown_iff:
  assumes "0 < sint (sebsd_lookup_fuse k)" "unat (sebsd_lookup_count k) + Suc m < 2 ^ 32"
    "m < landing k" "sebsd_lookup_fuse k' = sebsd_lookup_fuse k"
    "sebsd_lookup_count k' = sebsd_lookup_count k + of_nat m"
  shows "fuse_blown k' (sebsd_lookup_count k' + 1) \<longleftrightarrow> Suc m = landing k"
proof -
  have "sebsd_lookup_count k' + 1 = sebsd_lookup_count k + of_nat (Suc m)"
    using assms(5) by (simp add: ac_simps)
  then have "unat (sebsd_lookup_count k' + 1) = unat (sebsd_lookup_count k) + Suc m"
    using count_below [OF assms(2)] by (simp only:)
  then show ?thesis using assms(1,3,4)
    by (auto simp: fuse_blown_def word_le_nat_alt landing_def max_def split: if_splits)
qed

lemma switches_trans: "same_switches k k' \<Longrightarrow> same_switches k' k'' \<Longrightarrow> same_switches k k''"
  by (simp add: same_switches_def)

lemma dispatches_result:
  assumes "sebsd_lookup_owner k = 0" "current_thread e \<noteq> 0" "trace_ok e (sebsd_trace_enabled k) cnp"
    "sebsd_ops k mpo_vnode_check_lookup \<noteq> None" "0 < sint (sebsd_lookup_fuse k)"
    "unat (sebsd_lookup_count k) + m < 2 ^ 32"
  shows "\<exists>k'. lookup_dispatches e cred dvp dlabel cnp m k = Some k' \<and> same_switches k k' \<and>
    sebsd_lookup_count k' = sebsd_lookup_count k + of_nat (min m (landing k)) \<and>
    (if m < landing k then still_armed k k' else disarmed k k')"
  using assms(6)
proof (induction m)
  case 0
  then show ?case using landing_pos [of k] by (simp add: same_switches_def still_armed_def)
next
  case (Suc m)
  then obtain k' where k': "lookup_dispatches e cred dvp dlabel cnp m k = Some k'" "same_switches k k'"
    "sebsd_lookup_count k' = sebsd_lookup_count k + of_nat (min m (landing k))"
    "if m < landing k then still_armed k k' else disarmed k k'"
    by auto
  show ?case
  proof (cases "m < landing k")
    case False
    then have "disarmed k k'" using k'(4) by simp
    then have "lookup_dispatch e cred dvp dlabel cnp k' = Some k'"
      by (simp add: disarmed_def lookup_dispatch_def)
    then show ?thesis using k' False by (auto simp: min_def)
  next
    case True
    then have arm: "still_armed k k'" "sebsd_lookup_count k' = sebsd_lookup_count k + of_nat m"
      using k' by (simp_all add: min_def)
    have fz: "sebsd_lookup_fuse k' = sebsd_lookup_fuse k" using k'(2) by (simp add: same_switches_def)
    have pre: "sebsd_lookup_owner k' = 0" "trace_ok e (sebsd_trace_enabled k') cnp"
      "sebsd_ops k' mpo_vnode_check_lookup \<noteq> None"
      using assms k'(2) arm(1) by (simp_all add: same_switches_def still_armed_def)
    obtain k'' where k'': "lookup_dispatch e cred dvp dlabel cnp k' = Some k''" "same_switches k' k''"
      "sebsd_lookup_count k'' = sebsd_lookup_count k' + 1"
      "if fuse_blown k' (sebsd_lookup_count k' + 1) then disarmed k' k'' else still_armed k' k''"
      using one_dispatch [OF pre(1) assms(2) pre(2,3)] by blast
    note bl = blown_iff [OF assms(5) Suc.prems True fz arm(2)]
    have "sebsd_lookup_count k'' = sebsd_lookup_count k + of_nat (min (Suc m) (landing k))"
      using k''(3) arm(2) True by (simp add: min_def)
    moreover have "if Suc m < landing k then still_armed k k'' else disarmed k k''"
      using k''(4) bl True arm(1) by (auto simp: still_armed_def disarmed_def)
    ultimately show ?thesis using k'(1) k''(1) switches_trans [OF k'(2) k''(2)] by auto
  qed
qed

text \<open>A fuse of 0, or below, never blows.\<close>

lemma dispatches_no_fuse:
  assumes "sebsd_lookup_owner k = 0" "current_thread e \<noteq> 0" "trace_ok e (sebsd_trace_enabled k) cnp"
    "sebsd_ops k mpo_vnode_check_lookup \<noteq> None" "sint (sebsd_lookup_fuse k) \<le> 0"
  shows "\<exists>k'. lookup_dispatches e cred dvp dlabel cnp m k = Some k' \<and> same_switches k k' \<and>
    sebsd_lookup_count k' = sebsd_lookup_count k + of_nat m \<and> still_armed k k'"
proof (induction m)
  case 0
  then show ?case by (simp add: same_switches_def still_armed_def)
next
  case (Suc m)
  then obtain k' where k': "lookup_dispatches e cred dvp dlabel cnp m k = Some k'" "same_switches k k'"
    "sebsd_lookup_count k' = sebsd_lookup_count k + of_nat m" "still_armed k k'" by auto
  have pre: "sebsd_lookup_owner k' = 0" "trace_ok e (sebsd_trace_enabled k') cnp"
    "sebsd_ops k' mpo_vnode_check_lookup \<noteq> None"
    using assms k' by (simp_all add: same_switches_def still_armed_def)
  have "\<not> fuse_blown k' n" for n using assms(5) k'(2) by (simp add: fuse_blown_def same_switches_def)
  then obtain k'' where "lookup_dispatch e cred dvp dlabel cnp k' = Some k''" "same_switches k' k''"
    "sebsd_lookup_count k'' = sebsd_lookup_count k' + 1" "still_armed k' k''"
    using one_dispatch [OF pre(1) assms(2) pre(2,3), of cred dvp dlabel] by auto
  then show ?case using k' switches_trans by (auto simp: still_armed_def)
qed

lemma dispatches_exact:
  assumes "sebsd_lookup_owner k = 0" "current_thread e \<noteq> 0" "trace_ok e (sebsd_trace_enabled k) cnp"
    "sebsd_ops k mpo_vnode_check_lookup \<noteq> None" "unat (sebsd_lookup_count k) + m < 2 ^ 32"
  shows "\<exists>k'. lookup_dispatches e cred dvp dlabel cnp m k = Some k' \<and> same_switches k k' \<and>
    unat (sebsd_lookup_count k') = unat (sebsd_lookup_count k) +
      (if 0 < sint (sebsd_lookup_fuse k) then min m (landing k) else m) \<and>
    (if 0 < sint (sebsd_lookup_fuse k) \<and> landing k \<le> m then disarmed k k' else still_armed k k')"
proof (cases "0 < sint (sebsd_lookup_fuse k)")
  case True
  have "unat (sebsd_lookup_count k) + min m (landing k) < 2 ^ 32" using assms(5) by simp
  from count_below [OF this] dispatches_result [OF assms(1-4) True assms(5), of cred dvp dlabel] True
  show ?thesis by (auto simp: not_less [symmetric])
next
  case False
  then show ?thesis
    using dispatches_no_fuse [OF assms(1-4), of cred dvp dlabel m] count_below [OF assms(5)] by auto
qed

section \<open>What they print\<close>

text \<open>The name of the running process; the line of dispatch \<open>n\<close>.\<close>

definition cur_text :: "hook_env \<Rightarrow> byte list" where
  "cur_text e = the (Option.bind (sebsd_cur_name e (pname_array e ''pname'') pname_size) c_str)"

definition lookup_line ::
  "hook_env \<Rightarrow> opaque \<Rightarrow> opaque \<Rightarrow> componentname option \<Rightarrow> uint32 \<Rightarrow> line" where
  "lookup_line e dvp dlabel cnp n =
     (SEBSD_TAG @ '': debug: lookup #%u: %s pid=%d name=%s op=%u flags=0x%x dvp=%p label=%p thread=%p'' @ newline,
      [A_int n, A_str (cur_text e), A_int (sebsd_cur_pid e), A_str (cnp_text cnp SEBSD_TRACE_NAME_MAX),
       A_int (case cnp of Some c \<Rightarrow> cn_nameiop c | None \<Rightarrow> 0), A_int (case cnp of Some c \<Rightarrow> cn_flags c | None \<Rightarrow> 0),
       A_ptr dvp, A_ptr dlabel, A_ptr (current_thread e)])"

lemma trace_lookup_line:
  assumes "names_ok e" "cnp_ok cnp" "t \<noteq> 0"
  shows "sebsd_trace_lookup e t n dvp dlabel cnp = Some [lookup_line e dvp dlabel cnp n]"
proof -
  obtain b where "sebsd_cnp_name cnp (name_array e ''name'') name_size = Some b"
    "c_str b = Some (cnp_text cnp SEBSD_TRACE_NAME_MAX)"
    using assms(2) by (rule cnp_nameE)
  moreover obtain p s where "sebsd_cur_name e (pname_array e ''pname'') pname_size = Some p" "c_str p = Some s"
    using assms(1) by (rule cur_nameE)
  ultimately show ?thesis using assms(3)
    by (simp add: sebsd_trace_lookup_def lookup_line_def cur_text_def sebsd_log_debug_def kprintf_def)
qed

lemma dispatch_prints:
  assumes "lookup_dispatch e cred dvp dlabel cnp k = Some k'" "sebsd_lookup_owner k = 0" "current_thread e \<noteq> 0"
    "trace_ok e (sebsd_trace_enabled k) cnp" "sebsd_ops k mpo_vnode_check_lookup \<noteq> None"
  shows "sebsd_lookup_maxdepth k' = max (sebsd_lookup_maxdepth k) (sebsd_lookup_depth k + 1) \<and>
    k_log k' = k_log k @ (if sebsd_trace_enabled k = 0 then []
      else [lookup_line e dvp dlabel cnp (sebsd_lookup_count k + 1)])"
proof -
  have t: "sebsd_trace_enabled k \<noteq> 0 \<Longrightarrow> sebsd_trace_lookup e (sebsd_trace_enabled k) n dvp dlabel cnp =
      Some [lookup_line e dvp dlabel cnp n]" for n
    using trace_lookup_line assms(4) by (simp add: trace_ok_def)
  show ?thesis using assms(1-3,5)
    by (cases "sebsd_trace_enabled k = 0"; cases "sebsd_lookup_maxdepth k < sebsd_lookup_depth k + 1")
      (auto simp: lookup_dispatch_def sebsd_vnode_check_lookup_def Let_def sebsd_tracing_def t emit_def
        sebsd_hooks_blow_lookup_fuse_def max_def)
qed

text \<open>How many of \<open>m\<close> dispatches land.\<close>

definition landed :: "kext \<Rightarrow> nat \<Rightarrow> nat" where
  "landed k m = (if 0 < sint (sebsd_lookup_fuse k) then min m (landing k) else m)"

lemma dispatches_print:
  assumes "sebsd_lookup_owner k = 0" "current_thread e \<noteq> 0" "trace_ok e (sebsd_trace_enabled k) cnp"
    "sebsd_ops k mpo_vnode_check_lookup \<noteq> None" "unat (sebsd_lookup_count k) + m < 2 ^ 32"
    "lookup_dispatches e cred dvp dlabel cnp m k = Some k'"
  shows "sebsd_lookup_maxdepth k' =
      (if m = 0 then sebsd_lookup_maxdepth k else max (sebsd_lookup_maxdepth k) (sebsd_lookup_depth k + 1)) \<and>
    k_log k' = k_log k @ (if sebsd_trace_enabled k = 0 then []
      else map (\<lambda>i. lookup_line e dvp dlabel cnp (sebsd_lookup_count k + of_nat i)) [1..<landed k m + 1])"
  using assms(5,6)
proof (induction m arbitrary: k')
  case 0
  then show ?case by (simp add: landed_def)
next
  case (Suc m)
  then obtain k1 where k1: "lookup_dispatches e cred dvp dlabel cnp m k = Some k1"
    "lookup_dispatch e cred dvp dlabel cnp k1 = Some k'" by (auto simp: bind_eq_Some_conv)
  have m: "unat (sebsd_lookup_count k) + m < 2 ^ 32" using Suc.prems(1) by simp
  note ih = Suc.IH [OF m k1(1)]
  have st: "same_switches k k1" "unat (sebsd_lookup_count k1) = unat (sebsd_lookup_count k) + landed k m"
    "if 0 < sint (sebsd_lookup_fuse k) \<and> landing k \<le> m then disarmed k k1 else still_armed k k1"
    using dispatches_exact [OF assms(1-4) m, of cred dvp dlabel] k1(1) by (auto simp: landed_def)
  show ?case
  proof (cases "0 < sint (sebsd_lookup_fuse k) \<and> landing k \<le> m")
    case True
    then have "k' = k1" using st(3) k1(2) by (simp add: disarmed_def lookup_dispatch_def)
    moreover have "m \<noteq> 0" using True landing_pos [of k] by auto
    moreover have "landed k (Suc m) = landed k m" using True by (simp add: landed_def)
    ultimately show ?thesis using ih by simp
  next
    case False
    then have on: "landed k m = m" "landed k (Suc m) = Suc m" "still_armed k k1"
      using st(3) by (auto simp: landed_def min_def)
    have pre: "sebsd_lookup_owner k1 = 0" "trace_ok e (sebsd_trace_enabled k1) cnp"
      "sebsd_ops k1 mpo_vnode_check_lookup \<noteq> None" "sebsd_lookup_depth k1 = sebsd_lookup_depth k"
      "sebsd_trace_enabled k1 = sebsd_trace_enabled k"
      using assms st(1) on(3) by (simp_all add: same_switches_def still_armed_def)
    have "sebsd_lookup_count k1 = sebsd_lookup_count k + of_nat m"
      using st(2) on(1) count_below [OF m] by (simp add: word_unat_eq_iff)
    then show ?thesis using dispatch_prints [OF k1(2) pre(1) assms(2) pre(2,3)] ih pre(4,5) on(1,2)
      by (auto simp: max_def ac_simps)
  qed
qed

section \<open>Properties\<close>

text \<open>
  C6. The fuse: of any number of dispatches one after the other, exactly as many land as the fuse
  leaves over the count (at least one), and all of them if the fuse is 0 or below; until then the
  vector and the mask are as they were, and from then on the lookup slot is empty, its bit is gone
  from the mask, and all else is as it was. The hook returns each time and leaves the owner clear and
  the depth unchanged.
\<close>

theorem lookup_fuse_exact:
  assumes "sebsd_lookup_owner k = 0" "current_thread e \<noteq> 0" "trace_ok e (sebsd_trace_enabled k) cnp"
    "sebsd_ops k mpo_vnode_check_lookup \<noteq> None" "unat (sebsd_lookup_count k) + m < 2 ^ 32"
  shows "\<exists>k'. lookup_dispatches e cred dvp dlabel cnp m k = Some k' \<and> same_switches k k' \<and>
    unat (sebsd_lookup_count k') = unat (sebsd_lookup_count k) +
      (if 0 < sint (sebsd_lookup_fuse k) then min m (landing k) else m) \<and>
    (if 0 < sint (sebsd_lookup_fuse k) \<and> landing k \<le> m then disarmed k k' else still_armed k k')"
  using assms by (rule dispatches_exact)

definition fused :: kext where
  "fused = kext_data\<lparr>sebsd_hooks_enabled := 0x11, sebsd_lookup_fuse := 4, sebsd_lookup_count := 1,
     sebsd_ops := (\<lambda>_. None)(mpo_vnode_check_lookup := Some F_vnode_check_lookup)\<rparr>"

theorem lookup_fuse_exact_witness:
  "\<exists>k'. lookup_dispatches lab 501 0 0 None 10 fused = Some k' \<and> unat (sebsd_lookup_count k') = 4 \<and>
    sebsd_ops k' mpo_vnode_check_lookup = None \<and> sebsd_hooks_enabled k' = 1"
proof -
  have "landing fused = 3" by (simp add: landing_def fused_def kext_data_def)
  moreover have "sebsd_lookup_owner fused = 0" "current_thread lab \<noteq> 0"
    "trace_ok lab (sebsd_trace_enabled fused) None" "sebsd_ops fused mpo_vnode_check_lookup \<noteq> None"
    "unat (sebsd_lookup_count fused) + 10 < 2 ^ 32" "0 < sint (sebsd_lookup_fuse fused)"
    by (simp_all add: fused_def kext_data_def lab_def trace_ok_def)
  ultimately show ?thesis using lookup_fuse_exact [of fused lab None 10 501 0 0]
    by (auto simp: disarmed_def fused_def kext_data_def hook_bits)
qed

text \<open>
  C20. What the counters and the log say after any number of dispatches one after the other: with tracing
  on, one line for each that landed and no other, numbered without a gap from the count on, with the
  names, the operation and the pointers of the call; with it off, nothing. \<open>lookup_maxdepth\<close> is raised to
  the depth inside the hook by the first and by no later one.
\<close>

theorem lookup_trace_exact:
  assumes "sebsd_lookup_owner k = 0" "current_thread e \<noteq> 0" "trace_ok e (sebsd_trace_enabled k) cnp"
    "sebsd_ops k mpo_vnode_check_lookup \<noteq> None" "unat (sebsd_lookup_count k) + m < 2 ^ 32"
  shows "\<exists>k'. lookup_dispatches e cred dvp dlabel cnp m k = Some k' \<and>
    k_log k' = k_log k @ (if sebsd_trace_enabled k = 0 then []
      else map (\<lambda>i. lookup_line e dvp dlabel cnp (sebsd_lookup_count k + of_nat i)) [1..<landed k m + 1]) \<and>
    sebsd_lookup_maxdepth k' =
      (if m = 0 then sebsd_lookup_maxdepth k else max (sebsd_lookup_maxdepth k) (sebsd_lookup_depth k + 1))"
proof -
  obtain k' where k': "lookup_dispatches e cred dvp dlabel cnp m k = Some k'"
    using dispatches_exact [OF assms, of cred dvp dlabel] by blast
  from dispatches_print [OF assms this] k' show ?thesis by blast
qed

text \<open>A fuse of 4 and a count of 1: of ten dispatches three print, as numbers 2, 3 and 4.\<close>

theorem lookup_trace_exact_witness:
  "\<exists>k'. lookup_dispatches lab 501 7 0 None 10 (fused\<lparr>sebsd_trace_enabled := 1\<rparr>) = Some k' \<and>
    k_log k' = map (lookup_line lab 7 0 None) [2, 3, 4] \<and> sebsd_lookup_maxdepth k' = 1"
proof -
  let ?k = "fused\<lparr>sebsd_trace_enabled := 1\<rparr>"
  have "landed ?k 10 = 3" by (simp add: landed_def landing_def fused_def kext_data_def)
  moreover have "sebsd_lookup_owner ?k = 0" "current_thread lab \<noteq> 0"
    "trace_ok lab (sebsd_trace_enabled ?k) None" "sebsd_ops ?k mpo_vnode_check_lookup \<noteq> None"
    "unat (sebsd_lookup_count ?k) + 10 < 2 ^ 32" "k_log ?k = []" "sebsd_lookup_maxdepth ?k = 0"
    "sebsd_lookup_depth ?k = 0" "sebsd_lookup_count ?k = 1" "sebsd_trace_enabled ?k = 1"
    using lab_names
    by (simp_all add: fused_def kext_data_def lab_def trace_ok_def cnp_ok_def)
  ultimately show ?thesis using lookup_trace_exact [of ?k lab None 10 501 7 0]
    by (simp add: upt_rec)
qed

end
