(* ===== verification/Policy_Life.thy ===== *)
theory Policy_Life imports Policy_Spec begin

text \<open>
  The properties of the policy module over its life: what the mask and the slots say of each other
  in every reachable state, the second key of the quarantined hook, the sysctl tree, and what a
  failed unload leaves behind.
\<close>

section \<open>Exact or cleared\<close>

text \<open>
  The slots are exactly what the mask asks for, except after an unload: that clears them and leaves the
  mask, and if the framework refuses it they stay so until the mask is written again. \<open>kext_life\<close> is
  \<open>kext_reach\<close> with a record of that: whether an unload was tried after the last accepted write of the mask.
\<close>

definition mask_written :: "sysctl_oid \<Rightarrow> sysctl_req \<Rightarrow> cint \<Rightarrow> bool" where
  "mask_written o1 req e \<longleftrightarrow> o1 = sebsd_sysctl_hooks \<and> rq_newptr req \<noteq> 0 \<and> e = 0"

inductive kext_life ::
  "handle_int \<Rightarrow> (sysctl_oid \<Rightarrow> sysctl_req \<Rightarrow> bool) \<Rightarrow> bool \<Rightarrow> kext \<Rightarrow> bool"
  for shi :: handle_int and P :: "sysctl_oid \<Rightarrow> sysctl_req \<Rightarrow> bool" where
  start_ok: "sebsd_mac_policy_register error handle kext_data = (KERN_SUCCESS, k) \<Longrightarrow>
    kext_life shi P False k"
| start_failed: "sebsd_mac_policy_register error handle kext_data = (KERN_FAILURE, k) \<Longrightarrow>
    kext_life shi P False (k\<lparr>k_loaded := False\<rparr>)"
| sysctl: "kext_life shi P c k \<Longrightarrow> k_loaded k \<Longrightarrow> o1 \<in> set (k_tree k) \<Longrightarrow> P o1 req \<Longrightarrow>
    sysctl_call shi o1 req k = (e, k') \<Longrightarrow> kext_life shi P (c \<and> \<not> mask_written o1 req e) k'"
| blow: "kext_life shi P c k \<Longrightarrow> k_loaded k \<Longrightarrow> kext_life shi P c (sebsd_hooks_blow_lookup_fuse k)"
| stop_ok: "kext_life shi P c k \<Longrightarrow> k_loaded k \<Longrightarrow>
    sebsd_mac_policy_unregister error k = (KERN_SUCCESS, k') \<Longrightarrow>
    kext_life shi P True (k'\<lparr>k_loaded := False\<rparr>)"
| stop_failed: "kext_life shi P c k \<Longrightarrow> k_loaded k \<Longrightarrow>
    sebsd_mac_policy_unregister error k = (KERN_FAILURE, k') \<Longrightarrow> kext_life shi P True k'"

text \<open>The record changes nothing about what is reachable.\<close>

lemma kext_life_reach: "kext_life shi P c k \<Longrightarrow> kext_reach shi P k"
  by (induction rule: kext_life.induct) (auto intro: kext_reach.intros)

lemma kext_reach_life: "kext_reach shi P k \<Longrightarrow> \<exists>c. kext_life shi P c k"
  by (induction rule: kext_reach.induct) (blast intro: kext_life.intros)+

definition slots_exact :: "kext \<Rightarrow> bool" where
  "slots_exact k \<longleftrightarrow> mask_installed (sebsd_ops k) (sebsd_hooks_enabled k)"

definition slots_quiet :: "kext \<Rightarrow> bool" where
  "slots_quiet k \<longleftrightarrow> mask_installed (sebsd_ops k) 0"

lemma quiet_blow: "slots_quiet k \<Longrightarrow> slots_quiet (sebsd_hooks_blow_lookup_fuse k)"
  by (auto simp: slots_quiet_def mask_installed_def list_all_iff blow_ops)

text \<open>A sysctl that does not write the mask leaves mask and vector alone; one that does installs it.\<close>

lemma hooks_oid: "o1 \<in> set register_order \<Longrightarrow> o_handler o1 = H_hooks_handler \<Longrightarrow> o1 = sebsd_sysctl_hooks"
  by (auto simp: register_order_def oid_defs)

lemma handler_effect:
  assumes "sebsd_sysctl_hooks_handler shi req k = (e, k')"
  shows "if rq_newptr req \<noteq> 0 \<and> e = 0 then slots_exact k'
    else sebsd_ops k' = sebsd_ops k \<and> sebsd_hooks_enabled k' = sebsd_hooks_enabled k"
  using assms
  by (auto simp: sebsd_sysctl_hooks_handler_def slots_exact_def install_hooks_installs split: prod.splits if_splits)

lemma sysctl_effect:
  assumes "sysctl_call shi o1 req k = (e, k')" "o1 \<in> set register_order"
  shows "if mask_written o1 req e then slots_exact k'
    else sebsd_ops k' = sebsd_ops k \<and> sebsd_hooks_enabled k' = sebsd_hooks_enabled k"
proof (cases "o_handler o1")
  case H_hooks_handler
  then show ?thesis using assms handler_effect [of shi req k e k'] hooks_oid
    by (simp add: sysctl_call_def mask_written_def)
next
  case H_none
  then show ?thesis using assms by (auto simp: sysctl_call_def mask_written_def sebsd_sysctl_hooks_def)
next
  case H_sysctl_handle_int
  then have "o1 \<noteq> sebsd_sysctl_hooks" by (auto simp: sebsd_sysctl_hooks_def)
  then show ?thesis using assms int_oids [OF assms(2) H_sysctl_handle_int] H_sysctl_handle_int
    by (auto simp: sysctl_call_def mask_written_def var_set_hooks split: prod.splits)
qed

lemma slots_stop:
  assumes "kext_inv k" "k_loaded k" "sebsd_mac_policy_unregister error k = (r, k')"
  shows "slots_quiet k'"
proof -
  have "sebsd_registered k = 1" "k_tree k = register_order" using assms(1,2) by (auto simp: kext_inv_def)
  then show ?thesis
    using unregister_result [OF assms(3)] by (simp add: slots_quiet_def install_hooks_installs)
qed

lemma kext_life_slots: "kext_life shi P c k \<Longrightarrow> if c then slots_quiet k else slots_exact k"
proof (induction rule: kext_life.induct)
  case (start_ok error handle k)
  then show ?case using register_result [OF start_ok] by (auto simp: slots_exact_def)
next
  case (start_failed error handle k)
  then show ?case using register_result [OF start_failed] by (auto simp: slots_exact_def)
next
  case (sysctl c k o1 req e k')
  have "k_tree k = register_order"
    using kext_reach_inv [OF kext_life_reach [OF sysctl.hyps(1)]] sysctl.hyps(2) by (simp add: kext_inv_def)
  then have "if mask_written o1 req e then slots_exact k'
      else sebsd_ops k' = sebsd_ops k \<and> sebsd_hooks_enabled k' = sebsd_hooks_enabled k"
    using sysctl_effect [OF sysctl.hyps(5)] sysctl.hyps(3) by simp
  then show ?case using sysctl.IH
    by (auto simp: slots_exact_def slots_quiet_def split: if_splits)
next
  case (blow c k)
  then show ?case using blow_installed [of k] quiet_blow [of k] by (auto simp: slots_exact_def)
next
  case (stop_ok c k error k')
  then show ?case using slots_stop [OF kext_reach_inv [OF kext_life_reach] stop_ok.hyps(2,3)]
    by (simp add: slots_quiet_def)
next
  case (stop_failed c k error k')
  then show ?case using slots_stop [OF kext_reach_inv [OF kext_life_reach] stop_failed.hyps(2,3)] by simp
qed

lemma kext_reach_slots: "kext_reach shi P k \<Longrightarrow> slots_exact k \<or> slots_quiet k"
  using kext_reach_life kext_life_slots by (metis (full_types))

section \<open>The second key\<close>

text \<open>
  What the module relies on of \<open>sysctl_handle_int\<close>: without a new value it leaves the variable alone.
  And requests that never give \<open>sedarwin.unsafe\<close> a new value.
\<close>

definition reads_only :: "handle_int \<Rightarrow> bool" where
  "reads_only shi \<longleftrightarrow> (\<forall>v req. rq_newptr req = 0 \<longrightarrow> snd (shi v req) = v)"

definition no_second_key :: "sysctl_oid \<Rightarrow> sysctl_req \<Rightarrow> bool" where
  "no_second_key o1 req \<longleftrightarrow> o1 \<noteq> sebsd_sysctl_unsafe \<or> rq_newptr req = 0"

definition key_safe :: "kext \<Rightarrow> bool" where
  "key_safe k \<longleftrightarrow> sebsd_unsafe_enabled k = 0 \<and> sebsd_hooks_enabled k AND SEBSD_HOOK_UNSAFE = 0"

lemma unsafe_oid:
  "o1 \<in> set register_order \<Longrightarrow> o_arg1 o1 = V_unsafe \<Longrightarrow> o1 = sebsd_sysctl_unsafe"
  by (auto simp: register_order_def oid_defs)

lemma key_sysctl:
  assumes "sysctl_call shi o1 req k = (e, k')" "o1 \<in> set register_order"
    "key_safe k" "reads_only shi" "no_second_key o1 req"
  shows "key_safe k'"
  using assms(1,2)
proof (cases rule: sysctl_cases)
  case (same ls)
  then show ?thesis using assms(3) by (simp add: key_safe_def)
next
  case (var i)
  show ?thesis
  proof (cases "o_arg1 o1 = V_unsafe")
    case True
    then have "rq_newptr req = 0" using unsafe_oid [OF assms(2)] assms(5) by (simp add: no_second_key_def)
    then have "i = sebsd_unsafe_enabled k" using var(3) True assms(4) by (simp add: reads_only_def)
    then show ?thesis using var True assms(3) by (simp add: key_safe_def)
  next
    case False
    then show ?thesis using var assms(3) by (simp add: key_safe_def var_set_hooks var_set_unsafe)
  qed
next
  case (hooks v ls)
  then show ?thesis using assms(3) by (auto simp: key_safe_def)
qed

lemma key_blow: "key_safe k \<Longrightarrow> key_safe (sebsd_hooks_blow_lookup_fuse k)"
  unfolding key_safe_def SEBSD_HOOK_UNSAFE_def
  by (simp only: blow_ops blow_fields masked_blown simp_thms)

lemma kext_reach_key:
  assumes "kext_reach shi no_second_key k" "reads_only shi"
  shows "key_safe k"
  using assms(1)
proof (induction rule: kext_reach.induct)
  case (start_ok error handle k)
  then show ?case using register_result [OF start_ok] by (simp add: key_safe_def)
next
  case (start_failed error handle k)
  then show ?case using register_result [OF start_failed] by (simp add: key_safe_def)
next
  case (sysctl k o1 req e k')
  have "k_tree k = register_order"
    using kext_reach_inv [OF sysctl.hyps(1)] sysctl.hyps(2) by (simp add: kext_inv_def)
  then show ?case using key_sysctl [OF sysctl.hyps(5)] sysctl.hyps(3,4) sysctl.IH assms(2) by simp
next
  case (blow k)
  then show ?case by (simp add: key_blow)
next
  case (stop_ok k error k')
  have "sebsd_registered k = 1" "k_tree k = register_order"
    using kext_reach_inv [OF stop_ok.hyps(1)] stop_ok.hyps(2) by (auto simp: kext_inv_def)
  then show ?case using unregister_result [OF stop_ok.hyps(3)] stop_ok.IH by (simp add: key_safe_def)
next
  case (stop_failed k error k')
  have "sebsd_registered k = 1" "k_tree k = register_order"
    using kext_reach_inv [OF stop_failed.hyps(1)] stop_failed.hyps(2) by (auto simp: kext_inv_def)
  then show ?case using unregister_result [OF stop_failed.hyps(3)] stop_failed.IH by (simp add: key_safe_def)
qed

lemma exact_lookup:
  "mask_installed ops m \<Longrightarrow> m AND SEBSD_HOOK_VNODE_LOOKUP = 0 \<Longrightarrow> ops mpo_vnode_check_lookup = None"
  by (simp add: mask_installed_def hook_table_def masked_def)

section \<open>The sysctl tree\<close>

text \<open>Every linked oid below the node has the node linked.\<close>

definition tree_closed :: "sysctl_oid list \<Rightarrow> bool" where
  "tree_closed t \<longleftrightarrow>
     list_all (\<lambda>o1. o_parent o1 = sebsd_sysctl_children \<longrightarrow> sebsd_sysctl_node \<in> set t) t"

lemma tree_closed_take: "tree_closed (take n register_order)"
proof -
  consider "n = 0" | m where "n = Suc m" by (cases n) auto
  then show ?thesis by cases (simp_all add: tree_closed_def register_order_def list_all_iff)
qed

lemma remove1_take:
  assumes "n < 8"
  shows "fold remove1 (take n unregister_order) register_order \<noteq> [] \<and>
    hd (fold remove1 (take n unregister_order) register_order) = sebsd_sysctl_node"
proof -
  have "n = 0 \<or> n = 1 \<or> n = 2 \<or> n = 3 \<or> n = 4 \<or> n = 5 \<or> n = 6 \<or> n = 7" using assms by arith
  then show ?thesis
    by (elim disjE) (simp_all add: unregister_order_def register_order_def oid_defs numeral_eq_Suc)
qed

lemma tree_closed_hd: "t \<noteq> [] \<Longrightarrow> hd t = sebsd_sysctl_node \<Longrightarrow> tree_closed t"
  by (cases t) (simp_all add: tree_closed_def list_all_iff)

lemma tree_closed_remove: "tree_closed (fold remove1 (take n unregister_order) register_order)"
proof (cases "n < 8")
  case True
  then show ?thesis using remove1_take tree_closed_hd by blast
next
  case False
  then have "take n unregister_order = unregister_order" by (simp add: unregister_order_def)
  then show ?thesis by (simp add: unregister_empty tree_closed_def)
qed

section \<open>A module in use\<close>

text \<open>
  For the witnesses: a kernel whose \<open>sysctl_handle_int\<close> copies the old value out and a new one in,
  a module it has started, and a write to one of the oids.
\<close>

definition user_int :: handle_int where
  "user_int v req =
     (if rq_newptr req = 0 then (0, v) else if rq_fault req \<noteq> 0 then (rq_fault req, v)
      else (0, rq_new req))"

definition started :: kext where
  "started = snd (sebsd_mac_policy_register 0 7 kext_data)"

definition wr :: "cint \<Rightarrow> sysctl_req" where
  "wr x = \<lparr>rq_newptr = 1, rq_new = x, rq_fault = 0\<rparr>"

definition wrote :: "sysctl_oid \<Rightarrow> cint \<Rightarrow> kext \<Rightarrow> kext" where
  "wrote o1 x k = snd (sysctl_call user_int o1 (wr x) k)"

lemma user_int_reads: "reads_only user_int"
  by (simp add: reads_only_def user_int_def)

lemma started_result: "sebsd_mac_policy_register 0 7 kext_data = (KERN_SUCCESS, started)"
  using register_result [of 0 7 "fst (sebsd_mac_policy_register 0 7 kext_data)" started]
  by (simp add: started_def prod_eq_iff)

lemma started_reach: "kext_reach shi P started"
  by (rule kext_reach.start_ok [OF started_result])

lemma started_fields:
  "k_loaded started" "k_tree started = register_order" "sebsd_unsafe_enabled started = 0"
  "sebsd_hooks_enabled started = 0" "sebsd_registered started = 1"
  using register_result [OF started_result] by simp_all

lemma wrote_reach:
  assumes "kext_reach user_int P k" "k_loaded k" "o1 \<in> set register_order" "P o1 (wr x)"
  shows "kext_reach user_int P (wrote o1 x k)" "k_loaded (wrote o1 x k)"
proof -
  have t: "o1 \<in> set (k_tree k)" using kext_reach_inv [OF assms(1)] assms(2,3) by (simp add: kext_inv_def)
  have c: "sysctl_call user_int o1 (wr x) k = (fst (sysctl_call user_int o1 (wr x) k), wrote o1 x k)"
    by (simp add: wrote_def)
  show "kext_reach user_int P (wrote o1 x k)"
    by (rule kext_reach.sysctl [OF assms(1,2) t assms(4) c])
  show "k_loaded (wrote o1 x k)"
    using kext_inv_sysctl [OF kext_reach_inv [OF assms(1)] assms(2) t c] by simp
qed

text \<open>The module with \<open>sedarwin.hooks=0x10\<close> refused, and with \<open>sedarwin.hooks=1\<close> accepted.\<close>

lemma oids_registered:
  "sebsd_sysctl_hooks \<in> set register_order" "sebsd_sysctl_unsafe \<in> set register_order"
  by (simp_all add: register_order_def)

lemma hooks_not_unsafe: "sebsd_sysctl_hooks \<noteq> sebsd_sysctl_unsafe"
  by (simp add: oid_defs)

section \<open>Properties\<close>

text \<open>
  C3. Over the life of the module, whatever the kernel returns and users write: the slots are exactly the
  hooks of the mask from the start on and after every accepted write of it, until an unload is tried; from
  then on, if the framework refuses the unload, they are all empty until the next accepted write. The mask
  has only known bits, and while the module is loaded its three lifecycle slots are filled.
\<close>

theorem kext_slots_agree:
  assumes "kext_life shi P cleared k"
  shows "mask_installed (sebsd_ops k) (if cleared then 0 else sebsd_hooks_enabled k) \<and>
    sebsd_hooks_enabled k AND NOT 0x1fffff = 0 \<and>
    (k_loaded k \<longrightarrow> lifecycle_installed (sebsd_ops k))"
proof -
  have "kext_inv k" using kext_reach_inv [OF kext_life_reach [OF assms]] .
  moreover have "if cleared then slots_quiet k else slots_exact k" using assms by (rule kext_life_slots)
  ultimately show ?thesis
    unfolding kext_inv_def slots_exact_def slots_quiet_def known_bits_def hook_all_value(2)
    by (auto split: if_splits)
qed

text \<open>\<open>vnode_check_open\<close> is armed, a refused unload clears it, and it is armed again.\<close>

definition after_refusal :: "kext \<Rightarrow> kext" where
  "after_refusal k = snd (sebsd_mac_policy_unregister 16 k)"

lemma life_wrote:
  assumes "kext_life user_int (\<lambda>_ _. True) c k" "k_loaded k"
  shows "kext_life user_int (\<lambda>_ _. True) False (wrote sebsd_sysctl_hooks 1 k)"
    "sebsd_hooks_enabled (wrote sebsd_sysctl_hooks 1 k) = 1" "k_loaded (wrote sebsd_sysctl_hooks 1 k)"
proof -
  have h: "sysctl_call user_int sebsd_sysctl_hooks (wr 1) k = (0, wrote sebsd_sysctl_hooks 1 k)"
    "sebsd_hooks_enabled (wrote sebsd_sysctl_hooks 1 k) = 1"
    by (simp_all add: wrote_def sysctl_call_def sebsd_sysctl_hooks_def sebsd_sysctl_hooks_handler_def
        user_int_def wr_def hook_masks)
  have t: "sebsd_sysctl_hooks \<in> set (k_tree k)"
    using kext_reach_inv [OF kext_life_reach [OF assms(1)]] assms(2) oids_registered(1) by (simp add: kext_inv_def)
  show "kext_life user_int (\<lambda>_ _. True) False (wrote sebsd_sysctl_hooks 1 k)"
    using kext_life.sysctl [OF assms t _ h(1)] by (simp add: mask_written_def wr_def)
  show "sebsd_hooks_enabled (wrote sebsd_sysctl_hooks 1 k) = 1" by (rule h(2))
  show "k_loaded (wrote sebsd_sysctl_hooks 1 k)"
    using wrote_reach(2) [OF kext_life_reach [OF assms(1)] assms(2) oids_registered(1)] by simp
qed

lemma life_refused:
  assumes "kext_life shi P c k" "k_loaded k"
  shows "kext_life shi P True (after_refusal k)" "k_loaded (after_refusal k)"
proof -
  have k: "sebsd_registered k = 1" "k_tree k = register_order"
    using kext_reach_inv [OF kext_life_reach [OF assms(1)]] assms(2) by (auto simp: kext_inv_def)
  have u: "sebsd_mac_policy_unregister 16 k = (fst (sebsd_mac_policy_unregister 16 k), after_refusal k)"
    by (simp add: after_refusal_def)
  note r = unregister_result [OF u k]
  then have "sebsd_mac_policy_unregister 16 k = (KERN_FAILURE, after_refusal k)" using u by simp
  from kext_life.stop_failed [OF assms this] show "kext_life shi P True (after_refusal k)" .
  show "k_loaded (after_refusal k)" using r assms(2) by simp
qed

theorem kext_slots_agree_witness:
  "let k1 = wrote sebsd_sysctl_hooks 1 started; k2 = after_refusal k1; k3 = wrote sebsd_sysctl_hooks 1 k2
   in mask_installed (sebsd_ops k1) 1 \<and> mask_installed (sebsd_ops k2) 0 \<and> mask_installed (sebsd_ops k3) 1"
proof -
  note l1 = life_wrote [OF kext_life.start_ok [OF started_result] started_fields(1)]
  note l2 = life_refused [OF l1(1,3)]
  note l3 = life_wrote [OF l2]
  show ?thesis
    using kext_slots_agree [OF l1(1)] kext_slots_agree [OF l2(1)] kext_slots_agree [OF l3(1)] l1(2) l3(2)
    by (simp add: Let_def)
qed

text \<open>
  C16. As long as nobody gives \<open>sedarwin.unsafe\<close> a value, no sequence of sysctls, starts and stops
  fills the slot of the quarantined lookup hook, and the mask never has its bit.
\<close>

theorem kext_second_key:
  assumes "kext_reach shi no_second_key k" "reads_only shi"
  shows "sebsd_ops k mpo_vnode_check_lookup = None \<and> sebsd_hooks_enabled k AND SEBSD_HOOK_UNSAFE = 0"
proof -
  have k: "key_safe k" using assms by (rule kext_reach_key)
  have "slots_exact k \<or> slots_quiet k" using assms(1) by (rule kext_reach_slots)
  then show ?thesis using k exact_lookup [of "sebsd_ops k"]
    by (auto simp: key_safe_def slots_exact_def slots_quiet_def SEBSD_HOOK_UNSAFE_def)
qed

theorem kext_second_key_witness:
  "sebsd_ops (wrote sebsd_sysctl_hooks 0x10 started) mpo_vnode_check_lookup = None \<and>
    sebsd_hooks_enabled (wrote sebsd_sysctl_hooks 0x10 started) AND SEBSD_HOOK_UNSAFE = 0"
  by (rule kext_second_key [OF wrote_reach(1) [OF started_reach started_fields(1) oids_registered(1)]
        user_int_reads]) (simp add: no_second_key_def hooks_not_unsafe)

text \<open>
  C5. In every reachable state a loaded module is registered, with its oids linked in order and its
  lifecycle slots filled; and once its image is unloaded (a failed start, a successful stop) neither
  the framework's policy list nor the sysctl tree points into it.
\<close>

theorem kext_unload_safe:
  assumes "kext_reach shi P k"
  shows "if k_loaded k
    then k_policy k \<and> sebsd_registered k = 1 \<and> k_tree k = register_order \<and>
      lifecycle_installed (sebsd_ops k)
    else \<not> k_policy k \<and> k_tree k = []"
  using kext_reach_inv [OF assms] by (simp add: kext_inv_def)

definition failed_start :: kext where
  "failed_start = (snd (sebsd_mac_policy_register 1 0 kext_data))\<lparr>k_loaded := False\<rparr>"

lemma failed_start_reach: "kext_reach shi P failed_start"
proof -
  have "sebsd_mac_policy_register 1 0 kext_data =
      (KERN_FAILURE, snd (sebsd_mac_policy_register 1 0 kext_data))"
    using register_result [of 1 0 "fst (sebsd_mac_policy_register 1 0 kext_data)"
        "snd (sebsd_mac_policy_register 1 0 kext_data)"]
    by (simp add: prod_eq_iff)
  from kext_reach.start_failed [OF this] show ?thesis by (simp add: failed_start_def)
qed

theorem kext_unload_safe_witness: "\<not> k_policy failed_start \<and> k_tree failed_start = []"
  using kext_unload_safe [OF failed_start_reach [of user_int "\<lambda>_ _. True"]]
  by (simp add: failed_start_def)

text \<open>
  C25. At every point of registration and of unregistration, each linked oid below \<open>sedarwin\<close> has that
  node still linked; and the whole unregistration leaves nothing of the eight oids in the tree.
\<close>

theorem kext_tree_order:
  "tree_closed (k_tree (fold sysctl_register_oid (take n register_order) kext_data)) \<and>
   tree_closed (k_tree (fold sysctl_unregister_oid (take n unregister_order)
     (sebsd_sysctl_register kext_data))) \<and>
   k_tree (sebsd_sysctl_unregister (sebsd_sysctl_register kext_data)) = []"
  using tree_closed_take tree_closed_remove
  by (simp add: tree_simps kext_data_def)

text \<open>
  C21. A write to \<open>sedarwin.hooks\<close> with a value \<open>v\<close> the user supplied: unknown bits are refused with
  \<open>EINVAL\<close>; the lookup bit without the second key is refused with \<open>EPERM\<close>; both leave the mask and the
  vector alone. Anything else makes the mask \<open>v\<close> and the vector exactly \<open>v\<close>'s hooks, with the lifecycle
  slots as they were.
\<close>

theorem hooks_write_outcome:
  assumes "shi (sebsd_hooks_enabled k) req = (0, v)" "rq_newptr req \<noteq> 0"
    and "sebsd_sysctl_hooks_handler shi req k = (e, k')"
  shows "if v AND NOT 0x1fffff \<noteq> 0 then
      e = EINVAL \<and> k' = k
    else if v AND 0x10 \<noteq> 0 \<and> sebsd_unsafe_enabled k = 0 then
      e = EPERM \<and> sebsd_ops k' = sebsd_ops k \<and> sebsd_hooks_enabled k' = sebsd_hooks_enabled k
    else
      e = 0 \<and> sebsd_hooks_enabled k' = v \<and> mask_installed (sebsd_ops k') v \<and>
      lifecycle_installed (sebsd_ops k') = lifecycle_installed (sebsd_ops k)"
proof -
  have u: "SEBSD_HOOK_UNSAFE = 0x10" by (simp add: hook_masks)
  have h: "sebsd_sysctl_hooks_handler shi req k =
     (if v AND NOT 0x1fffff \<noteq> 0 then (EINVAL, k)
      else if v AND 0x10 \<noteq> 0 \<and> sebsd_unsafe_enabled k = 0 then
        (EPERM, emit (kprintf (SEBSD_TAG @ '': refusing hooks 0x%x: known to wedge the '' @
           ''machine. Set sysctl sedarwin.unsafe=1 first.'' @ newline)
           [A_int (v AND 0x10)]) k)
      else (0, emit (sebsd_log ''hooks now 0x%x'' [A_int v])
           (k\<lparr>sebsd_hooks_enabled := v, sebsd_ops := sebsd_install_hooks (sebsd_ops k) v\<rparr>)))"
    unfolding sebsd_sysctl_hooks_handler_def assms(1) Let_def prod.case hook_all_value(2)
    unfolding u
    using assms(2) by simp
  show ?thesis
    using assms(3) install_hooks_installs [of "sebsd_ops k" v] unfolding h
    by (cases "v AND NOT 0x1fffff \<noteq> 0"; cases "v AND 0x10 \<noteq> 0 \<and> sebsd_unsafe_enabled k = 0") auto
qed

theorem hooks_write_outcome_witness:
  "fst (sebsd_sysctl_hooks_handler user_int (wr 0x200000) started) = EINVAL \<and>
   fst (sebsd_sysctl_hooks_handler user_int (wr 0xff) started) = EPERM \<and>
   fst (sebsd_sysctl_hooks_handler user_int (wr 0x80003) started) = 0"
proof -
  have u: "user_int (sebsd_hooks_enabled started) (wr x) = (0, x)" for x
    by (simp add: user_int_def wr_def)
  have n: "rq_newptr (wr x) \<noteq> 0" for x by (simp add: wr_def)
  note at = hooks_write_outcome [of user_int started, OF u n prod.collapse [symmetric]]
  show ?thesis
    using at [of "0x200000"] at [of "0xff"] at [of "0x80003"] started_fields(3) by simp
qed

text \<open>
  The 21 hook bits are the powers of two in the order of the table, and each bit on its own fills
  its own slot, with its own function, and no other hook slot.
\<close>

theorem one_bit_one_hook:
  "map (fst \<circ> snd) hook_table = map (\<lambda>i. push_bit i 1) [0..<21] \<and>
   distinct hook_slots \<and>
   list_all (\<lambda>(s, b, f). sebsd_install_hooks ops b s = Some f \<and>
     filter (\<lambda>s. sebsd_install_hooks ops b s \<noteq> None) hook_slots = [s]) hook_table"
proof (intro conjI)
  show "map (fst \<circ> snd) hook_table = map (\<lambda>i. push_bit i 1) [0..<21]"
    by (simp add: hook_table_def hook_bits upt_rec numeral_eq_Suc)
  show "distinct hook_slots" by (simp add: hook_slots_def hook_table_def)
  show "list_all (\<lambda>(s, b, f). sebsd_install_hooks ops b s = Some f \<and>
     filter (\<lambda>s. sebsd_install_hooks ops b s \<noteq> None) hook_slots = [s]) hook_table"
    unfolding hook_slots_def hook_table_def
    by (simp add: install_hooks_at masked_def hook_bits)
qed

lemma known_nonzero:
  assumes "known_bits m" "m \<noteq> 0"
  shows "\<not> (mask_installed ops 0 \<and> mask_installed ops m)"
proof
  assume q: "mask_installed ops 0 \<and> mask_installed ops m"
  have z: "m AND b = 0" if "(s, b, f) \<in> set hook_table" for s b f
    using q that by (fastforce simp: mask_installed_def list_all_iff masked_def split: if_splits)
  have all: "m AND b = 0" if "b \<in> set (map (fst \<circ> snd) hook_table)" for b using that z by auto
  have "m AND foldr (OR) (map (fst \<circ> snd) hook_table) 0 = 0"
    using all by (induction "map (fst \<circ> snd) hook_table" rule: rev_induct)
       (simp_all add: hook_table_def bit.conj_disj_distrib)
  moreover have "foldr (OR) (map (fst \<circ> snd) hook_table) 0 = (0x1fffff :: cint)"
    by (simp add: hook_table_def hook_bits)
  ultimately have "m AND 0x1fffff = 0" by simp
  moreover have "m AND NOT 0x1fffff = 0" using assms(1) unfolding known_bits_def hook_all_value(2) .
  ultimately have "m AND (0x1fffff OR NOT 0x1fffff) = 0"
    by (simp only: bit.conj_disj_distrib or.right_neutral)
  then show False using assms(2) by simp
qed

text \<open>
  C33. When the framework refuses to unload a module whose mask is not empty, \<open>_stop\<close> fails with the
  policy still registered, all hook slots empty and the mask unchanged: what \<open>sysctl sedarwin.hooks\<close>
  then reports is not what is installed. The next accepted write of the mask makes them agree.
\<close>

theorem failed_unload_stale:
  assumes "kext_reach shi P k" "k_loaded k" "sebsd_hooks_enabled k \<noteq> 0" "error \<noteq> 0"
    and "sebsd_mac_policy_unregister error k = (r, k')"
  shows "r = KERN_FAILURE \<and> k_policy k' \<and> k_tree k' = register_order \<and>
    sebsd_hooks_enabled k' = sebsd_hooks_enabled k \<and>
    mask_installed (sebsd_ops k') 0 \<and> \<not> mask_installed (sebsd_ops k') (sebsd_hooks_enabled k')"
proof -
  have inv: "kext_inv k" using assms(1) by (rule kext_reach_inv)
  then have k: "sebsd_registered k = 1" "k_tree k = register_order" "k_policy k"
    "known_bits (sebsd_hooks_enabled k)"
    using assms(2) by (auto simp: kext_inv_def)
  have "slots_quiet k'" using slots_stop [OF inv assms(2,5)] .
  then show ?thesis
    using unregister_result [OF assms(5) k(1,2)] k known_nonzero [OF k(4) assms(3), of "sebsd_ops k'"]
      assms(4) by (simp add: slots_quiet_def)
qed

lemma wrote_hooks: "sebsd_hooks_enabled (wrote sebsd_sysctl_hooks 0x80003 started) = 0x80003"
proof -
  have "user_int (sebsd_hooks_enabled started) (wr 0x80003) = (0, 0x80003)"
    by (simp add: user_int_def wr_def)
  moreover have "sysctl_call user_int sebsd_sysctl_hooks (wr 0x80003) started =
      sebsd_sysctl_hooks_handler user_int (wr 0x80003) started"
    by (simp add: sysctl_call_def sebsd_sysctl_hooks_def)
  ultimately show ?thesis
    by (simp add: wrote_def sebsd_sysctl_hooks_handler_def wr_def hook_masks)
qed

theorem failed_unload_stale_witness:
  "fst (sebsd_mac_policy_unregister 16 (wrote sebsd_sysctl_hooks 0x80003 started)) = KERN_FAILURE"
proof -
  note r = wrote_reach [OF started_reach [of user_int "\<lambda>_ _. True"] started_fields(1)
      oids_registered(1), of "0x80003"]
  show ?thesis
    using failed_unload_stale [OF r(1) r(2) _ _ prod.collapse [symmetric], of 16]
    by (simp add: wrote_hooks)
qed

end
