(* ===== verification/Lookup_Props.thy ===== *)
theory Lookup_Props imports Lookup_Spec Hooks_Props Policy_Life begin

text \<open>
  The properties of the lookup hook: what one thread alone and what several threads can make of the
  counters, the schedules that mislead them, and the fuse. The atomic steps against the function.
\<close>

section \<open>One thread, continued\<close>

lemma solo_world_step:
  assumes "solo_inv t w" "t \<noteq> 0" "stacks w t = f # fs"
  shows "solo_inv t (world_step ls t f fs w)"
proof -
  obtain k' r where st: "lookup_step ls t f (wk w) = (k', r)" by (cases "lookup_step ls t f (wk w)")
  have sh: "solo_shape t (sebsd_lookup_owner (wk w)) (sebsd_lookup_depth (wk w)) (f # fs)"
    "sebsd_lookup_maxdepth (wk w) \<le> 1"
    using assms(1,3) by (simp_all add: solo_inv_def)
  have ne: "nested w \<longrightarrow> sebsd_lookup_recursed (wk w) = 1 \<or>
      (\<exists>g n. f # fs = [g, F_trace n] \<and> g \<in> {F_owner, F_flag})"
    using assms(1,3) by (simp add: solo_inv_def)
  show ?thesis
    using assms(1) solo_step [OF sh assms(2) st] solo_nested [OF sh(1) st ne]
    by (simp add: solo_inv_def world_step_def set_stack_def st)
qed

lemma solo_conc:
  assumes "lookup_conc ls {t} w w'" "solo_inv t w" "t \<noteq> 0"
  shows "solo_inv t w'"
  using assms
proof (induction rule: lookup_conc.induct)
  case (call u w)
  then show ?case by (auto simp: solo_inv_def solo_shape_def set_stack_def)
next
  case (reenter w u n fs)
  have u: "u = t" using reenter.prems reenter.hyps(1) by (auto simp: solo_inv_def)
  have "solo_shape t (sebsd_lookup_owner (wk w)) (sebsd_lookup_depth (wk w)) (F_trace n # fs)"
    using reenter.prems reenter.hyps(1) u by (simp add: solo_inv_def)
  then have "fs = [] \<and> sebsd_lookup_owner (wk w) = t \<and> sebsd_lookup_depth (wk w) = 1"
    by (auto simp: solo_shape_def)
  then show ?case using reenter.prems u
    by (auto simp: solo_inv_def solo_shape_def set_stack_def)
next
  case (step w u f fs)
  then have "u = t" by (auto simp: solo_inv_def)
  then show ?case using step solo_world_step by simp
qed (auto simp: solo_inv_def start_write_def store_slot_def)

lemma solo_reach:
  "lookup_reach ls {t} (world0 k) w \<Longrightarrow> counters_reset k \<Longrightarrow> t \<noteq> 0 \<Longrightarrow> solo_inv t w"
proof (induction rule: lookup_reach.induct)
  case start
  then show ?case by (simp add: solo_inv_def solo_shape_def world0_def counters_reset_def)
next
  case (more w w')
  then show ?case using solo_conc by blast
qed

section \<open>Armed modules\<close>

text \<open>The module with the hook installed, by its operator, and a trace that prints nothing else.\<close>

definition armed :: "cint \<Rightarrow> cint \<Rightarrow> kext" where
  "armed fuse trace = kext_data\<lparr>sebsd_hooks_enabled := SEBSD_HOOK_VNODE_LOOKUP,
     sebsd_ops := (\<lambda>_. None)(mpo_vnode_check_lookup := Some F_vnode_check_lookup),
     sebsd_lookup_fuse := fuse, sebsd_trace_enabled := trace\<rparr>"

definition quiet_trace :: "uint32 \<Rightarrow> line list" where
  "quiet_trace n = []"

lemma armed_reset: "counters_reset (armed fuse trace)"
  by (simp add: counters_reset_def armed_def kext_data_def)

lemma steps_numeral:
  "steps ls t (numeral v) w =
    (case stacks w t of f # fs \<Rightarrow> steps ls t (pred_numeral v) (world_step ls t f fs w) | [] \<Rightarrow> None)"
  by (simp add: numeral_eq_Suc)

lemma alone_numeral:
  "lookup_alone ls t (numeral v) s =
    (case s of (k, None) \<Rightarrow> s | (k, Some f) \<Rightarrow> lookup_alone ls t (pred_numeral v) (lookup_step ls t f k))"
  by (simp add: numeral_eq_Suc)

lemma fuse_numbers:
  "sint (16 :: cint) = 16" "sint (1 :: cint) = 1" "sint (0 :: cint) = 0" "sint (2 :: cint) = 2"
  by simp_all

lemmas run_simps = world0_def armed_def kext_data_def set_stack_def world_step_def quiet_trace_def
  sebsd_tracing_def emit_def fuse_blown_def steps_numeral
  stores_write start_write_def no_writer_def

section \<open>Properties\<close>

text \<open>
  The atomic steps are the function: a thread that runs the hook without interference is back
  after at most 13 steps, with the module's data as the whole function leaves it and its verdict 0.
\<close>

theorem lookup_steps_function:
  assumes "sebsd_vnode_check_lookup e cred dvp dlabel cnp k = Some (r, k')"
    and "\<And>n. ls n = the (sebsd_trace_lookup e (sebsd_trace_enabled k) n dvp dlabel cnp)"
  shows "lookup_alone ls (current_thread e) 13 (k, Some F_owner) = (k', None) \<and> r = 0"
  using assms by (rule alone_function)

theorem lookup_steps_function_witness:
  "\<exists>k'. lookup_alone quiet_trace 5 13 (armed 1 0, Some F_owner) = (k', None) \<and>
    sebsd_ops k' mpo_vnode_check_lookup = None \<and> sebsd_lookup_count k' = 1"
proof -
  let ?e = "lab\<lparr>current_thread := 5\<rparr>"
  let ?k = "armed 1 0"
  let ?ls = "\<lambda>n. the (sebsd_trace_lookup ?e (sebsd_trace_enabled ?k) n 0 0 None)"
  obtain k' where k: "sebsd_vnode_check_lookup ?e 0 0 0 None ?k = Some (0, k')"
    "sebsd_ops k' mpo_vnode_check_lookup = None" "sebsd_lookup_count k' = 1"
    by (simp add: sebsd_vnode_check_lookup_def run_simps sebsd_hooks_blow_lookup_fuse_def)
  have "lookup_alone ?ls 5 13 (?k, Some F_owner) = (k', None)"
    using lookup_steps_function [OF k(1), of ?ls] by simp
  moreover have "lookup_alone ls 5 13 (?k, Some F_owner) = lookup_alone quiet_trace 5 13 (?k, Some F_owner)" for ls
    by (simp add: run_simps alone_numeral)
  ultimately show ?thesis using k by metis
qed

text \<open>
  C18. What the counters say is true: however threads and writes of the mask interleave,
  \<open>lookup_recursed\<close> is set only if some thread entered the hook while it was inside it, and
  \<open>lookup_maxdepth\<close> is at most the highest value the depth counter had.
\<close>

theorem recursed_is_evidence:
  assumes "counters_reset k" "lookup_reach ls T (world0 k) w"
  shows "(sebsd_lookup_recursed (wk w) \<noteq> 0 \<longrightarrow> nested w) \<and> unat (sebsd_lookup_maxdepth (wk w)) \<le> peak w"
  using owner_inv_reach [OF assms(2,1)] peak_inv_reach [OF assms(2,1)]
  by (auto simp: owner_inv_def peak_inv_def)

theorem recursed_is_evidence_witness:
  "\<exists>w. schedule quiet_trace [Call 5, Step 5 6, Reenter 5, Step 5 5, Step 5 4] (world0 (armed 0 1)) = Some w \<and>
     sebsd_lookup_recursed (wk w) = 1 \<and> stacks w 5 = [] \<and> nested w"
proof -
  let ?s = "[Call 5, Step 5 6, Reenter 5, Step 5 5, Step 5 4]"
  obtain w where w: "schedule quiet_trace ?s (world0 (armed 0 1)) = Some w"
     "sebsd_lookup_recursed (wk w) = 1" "stacks w 5 = []"
    by (simp add: run_simps)
  have "lookup_reach quiet_trace UNIV (world0 (armed 0 1)) w"
    using schedule_sound [OF lookup_reach.start w(1), of UNIV] by auto
  from recursed_is_evidence [OF armed_reset this] show ?thesis using w by auto
qed

text \<open>
  With tracing off the detector cannot fire: the hook calls nothing out of itself, so between its
  two stores of \<open>owner\<close> no thread can enter it again, and \<open>lookup_recursed\<close> stays 0 in every run.
\<close>

theorem untraced_never_recursed:
  assumes "counters_reset k" "sebsd_trace_enabled k = 0" "lookup_reach ls T (world0 k) w"
  shows "sebsd_lookup_recursed (wk w) = 0 \<and> \<not> nested w"
  using owner_inv_reach [OF assms(3,1)] untraced_reach [OF assms(3,2)] by (auto simp: owner_inv_def)

theorem untraced_never_recursed_witness:
  "\<exists>w. schedule quiet_trace [Call 5, Call 9, Step 5 3, Step 9 12] (world0 (armed 1 0)) = Some w \<and>
     sebsd_ops (wk w) mpo_vnode_check_lookup = None \<and> sebsd_lookup_recursed (wk w) = 0"
proof -
  let ?s = "[Call 5, Call 9, Step 5 3, Step 9 12]"
  obtain w where w: "schedule quiet_trace ?s (world0 (armed 1 0)) = Some w"
     "sebsd_ops (wk w) mpo_vnode_check_lookup = None"
    by (simp add: run_simps)
  have "lookup_reach quiet_trace UNIV (world0 (armed 1 0)) w"
    using schedule_sound [OF lookup_reach.start w(1), of UNIV] by auto
  moreover have "sebsd_trace_enabled (armed 1 0) = 0" by (simp add: armed_def kext_data_def)
  ultimately show ?thesis using untraced_never_recursed [OF armed_reset] w by auto
qed

text \<open>
  C19. On one thread the detector is exact and the depth says nothing: outside the hook,
  \<open>lookup_recursed\<close> is set if and only if the thread was re-entered; and \<open>lookup_maxdepth\<close> never
  passes 1, re-entered or not.
\<close>

theorem one_thread_exact:
  assumes "counters_reset k" "lookup_reach ls {t} (world0 k) w" "t \<noteq> 0"
  shows "sebsd_lookup_maxdepth (wk w) \<le> 1 \<and>
    (stacks w t = [] \<longrightarrow> (sebsd_lookup_recursed (wk w) \<noteq> 0 \<longleftrightarrow> nested w) \<and> sebsd_lookup_depth (wk w) = 0)"
  using solo_reach [OF assms(2,1,3)] owner_inv_reach [OF assms(2,1)]
  by (auto simp: solo_inv_def solo_shape_def owner_inv_def)

theorem one_thread_exact_witness:
  "\<exists>w. schedule quiet_trace [Call 5, Step 5 6, Reenter 5, Step 5 5, Step 5 4] (world0 (armed 0 1)) = Some w \<and>
     sebsd_lookup_recursed (wk w) \<noteq> 0 \<and> sebsd_lookup_maxdepth (wk w) \<le> 1"
proof -
  let ?s = "[Call 5, Step 5 6, Reenter 5, Step 5 5, Step 5 4]"
  obtain w where w: "schedule quiet_trace ?s (world0 (armed 0 1)) = Some w"
     "nested w" "stacks w 5 = []"
    by (simp add: run_simps)
  have "lookup_reach quiet_trace {5} (world0 (armed 0 1)) w"
    using schedule_sound [OF lookup_reach.start w(1), of "{5}"] by auto
  from one_thread_exact [OF armed_reset this] show ?thesis using w by auto
qed

text \<open>
  C29. \<open>lookup_maxdepth\<close> can understate: its test and its store are separate, so two threads inside at once can leave
  it at 1 when both have left.
\<close>

theorem maxdepth_loses_peak:
  "\<exists>w. lookup_reach quiet_trace UNIV (world0 (armed 0 0)) w \<and> (\<forall>t. stacks w t = []) \<and>
     peak w = 2 \<and> sebsd_lookup_maxdepth (wk w) = 1 \<and> sebsd_lookup_depth (wk w) = 0"
proof -
  let ?s = "[Call 5, Call 9, Step 5 4, Step 9 5, Step 5 6, Step 9 5]"
  obtain w where w: "schedule quiet_trace ?s (world0 (armed 0 0)) = Some w" "(\<forall>t. stacks w t = [])"
     "peak w = 2" "sebsd_lookup_maxdepth (wk w) = 1" "sebsd_lookup_depth (wk w) = 0"
    by (simp add: run_simps)
  then show ?thesis using schedule_sound [OF lookup_reach.start w(1), of UNIV] by auto
qed

text \<open>
  It has false negatives: another thread's store of \<open>owner\<close> can hide a thread from itself, which
  then runs the whole hook inside the hook; everybody leaves and the flag is clear.
\<close>

theorem recursed_misses:
  "\<exists>w. lookup_reach quiet_trace UNIV (world0 (armed 0 1)) w \<and> (\<forall>t. stacks w t = []) \<and>
     nested w \<and> sebsd_lookup_recursed (wk w) = 0"
proof -
  let ?s = "[Call 5, Call 9, Step 5 6, Step 9 2, Reenter 5, Step 5 10, Step 5 4, Step 9 7]"
  obtain w where w: "schedule quiet_trace ?s (world0 (armed 0 1)) = Some w" "(\<forall>t. stacks w t = [])"
     "nested w" "sebsd_lookup_recursed (wk w) = 0"
    by (simp add: run_simps)
  then show ?thesis using schedule_sound [OF lookup_reach.start w(1), of UNIV] by auto
qed


text \<open>
  C30. The other way round, a write of the mask between the fuse's load and its store of it is lost: the
  mask reads 0, and \<open>vnode_check_open\<close> is installed.
\<close>

theorem blow_loses_write:
  "\<exists>w. lookup_reach quiet_trace UNIV (world0 (armed 1 0)) w \<and> (\<forall>t. stacks w t = []) \<and>
     no_writer w \<and> sebsd_ops (wk w) mpo_vnode_check_open = Some F_vnode_check_open \<and>
     sebsd_hooks_enabled (wk w) = 0"
proof -
  let ?s = "[Call 5, Step 5 10, Write_mask 0 1, Write_slots 0 21, Step 5 3]"
  obtain w where w: "schedule quiet_trace ?s (world0 (armed 1 0)) = Some w" "(\<forall>t. stacks w t = [])"
     "no_writer w" "sebsd_ops (wk w) mpo_vnode_check_open = Some F_vnode_check_open"
     "sebsd_hooks_enabled (wk w) = 0"
    by (simp add: run_simps install_hooks_at masked_def hook_bits)
  then show ?thesis using schedule_sound [OF lookup_reach.start w(1), of UNIV] by auto
qed

end
