(* ===== verification/Lookup_Race.thy ===== *)
theory Lookup_Race imports Lookup_Rest Lookup_Fuse Lookup_Props begin

text \<open>
  The fuse when several threads are in the hook at once: how many dispatches land before it takes
  effect, and that it takes effect as if the dispatches had come one after the other.
\<close>

section \<open>Runs without a write of the mask\<close>

inductive dispatch_reach ::
  "(uint32 \<Rightarrow> line list) \<Rightarrow> 64 word set \<Rightarrow> world \<Rightarrow> world \<Rightarrow> bool"
  for ls :: "uint32 \<Rightarrow> line list" and T :: "64 word set" and w0 :: world where
  start: "dispatch_reach ls T w0 w0"
| more: "dispatch_reach ls T w0 w \<Longrightarrow> lookup_conc ls T w w' \<Longrightarrow> no_writer w' \<Longrightarrow>
    dispatch_reach ls T w0 w'"

lemma dispatch_reach_sound: "dispatch_reach ls T w0 w \<Longrightarrow> lookup_reach ls T w0 w"
  by (induction rule: dispatch_reach.induct) (auto intro: lookup_reach.intros)

lemma dispatch_reach_writing: "dispatch_reach ls T w0 w \<Longrightarrow> no_writer w0 \<Longrightarrow> no_writer w"
  by (induction rule: dispatch_reach.induct) simp_all

text \<open>Schedules of such runs.\<close>

fun dispatch_act :: "64 word set \<Rightarrow> act \<Rightarrow> bool" where
  "dispatch_act T (Call t) = (t \<in> T)"
| "dispatch_act T (Step t n) = True"
| "dispatch_act T _ = False"

lemma dispatch_steps:
  "steps ls t n w = Some w' \<Longrightarrow> dispatch_reach ls T w0 w \<Longrightarrow> no_writer w0 \<Longrightarrow> dispatch_reach ls T w0 w'"
proof (induction n arbitrary: w)
  case (Suc n)
  then obtain f fs where f: "stacks w t = f # fs" "steps ls t n (world_step ls t f fs w) = Some w'"
    by (auto split: list.splits)
  have "no_writer (world_step ls t f fs w)"
    using dispatch_reach_writing [OF Suc.prems(2,3)] by (simp add: world_step_def split: prod.splits)
  then show ?case using Suc.IH [OF f(2)] Suc.prems f(1) dispatch_reach.more lookup_conc.step by blast
qed simp

lemma dispatch_schedule:
  "schedule ls as w = Some w' \<Longrightarrow> dispatch_reach ls T w0 w \<Longrightarrow> no_writer w0 \<Longrightarrow>
    list_all (dispatch_act T) as \<Longrightarrow> dispatch_reach ls T w0 w'"
proof (induction as arbitrary: w)
  case (Cons a as)
  then obtain w1 where w1: "do_act ls a w = Some w1" "schedule ls as w1 = Some w'"
    by (auto simp: bind_eq_Some_conv)
  have "dispatch_reach ls T w0 w1"
  proof (cases a)
    case (Call t)
    have "no_writer (set_stack t [F_owner] w)"
      using dispatch_reach_writing [OF Cons.prems(2,3)] by simp
    then show ?thesis
      using Call w1(1) Cons.prems(2,4) dispatch_reach.more [OF _ lookup_conc.call] by (auto split: if_splits)
  next
    case (Step t n)
    then show ?thesis using w1(1) dispatch_steps Cons.prems(2,3) by simp
  qed (use Cons.prems(4) in simp_all)
  then show ?case using Cons.IH [OF w1(2)] Cons.prems(3,4) by simp
qed simp

section \<open>What the fuse leaves\<close>

text \<open>The highest count at which the slot may still be filled, whoever is inside.\<close>

definition fuse_base :: "kext \<Rightarrow> nat" where
  "fuse_base k = max (unat (sebsd_lookup_count k)) (unat (sebsd_lookup_fuse k) - 1)"

text \<open>
  Activations that have counted and will blow the fuse; that have not counted yet; and that have
  cleared the slot but not the mask.
\<close>

fun pending :: "cint \<Rightarrow> frame \<Rightarrow> nat" where
  "pending f (F_trace n) = of_bool (f \<le> n)" | "pending f (F_fuse n) = of_bool (f \<le> n)"
| "pending f (F_blow_slot b) = 1" | "pending f _ = 0"

fun early :: "frame \<Rightarrow> nat" where
  "early F_owner = 1" | "early F_claim = 1" | "early F_enter = 1" | "early (F_max d) = 1"
| "early (F_setmax d) = 1" | "early F_count = 1" | "early _ = 0"

fun mending :: "frame \<Rightarrow> nat" where
  "mending (F_blow_load b) = 1" | "mending (F_blow_store b m) = 1" | "mending _ = 0"

abbreviation lookup_slot :: "kext \<Rightarrow> hook_fn option" where
  "lookup_slot k \<equiv> sebsd_ops k mpo_vnode_check_lookup"

definition race_data :: "kext \<Rightarrow> nat \<Rightarrow> kext \<Rightarrow> nat \<Rightarrow> nat \<Rightarrow> nat \<Rightarrow> bool" where
  "race_data k0 N k P E D \<longleftrightarrow>
     sebsd_lookup_fuse k = sebsd_lookup_fuse k0 \<and> sebsd_trace_enabled k = 0 \<and>
     sebsd_lookup_count k0 \<le> sebsd_lookup_count k \<and>
     (if lookup_slot k \<noteq> None
      then still_armed k0 k \<and> unat (sebsd_lookup_count k) \<le> fuse_base k0 + P
      else sebsd_ops k = (sebsd_ops k0)(mpo_vnode_check_lookup := None) \<and>
        unat (sebsd_lookup_count k) + E \<le> fuse_base k0 + N \<and>
        sebsd_lookup_fuse k0 \<le> sebsd_lookup_count k \<and> sebsd_lookup_count k0 < sebsd_lookup_count k \<and>
        (sebsd_hooks_enabled k = sebsd_hooks_enabled k0 AND NOT SEBSD_HOOK_VNODE_LOOKUP \<or>
         sebsd_hooks_enabled k = sebsd_hooks_enabled k0 \<and> 0 < D))"

fun race_frame :: "kext \<Rightarrow> kext \<Rightarrow> frame \<Rightarrow> bool" where
  "race_frame k0 k (F_trace n) = (sebsd_lookup_count k0 < n \<and> n \<le> sebsd_lookup_count k)"
| "race_frame k0 k (F_fuse n) = (sebsd_lookup_count k0 < n \<and> n \<le> sebsd_lookup_count k)"
| "race_frame k0 k (F_blow_slot b) = (b \<and> sebsd_lookup_fuse k0 \<le> sebsd_lookup_count k \<and>
     sebsd_lookup_count k0 < sebsd_lookup_count k)"
| "race_frame k0 k (F_blow_load b) = (b \<and> lookup_slot k = None)"
| "race_frame k0 k (F_blow_store b m) = (b \<and> lookup_slot k = None \<and>
     m AND NOT SEBSD_HOOK_VNODE_LOOKUP = sebsd_hooks_enabled k0 AND NOT SEBSD_HOOK_VNODE_LOOKUP)"
| "race_frame k0 k F_flag = False"
| "race_frame k0 k _ = True"

lemma race_frame_mono:
  "race_frame k0 k f \<Longrightarrow> sebsd_lookup_count k \<le> sebsd_lookup_count k' \<Longrightarrow>
    (lookup_slot k = None \<Longrightarrow> lookup_slot k' = None) \<Longrightarrow> race_frame k0 k' f"
  by (cases f) (auto intro: order.trans order.strict_trans2)

definition opt_weight :: "(frame \<Rightarrow> nat) \<Rightarrow> frame option \<Rightarrow> nat" where
  "opt_weight g r = (case r of Some f \<Rightarrow> g f | None \<Rightarrow> 0)"

lemma opt_weight_simps [simp]: "opt_weight g None = 0" "opt_weight g (Some f) = g f"
  by (simp_all add: opt_weight_def)

lemma mask_absorb: "(m AND NOT b) AND NOT b = m AND NOT (b :: cint)"
  by (simp add: and.assoc)

lemma count_up:
  fixes c :: uint32
  assumes "unat c + 1 < 2 ^ 32"
  shows "unat (c + 1) = unat c + 1" "c < c + 1"
  using count_below [of c 1] assms by (simp_all add: word_less_nat_alt)

lemma base_below: "\<not> sebsd_lookup_fuse k \<le> n \<Longrightarrow> unat n \<le> fuse_base k"
  by (simp add: fuse_base_def word_le_nat_alt)

lemma below_fuse:
  assumes "unat c \<le> fuse_base k" "sebsd_lookup_count k \<le> c" "0 < sint (sebsd_lookup_fuse k)"
  shows "c = sebsd_lookup_count k \<or> \<not> sebsd_lookup_fuse k \<le> c"
proof (cases "unat (sebsd_lookup_fuse k) - 1 \<le> unat (sebsd_lookup_count k)")
  case True
  then have "c \<le> sebsd_lookup_count k" using assms(1) by (simp add: fuse_base_def word_le_nat_alt)
  then show ?thesis using assms(2) by auto
next
  case False
  then have "unat c < unat (sebsd_lookup_fuse k)" using assms(1) by (simp add: fuse_base_def)
  then show ?thesis by (simp add: word_le_nat_alt)
qed

text \<open>One step of one thread, with the three sums before and after it; the slot filled, then empty.\<close>

definition steps_to :: "(frame \<Rightarrow> nat) \<Rightarrow> frame \<Rightarrow> frame option \<Rightarrow> nat \<Rightarrow> nat \<Rightarrow> bool" where
  "steps_to g f r n n' \<longleftrightarrow> n' + g f = n + opt_weight g r"

definition race_post :: "kext \<Rightarrow> nat \<Rightarrow> kext \<Rightarrow> kext \<Rightarrow> frame option \<Rightarrow> nat \<Rightarrow> nat \<Rightarrow> nat \<Rightarrow> bool" where
  "race_post k0 N k k' r P E D \<longleftrightarrow> race_data k0 N k' P E D \<and> pred_option (race_frame k0 k') r \<and>
     sebsd_lookup_count k \<le> sebsd_lookup_count k' \<and> (lookup_slot k = None \<longrightarrow> lookup_slot k' = None)"

lemma race_step_filled:
  assumes "race_data k0 N k P E D" "lookup_slot k \<noteq> None" "race_frame k0 k f"
    "lookup_step ls t f k = (k', r)" "f = F_owner \<Longrightarrow> sebsd_lookup_owner k \<noteq> t"
    "P + E \<le> N" "early f \<le> E" "fuse_base k0 + N < 2 ^ 32"
    "steps_to (pending (sebsd_lookup_fuse k0)) f r P P'" "steps_to early f r E E'"
    "steps_to mending f r D D'" "0 < sint (sebsd_lookup_fuse k0)"
  shows "race_post k0 N k k' r P' E' D'"
proof -
  have k: "sebsd_lookup_fuse k = sebsd_lookup_fuse k0" "sebsd_trace_enabled k = 0"
    "sebsd_lookup_count k0 \<le> sebsd_lookup_count k" "still_armed k0 k"
    "unat (sebsd_lookup_count k) \<le> fuse_base k0 + P"
    using assms(1,2) by (simp_all add: race_data_def)
  note d = race_post_def race_data_def still_armed_def steps_to_def
  show ?thesis
  proof (cases f)
    case F_count
    then have c: "unat (sebsd_lookup_count k) + 1 < 2 ^ 32" using k(5) assms(6-8) by simp
    show ?thesis using F_count k assms(2,4,9-11) count_up [OF c] base_below [of k0 "sebsd_lookup_count k + 1"]
      by (auto simp: d)
  next
    case (F_fuse n)
    then show ?thesis using k assms(2-4,9-12) base_below [of k0 n]
      by (auto simp: d fuse_blown_def split: if_splits)
  next
    case (F_blow_slot b)
    then show ?thesis using k assms(2-4,6,9-11) by (auto simp: d)
  qed (use k assms(2-5,9-11) in \<open>auto simp: d sebsd_tracing_def split: if_splits\<close>)
qed

lemma race_step_empty:
  assumes "race_data k0 N k P E D" "lookup_slot k = None" "race_frame k0 k f"
    "lookup_step ls t f k = (k', r)" "f = F_owner \<Longrightarrow> sebsd_lookup_owner k \<noteq> t"
    "early f \<le> E" "fuse_base k0 + N < 2 ^ 32"
    "steps_to early f r E E'" "steps_to mending f r D D'" "0 < sint (sebsd_lookup_fuse k0)"
  shows "race_post k0 N k k' r P' E' D'"
proof -
  have k: "sebsd_lookup_fuse k = sebsd_lookup_fuse k0" "sebsd_trace_enabled k = 0"
    "sebsd_ops k = (sebsd_ops k0)(mpo_vnode_check_lookup := None)"
    "unat (sebsd_lookup_count k) + E \<le> fuse_base k0 + N"
    "sebsd_lookup_fuse k0 \<le> sebsd_lookup_count k" "sebsd_lookup_count k0 < sebsd_lookup_count k"
    and m: "sebsd_hooks_enabled k = sebsd_hooks_enabled k0 AND NOT SEBSD_HOOK_VNODE_LOOKUP \<or>
      sebsd_hooks_enabled k = sebsd_hooks_enabled k0 \<and> 0 < D"
    using assms(1,2) by (simp_all add: race_data_def)
  note d = race_post_def race_data_def steps_to_def
  show ?thesis
  proof (cases f)
    case F_count
    then have c: "unat (sebsd_lookup_count k) + 1 < 2 ^ 32" using k(4) assms(6,7) by simp
    show ?thesis using F_count k m assms(4,8,9) count_up [OF c] by (auto simp: d)
  qed (use k m assms(3-5,8-10) in \<open>auto simp: d sebsd_tracing_def fuse_blown_def mask_absorb split: if_splits\<close>)
qed

section \<open>The invariant of the run\<close>

definition race_inv :: "kext \<Rightarrow> 64 word set \<Rightarrow> world \<Rightarrow> bool" where
  "race_inv k0 T w \<longleftrightarrow> active w \<subseteq> T \<and> no_writer w \<and>
     (\<forall>t. length (stacks w t) \<le> 1 \<and> list_all (race_frame k0 (wk w)) (stacks w t)) \<and>
     race_data k0 (card T) (wk w) (tally (pending (sebsd_lookup_fuse k0)) w) (tally early w)
       (tally mending w)"

lemma tally_step:
  assumes "finite (active w)" "stacks w t = [f]" "lookup_step ls t f (wk w) = (k', r)"
  shows "tally g (world_step ls t f [] w) + g f = tally g w + opt_weight g r"
proof -
  obtain p where st: "world_step ls t f [] w =
      set_stack t (case r of Some f' \<Rightarrow> [f'] | None \<Rightarrow> []) (w\<lparr>wk := k', peak := p\<rparr>)"
    using assms(3) by (metis world_stepE prod.inject)
  let ?w = "w\<lparr>wk := k', peak := p\<rparr>"
  have same: "stacks ?w = stacks w" by simp
  have "finite (active ?w)" "tally g ?w = tally g w"
    using assms(1) active_cong [OF same] tally_cong [OF same] by simp_all
  then show ?thesis
    using tally_set [of ?w g t "case r of Some f' \<Rightarrow> [f'] | None \<Rightarrow> []"] assms(2)
    by (cases r) (simp_all add: st)
qed

lemma weights_at_most_one:
  assumes "\<forall>t. length (stacks w t) \<le> 1"
  shows "weight (\<lambda>f. pending x f + early f) (stacks w t) \<le> 1"
proof (cases "stacks w t")
  case (Cons f fs)
  then have "fs = []" using assms [rule_format, of t] by simp
  then show ?thesis using Cons by (cases f) simp_all
qed simp

lemma weight_add: "weight (\<lambda>f. g f + h f) fs = weight g fs + weight h fs"
  by (induction fs) simp_all

lemma tally_add: "tally (\<lambda>f. g f + h f) w = tally g w + tally h w"
  by (simp add: tally_def weight_add sum.distrib)

lemma race_inv_sum:
  assumes "race_inv k0 T w" "finite T"
  shows "tally (pending x) w + tally early w \<le> card T"
proof -
  have "active w \<subseteq> T" "\<forall>t. length (stacks w t) \<le> 1" using assms(1) by (simp_all add: race_inv_def)
  from tally_le_card [OF assms(2) this(1) weights_at_most_one [OF this(2), of x]] show ?thesis
    by (simp add: tally_add)
qed

lemma race_inv_step:
  assumes "race_inv k0 T w" "owner_inv w" "finite T" "fuse_base k0 + card T < 2 ^ 32"
    "0 < sint (sebsd_lookup_fuse k0)" "stacks w t = f # fs"
  shows "race_inv k0 T (world_step ls t f fs w)"
proof -
  let ?x = "sebsd_lookup_fuse k0" and ?w = "world_step ls t f fs w"
  have w: "active w \<subseteq> T" "no_writer w" "\<And>u. length (stacks w u) \<le> 1"
    "\<And>u. list_all (race_frame k0 (wk w)) (stacks w u)"
    "race_data k0 (card T) (wk w) (tally (pending ?x) w) (tally early w) (tally mending w)"
    using assms(1) by (simp_all add: race_inv_def)
  have fs: "fs = []" using w(3) [of t] assms(6) by simp
  note st1 = assms(6) [unfolded fs]
  have fin: "finite (active w)" using w(1) assms(3) finite_subset by blast
  obtain k' r p where st: "lookup_step ls t f (wk w) = (k', r)"
    "?w = set_stack t (case r of Some f' \<Rightarrow> f' # fs | None \<Rightarrow> fs) (w\<lparr>wk := k', peak := p\<rparr>)"
    by (rule world_stepE)
  have "stack_ok (nested w) (sebsd_lookup_owner (wk w)) t (stacks w t)"
    using assms(2) by (simp add: owner_inv_def)
  then have own: "f = F_owner \<Longrightarrow> sebsd_lookup_owner (wk w) \<noteq> t" by (auto simp: stack_ok_def st1)
  have top: "race_frame k0 (wk w) f" using w(4) [of t] st1 by simp
  have mem: "g f \<le> tally g w" for g using tally_mem [OF fin, of g t] st1 by simp
  have tl: "steps_to g f r (tally g w) (tally g ?w)" for g
    using tally_step [OF fin st1 st(1)] fs by (simp add: steps_to_def)
  have post: "race_post k0 (card T) (wk w) k' r (tally (pending ?x) ?w) (tally early ?w) (tally mending ?w)"
  proof (cases "lookup_slot (wk w) = None")
    case True
    show ?thesis by (rule race_step_empty [OF w(5) True top st(1) own mem assms(4) tl tl assms(5)])
  next
    case False
    show ?thesis
      by (rule race_step_filled [OF w(5) False top st(1) own race_inv_sum [OF assms(1,3)] mem assms(4) tl tl tl assms(5)])
  qed
  note new = post [unfolded race_post_def]
  note more = new [THEN conjunct2, THEN conjunct2]
  have k: "wk ?w = k'" "no_writer ?w"
    "\<And>u. stacks ?w u = (if u = t then (case r of Some f' \<Rightarrow> [f'] | None \<Rightarrow> []) else stacks w u)"
    by (simp_all add: fs st(2) [unfolded fs] w(2))
  have "list_all (race_frame k0 k') (stacks ?w u) \<and> length (stacks ?w u) \<le> 1" for u
  proof (cases "u = t")
    case True
    then show ?thesis using new by (cases r) (simp_all add: k(3))
  next
    case False
    have "race_frame k0 k' x" if "race_frame k0 (wk w) x" for x
      by (rule race_frame_mono [OF that more [THEN conjunct1] more [THEN conjunct2, rule_format]])
    then have "list_all (race_frame k0 k') (stacks w u)" using w(4) [of u] by (simp add: list_all_iff)
    then show ?thesis using False w(3) by (simp add: k(3))
  qed
  moreover have "active ?w \<subseteq> T"
  proof -
    have "t \<in> T" using w(1) st1 by (force simp: active_def)
    then show ?thesis using w(1) by (auto simp: active_def k(3) split: if_splits)
  qed
  ultimately show ?thesis using new by (simp add: race_inv_def k(1,2))
qed

lemma race_inv_call:
  assumes "race_inv k0 T w" "t \<in> T" "stacks w t = []" "lookup_slot (wk w) \<noteq> None" "finite T"
  shows "race_inv k0 T (set_stack t [F_owner] w)"
proof -
  have w: "active w \<subseteq> T" using assms(1) by (simp add: race_inv_def)
  then have "finite (active w)" using assms(5) finite_subset by blast
  from tally_set [OF this, of _ t "[F_owner]"] assms(3)
  have "tally (pending x) (set_stack t [F_owner] w) = tally (pending x) w"
    "tally mending (set_stack t [F_owner] w) = tally mending w" for x by simp_all
  then show ?thesis using assms w by (auto simp: race_inv_def race_data_def active_set)
qed

lemma race_inv_conc:
  assumes "lookup_conc ls T w w'" "race_inv k0 T w" "owner_inv w" "finite T" "no_writer w'"
    "fuse_base k0 + card T < 2 ^ 32" "0 < sint (sebsd_lookup_fuse k0)"
  shows "race_inv k0 T w'"
  using assms
proof (induction rule: lookup_conc.induct)
  case (call t w)
  then show ?case by (simp add: race_inv_call)
next
  case (reenter w t n fs)
  then show ?case by (simp add: race_inv_def race_data_def sebsd_tracing_def)
next
  case (step w t f fs)
  then show ?case by (simp add: race_inv_step)
next
  case (write_slot w u s r rs)
  then show ?case by (simp add: race_inv_def no_writer_def)
qed (simp_all add: race_inv_def)

lemma race_inv_reach:
  assumes "dispatch_reach ls T (world0 k) w" "counters_reset k" "finite T"
    "sebsd_trace_enabled k = 0" "lookup_slot k \<noteq> None"
    "fuse_base k + card T < 2 ^ 32" "0 < sint (sebsd_lookup_fuse k)"
  shows "race_inv k T w"
  using assms(1)
proof (induction rule: dispatch_reach.induct)
  case start
  then show ?case using assms
    by (auto simp: race_inv_def race_data_def active_def tally_def still_armed_def fuse_base_def)
      (auto simp: world0_def)
next
  case (more w w')
  then show ?case
    using race_inv_conc owner_inv_reach [OF dispatch_reach_sound assms(2)] assms(3,6,7) by blast
qed

section \<open>Properties\<close>

text \<open>
  C8. The fuse under concurrency, with tracing off and nobody writing the mask: at any moment the count
  exceeds what the fuse allows by at most the number of threads; and once everybody has left, the
  slot and the mask are exactly as a sequence of dispatches would leave them: cleared if a dispatch
  was counted at or above the fuse, untouched otherwise.
\<close>

theorem fuse_concurrent:
  assumes "counters_reset k" "sebsd_trace_enabled k = 0" "sebsd_ops k mpo_vnode_check_lookup \<noteq> None"
    "0 < sint (sebsd_lookup_fuse k)" "finite T" "fuse_base k + card T < 2 ^ 32"
    "dispatch_reach ls T (world0 k) w"
  shows "unat (sebsd_lookup_count (wk w)) \<le> fuse_base k + card T \<and>
    (at_rest w \<longrightarrow>
      (if sebsd_lookup_fuse k \<le> sebsd_lookup_count (wk w) \<and> sebsd_lookup_count (wk w) \<noteq> sebsd_lookup_count k
       then disarmed k (wk w) else still_armed k (wk w)))" (is "_ \<and> (_ \<longrightarrow> ?R)")
proof -
  have inv: "race_inv k T w" using race_inv_reach [OF assms(7,1,5,2,3,6,4)] .
  then have d: "race_data k (card T) (wk w) (tally (pending (sebsd_lookup_fuse k)) w) (tally early w)
      (tally mending w)" by (simp add: race_inv_def)
  have "unat (sebsd_lookup_count (wk w)) \<le> fuse_base k + card T"
    using d race_inv_sum [OF inv assms(5), of "sebsd_lookup_fuse k"]
    by (auto simp: race_data_def split: if_splits)
  moreover have ?R if rest: "at_rest w"
  proof (cases "lookup_slot (wk w) = None")
    case True
    then show ?thesis using d rest by (auto simp: race_data_def disarmed_def)
  next
    case False
    then have "unat (sebsd_lookup_count (wk w)) \<le> fuse_base k" "still_armed k (wk w)"
      "sebsd_lookup_count k \<le> sebsd_lookup_count (wk w)"
      using d rest by (simp_all add: race_data_def)
    then show ?thesis using below_fuse [OF _ _ assms(4)] by auto
  qed
  ultimately show ?thesis by simp
qed

text \<open>Two threads and a fuse of 1: two dispatches land.\<close>

theorem fuse_concurrent_witness:
  "\<exists>w. schedule quiet_trace [Call 5, Call 9, Step 5 13, Step 9 12] (world0 (armed 1 0)) = Some w \<and>
     sebsd_lookup_count (wk w) = 2 \<and> disarmed (armed 1 0) (wk w)"
proof -
  let ?s = "[Call 5, Call 9, Step 5 13, Step 9 12]"
  obtain w where w: "schedule quiet_trace ?s (world0 (armed 1 0)) = Some w"
    "sebsd_lookup_count (wk w) = 2" "\<forall>t. stacks w t = []"
    by (simp add: run_simps)
  have "dispatch_reach quiet_trace {5, 9} (world0 (armed 1 0)) w"
    using dispatch_schedule [OF w(1) dispatch_reach.start] by simp
  moreover have "sebsd_trace_enabled (armed 1 0) = 0" "lookup_slot (armed 1 0) \<noteq> None"
    "0 < sint (sebsd_lookup_fuse (armed 1 0))" "sebsd_lookup_fuse (armed 1 0) = 1"
    "sebsd_lookup_count (armed 1 0) = 0"
    by (simp_all add: armed_def kext_data_def)
  ultimately show ?thesis
    using fuse_concurrent [OF armed_reset, of 1 0 "{5, 9}" quiet_trace w] w
    by (simp add: fuse_base_def at_rest_def)
qed

end
