(* ===== verification/Lookup_Live.thy ===== *)
theory Lookup_Live imports Lookup_Rest Lookup_Props begin

text \<open>
  The lookup hook waits for nobody: infinite runs, fairness to one thread, and what is left of an
  activation.
\<close>

section \<open>Infinite runs\<close>

definition lookup_run :: "(uint32 \<Rightarrow> line list) \<Rightarrow> 64 word set \<Rightarrow> (nat \<Rightarrow> world) \<Rightarrow> bool" where
  "lookup_run ls T run \<longleftrightarrow> (\<forall>i. lookup_conc ls T (run i) (run (Suc i)))"

definition steps_now :: "(uint32 \<Rightarrow> line list) \<Rightarrow> 64 word \<Rightarrow> world \<Rightarrow> world \<Rightarrow> bool" where
  "steps_now ls t w w' \<longleftrightarrow> (\<exists>f fs. stacks w t = f # fs \<and> w' = world_step ls t f fs w)"

text \<open>A thread inside the hook is always scheduled again; no assumption about the others.\<close>

definition fair_to :: "(uint32 \<Rightarrow> line list) \<Rightarrow> 64 word \<Rightarrow> (nat \<Rightarrow> world) \<Rightarrow> bool" where
  "fair_to ls t run \<longleftrightarrow> (\<forall>i. \<exists>j\<ge>i. stacks (run j) t = [] \<or> steps_now ls t (run j) (run (Suc j)))"

definition reentered :: "64 word \<Rightarrow> world \<Rightarrow> world \<Rightarrow> bool" where
  "reentered t w w' \<longleftrightarrow> stacks w t \<noteq> [] \<and> length (stacks w t) < length (stacks w' t)"

text \<open>The steps an activation has left, at most.\<close>

fun steps_left :: "frame \<Rightarrow> nat" where
  "steps_left F_owner = 13" | "steps_left F_flag = 6" | "steps_left F_claim = 12"
| "steps_left F_enter = 11" | "steps_left (F_max d) = 10" | "steps_left (F_setmax d) = 9"
| "steps_left F_count = 8" | "steps_left (F_trace n) = 7" | "steps_left (F_fuse n) = 6"
| "steps_left (F_blow_slot b) = 5" | "steps_left (F_blow_load b) = 4"
| "steps_left (F_blow_store b m) = 3" | "steps_left F_leave = 2" | "steps_left F_release = 1"

lemma step_left:
  "lookup_step ls t f k = (k', r) \<Longrightarrow> (case r of Some f' \<Rightarrow> steps_left f' | None \<Rightarrow> 0) < steps_left f"
  by (cases f) (auto split: if_splits)

lemma world_step_left:
  assumes "stacks w t = f # fs"
  shows "weight steps_left (stacks (world_step ls t f fs w) t) < weight steps_left (stacks w t)"
proof -
  obtain k' r p where st: "lookup_step ls t f (wk w) = (k', r)"
    "world_step ls t f fs w =
      set_stack t (case r of Some f' \<Rightarrow> f' # fs | None \<Rightarrow> fs) (w\<lparr>wk := k', peak := p\<rparr>)"
    by (rule world_stepE)
  show ?thesis using step_left [OF st(1)] assms by (cases r) (simp_all add: st(2))
qed

text \<open>What anybody does leaves a thread's activations alone, unless it is the thread.\<close>

lemma conc_left:
  assumes "lookup_conc ls T w w'" "stacks w t \<noteq> []" "\<not> reentered t w w'"
  shows "weight steps_left (stacks w' t) \<le> weight steps_left (stacks w t)"
  using assms
proof (induction rule: lookup_conc.induct)
  case (call u w)
  then show ?case by auto
next
  case (reenter w u n fs)
  then show ?case by (auto simp: reentered_def)
next
  case (step w u f fs)
  show ?case
  proof (cases "u = t")
    case True
    then show ?thesis using world_step_left [of w t f fs ls] step.hyps by simp
  next
    case False
    then show ?thesis by (simp add: world_step_def split: prod.splits)
  qed
qed simp_all

lemma run_left:
  assumes "lookup_run ls T run" "i \<le> j" "\<forall>m. i \<le> m \<and> m < j \<longrightarrow> stacks (run m) t \<noteq> []"
    "\<forall>m\<ge>i. \<not> reentered t (run m) (run (Suc m))"
  shows "weight steps_left (stacks (run j) t) \<le> weight steps_left (stacks (run i) t)"
  using assms(2,3)
proof (induction j rule: dec_induct)
  case (step n)
  then have "stacks (run n) t \<noteq> []" by simp
  then have "weight steps_left (stacks (run (Suc n)) t) \<le> weight steps_left (stacks (run n) t)"
    using conc_left [of ls T "run n" "run (Suc n)" t] assms(1,4) step.hyps(1)
    by (simp add: lookup_run_def)
  then show ?case using step by simp
qed simp

lemma run_returns:
  assumes "lookup_run ls T run" "fair_to ls t run" "\<forall>m\<ge>i. \<not> reentered t (run m) (run (Suc m))"
  shows "\<exists>j\<ge>i. stacks (run j) t = []"
  using assms(3)
proof (induction "weight steps_left (stacks (run i) t)" arbitrary: i rule: less_induct)
  case less
  show ?case
  proof (rule ccontr)
    assume never: "\<not> (\<exists>j\<ge>i. stacks (run j) t = [])"
    obtain j where j: "j \<ge> i" "steps_now ls t (run j) (run (Suc j))"
      using assms(2) never unfolding fair_to_def by blast
    then obtain f fs where f: "stacks (run j) t = f # fs" "run (Suc j) = world_step ls t f fs (run j)"
      by (auto simp: steps_now_def)
    have "weight steps_left (stacks (run (Suc j)) t) < weight steps_left (stacks (run j) t)"
      using world_step_left [OF f(1)] f(2) by simp
    also have "\<dots> \<le> weight steps_left (stacks (run i) t)"
      using run_left [OF assms(1) j(1)] never less.prems by blast
    finally have "\<exists>m\<ge>Suc j. stacks (run m) t = []" using less.hyps less.prems j(1) by simp
    then show False using never j(1) by (meson Suc_leD order.trans)
  qed
qed

text \<open>With tracing off nothing re-enters, in any run.\<close>

lemma run_untraced:
  assumes "lookup_run ls T run" "sebsd_trace_enabled (wk (run 0)) = 0"
  shows "sebsd_trace_enabled (wk (run i)) = 0"
proof (induction i)
  case (Suc i)
  have "lookup_conc ls T (run i) (run (Suc i))" using assms(1) by (simp add: lookup_run_def)
  then show ?case using Suc
  proof (cases rule: lookup_conc.cases)
    case (step t f fs)
    then show ?thesis using step_trace_flag Suc by (auto simp: world_step_def split: prod.splits)
  qed simp_all
qed (rule assms(2))

lemma untraced_not_reentered:
  assumes "lookup_conc ls T w w'" "sebsd_trace_enabled (wk w) = 0"
  shows "\<not> reentered t w w'"
  using assms
proof (cases rule: lookup_conc.cases)
  case (step u f fs)
  then show ?thesis
    by (cases "lookup_step ls u f (wk w)") (auto simp: reentered_def world_step_def split: option.splits)
qed (auto simp: reentered_def sebsd_tracing_def)

section \<open>Properties\<close>

text \<open>
  C13. However threads interleave, re-enter the hook and write the mask: the depth counter is the number of
  activations between its increment and its decrement (modulo its 32 bits), and once everybody has
  left, the counter and the owner are 0 again.
\<close>

theorem lookup_depth_exact:
  assumes "counters_reset k" "lookup_reach ls T (world0 k) w"
  shows "finite (active w) \<and> sebsd_lookup_depth (wk w) = of_nat (tally deep w) \<and>
    (at_rest w \<longrightarrow> sebsd_lookup_depth (wk w) = 0 \<and> sebsd_lookup_owner (wk w) = 0)"
  using depth_inv_reach [OF assms(2,1)] owner_at_rest [OF owner_inv_reach [OF assms(2,1)]]
  by (simp add: depth_inv_def)

text \<open>Three activations on two threads, one of them re-entered unnoticed; then all leave.\<close>

theorem lookup_depth_exact_witness:
  "\<exists>w. schedule quiet_trace [Call 5, Call 9, Step 5 6, Step 9 2, Reenter 5, Step 5 10, Step 5 4, Step 9 7]
       (world0 (armed 0 1)) = Some w \<and>
     nested w \<and> sebsd_lookup_depth (wk w) = 0 \<and> sebsd_lookup_owner (wk w) = 0"
proof -
  let ?s = "[Call 5, Call 9, Step 5 6, Step 9 2, Reenter 5, Step 5 10, Step 5 4, Step 9 7]"
  obtain w where w: "schedule quiet_trace ?s (world0 (armed 0 1)) = Some w" "\<forall>t. stacks w t = []" "nested w"
    by (simp add: run_simps)
  have "lookup_reach quiet_trace UNIV (world0 (armed 0 1)) w"
    using schedule_sound [OF lookup_reach.start w(1), of UNIV] by auto
  from lookup_depth_exact [OF armed_reset this] show ?thesis using w by (auto simp: at_rest_def)
qed

text \<open>
  C9. Nobody waits for anybody: in every infinite run in which a thread inside the hook is scheduled
  again and again, it returns from it, whatever the other threads and the writer of the mask do or
  fail to do. The run has tracing off, or does not re-enter the hook on that thread for ever.
\<close>

theorem lookup_returns:
  assumes "lookup_run ls T run" "fair_to ls t run"
    "sebsd_trace_enabled (wk (run 0)) = 0 \<or> (\<forall>m\<ge>i. \<not> reentered t (run m) (run (Suc m)))"
  shows "\<exists>j\<ge>i. stacks (run j) t = []"
proof -
  have "\<not> reentered t (run m) (run (Suc m))" if "sebsd_trace_enabled (wk (run 0)) = 0" for m
    using untraced_not_reentered [OF assms(1) [unfolded lookup_run_def, rule_format]
        run_untraced [OF assms(1) that]] .
  then show ?thesis using run_returns [OF assms(1,2)] assms(3) by blast
qed

text \<open>A run for ever: thread 5 goes through the hook, thread 9 has stopped in it, the mask is written.\<close>

definition turn :: "world \<Rightarrow> world" where
  "turn w = (case stacks w 5 of
       f # fs \<Rightarrow> world_step quiet_trace 5 f fs w
     | [] \<Rightarrow> (case writers w 0 of
           [] \<Rightarrow> start_write 0 0x10 w
         | (s, r) # rs \<Rightarrow> store_slot 0 s r rs w))"

definition stuck_run :: "nat \<Rightarrow> world" where
  "stuck_run i = (turn ^^ i) (set_stack 5 [F_owner] (set_stack 9 [F_count] (world0 (armed 0 0))))"

lemma turn_conc: "lookup_conc quiet_trace T w (turn w)"
  by (auto simp: turn_def split: list.split
      intro: lookup_conc.step lookup_conc.write_mask lookup_conc.write_slot)

theorem lookup_returns_witness:
  "stacks (stuck_run 0) 5 = [F_owner] \<and> (\<exists>j\<ge>0. stacks (stuck_run j) 5 = [])"
proof -
  have "lookup_run quiet_trace UNIV stuck_run"
    by (simp add: lookup_run_def stuck_run_def turn_conc)
  moreover have "fair_to quiet_trace 5 stuck_run"
    unfolding fair_to_def
  proof
    fix i
    have "stacks (stuck_run i) 5 = [] \<or> steps_now quiet_trace 5 (stuck_run i) (stuck_run (Suc i))"
      by (cases "stacks (stuck_run i) 5") (auto simp: steps_now_def stuck_run_def turn_def)
    then show "\<exists>j\<ge>i. stacks (stuck_run j) 5 = [] \<or> steps_now quiet_trace 5 (stuck_run j) (stuck_run (Suc j))"
      by blast
  qed
  moreover have "sebsd_trace_enabled (wk (stuck_run 0)) = 0"
    by (simp add: stuck_run_def world0_def armed_def kext_data_def)
  ultimately have "\<exists>j\<ge>0. stacks (stuck_run j) 5 = []" using lookup_returns by blast
  then show ?thesis by (simp add: stuck_run_def)
qed

end
