(* ===== verification/Lookup_Mask.thy ===== *)
theory Lookup_Mask imports Lookup_Rest Lookup_Props begin

text \<open>
  The mask \<open>sebsd_hooks_enabled\<close> and the vector under interleaving. A blown fuse clears the slot, loads the
  mask and stores it (\<open>sebsd_hooks_blow_lookup_fuse\<close>); a write to \<open>sedarwin.hooks\<close> stores the mask and
  then the 21 slots, one after the other, and several writes may be under way. What holds whatever
  overlaps: a slot never holds another slot's function. What overlapping writes break, beside
  \<open>blow_races_write\<close> and \<open>blow_loses_write\<close> of \<open>Lookup_Props\<close>; and that mask and vector agree in every run
  without overlap.
\<close>

section \<open>Runs without overlap\<close>

text \<open>An activation that has cleared the slot and not yet stored the mask.\<close>

fun in_blow :: "frame \<Rightarrow> bool" where
  "in_blow (F_blow_load b) = True" | "in_blow (F_blow_store b m) = True" | "in_blow _ = False"

definition blowing :: "world \<Rightarrow> bool" where
  "blowing w \<longleftrightarrow> (\<exists>t. \<exists>f \<in> set (stacks w t). in_blow f)"

text \<open>A write of the mask is under way, and an activation is blowing the fuse or so is another write.\<close>

definition overlap :: "world \<Rightarrow> bool" where
  "overlap w \<longleftrightarrow> (\<exists>u. writers w u \<noteq> [] \<and> (blowing w \<or> (\<exists>u'. u' \<noteq> u \<and> writers w u' \<noteq> [])))"

lemma overlapD:
  assumes "\<not> overlap w" "writers w u \<noteq> []"
  shows "\<not> blowing w" "u' \<noteq> u \<Longrightarrow> writers w u' = []"
  using assms unfolding overlap_def by blast+

lemma blowing_write [simp]: "blowing (start_write u v w) = blowing w" "blowing (store_slot u s r rs w) = blowing w"
  by (simp_all add: blowing_def)

inductive exclusive_reach ::
  "(uint32 \<Rightarrow> line list) \<Rightarrow> 64 word set \<Rightarrow> world \<Rightarrow> world \<Rightarrow> bool"
  for ls :: "uint32 \<Rightarrow> line list" and T :: "64 word set" and w0 :: world where
  start: "exclusive_reach ls T w0 w0"
| more: "exclusive_reach ls T w0 w \<Longrightarrow> lookup_conc ls T w w' \<Longrightarrow> \<not> overlap w' \<Longrightarrow> exclusive_reach ls T w0 w'"

section \<open>The invariant\<close>

abbreviation lookup_asked :: "cint \<Rightarrow> hook_fn option" where
  "lookup_asked m \<equiv> masked m SEBSD_HOOK_VNODE_LOOKUP F_vnode_check_lookup"

text \<open>All slots but the lookup hook's agree with the mask.\<close>

definition others_agree :: "ops \<Rightarrow> cint \<Rightarrow> bool" where
  "others_agree ops m \<longleftrightarrow>
     list_all (\<lambda>(s, b, f). s \<noteq> mpo_vnode_check_lookup \<longrightarrow> ops s = masked m b f) hook_table"

text \<open>What an activation in the window relies on: the slot is empty, and the mask it loaded is current.\<close>

fun blow_ok :: "kext \<Rightarrow> frame \<Rightarrow> bool" where
  "blow_ok k (F_blow_load b) \<longleftrightarrow> sebsd_ops k mpo_vnode_check_lookup = None"
| "blow_ok k (F_blow_store b m) \<longleftrightarrow> sebsd_ops k mpo_vnode_check_lookup = None \<and>
     m AND NOT SEBSD_HOOK_VNODE_LOOKUP = sebsd_hooks_enabled k AND NOT SEBSD_HOOK_VNODE_LOOKUP"
| "blow_ok k _ \<longleftrightarrow> True"

text \<open>A write has stored the mask and the slots before the rest it has still to store.\<close>

definition write_ok :: "kext \<Rightarrow> (slot \<times> hook_fn option) list \<Rightarrow> bool" where
  "write_ok k rest \<longleftrightarrow> (\<exists>stored. hook_stores (sebsd_hooks_enabled k) = stored @ rest \<and>
     (\<forall>(s, r) \<in> set stored. sebsd_ops k s = r))"

definition mask_inv :: "world \<Rightarrow> bool" where
  "mask_inv w \<longleftrightarrow>
     (\<forall>u. writers w u \<noteq> [] \<longrightarrow> write_ok (wk w) (writers w u)) \<and>
     (no_writer w \<longrightarrow> others_agree (sebsd_ops (wk w)) (sebsd_hooks_enabled (wk w)) \<and>
        sebsd_ops (wk w) mpo_vnode_check_lookup \<in> {None, lookup_asked (sebsd_hooks_enabled (wk w))} \<and>
        (\<not> blowing w \<longrightarrow>
          sebsd_ops (wk w) mpo_vnode_check_lookup = lookup_asked (sebsd_hooks_enabled (wk w)))) \<and>
     (\<forall>t. \<forall>f \<in> set (stacks w t). blow_ok (wk w) f)"

text \<open>A write that has stored everything has installed its mask.\<close>

lemma hook_stores_slots: "map fst (hook_stores m) = hook_slots" "distinct hook_slots"
  by (simp_all add: hook_stores_def comp_def) (simp add: hook_slots_def hook_table_def)

lemma stores_installed:
  assumes "\<forall>(s, r) \<in> set (hook_stores m). ops s = r"
  shows "mask_installed ops m"
  unfolding mask_installed_def list_all_iff
proof safe
  fix s b f
  assume e: "(s, b, f) \<in> set hook_table"
  then have "s \<in> set hook_slots" by (force simp: hook_slots_def)
  then have "ops s = sebsd_install_hooks (\<lambda>_. None) m s" using assms by (auto simp: hook_stores_def)
  then show "ops s = masked m b f"
    using e install_hooks_installs [of "\<lambda>_. None" m] by (auto simp: mask_installed_def list_all_iff)
qed

lemma write_ok_store:
  assumes "write_ok k ((s, r) # rest)"
  shows "write_ok (k\<lparr>sebsd_ops := (sebsd_ops k)(s := r)\<rparr>) rest"
proof -
  obtain st where st: "hook_stores (sebsd_hooks_enabled k) = st @ (s, r) # rest" "\<forall>(s, r) \<in> set st. sebsd_ops k s = r"
    using assms by (auto simp: write_ok_def)
  have "distinct (map fst (st @ (s, r) # rest))" using hook_stores_slots st(1) by metis
  then have "s \<notin> fst ` set st" by auto
  then have "\<forall>(s', r') \<in> set (st @ [(s, r)]). ((sebsd_ops k)(s := r)) s' = r'" using st(2) by force
  then show ?thesis using st(1) unfolding write_ok_def by (intro exI [of _ "st @ [(s, r)]"]) simp
qed

lemma write_ok_done: "write_ok k [] \<Longrightarrow> mask_installed (sebsd_ops k) (sebsd_hooks_enabled k)"
  using stores_installed by (auto simp: write_ok_def)

lemma installed_split:
  "mask_installed ops m \<longleftrightarrow> others_agree ops m \<and> ops mpo_vnode_check_lookup = lookup_asked m"
  unfolding mask_installed_def others_agree_def hook_table_def by (simp, blast)

lemma others_covers:
  assumes "others_agree ops m" "ops mpo_vnode_check_lookup \<in> {None, lookup_asked m}"
  shows "mask_covers ops m"
  unfolding mask_covers_def list_all_iff
proof safe
  fix s b f y
  assume e: "(s, b, f) \<in> set hook_table" and y: "ops s = Some y"
  then have "ops s = masked m b f"
    using assms table_blow(2) [of b f] by (cases "s = mpo_vnode_check_lookup") (auto simp: others_agree_def list_all_iff)
  then show "ops s = Some f" "m AND b = 0 \<Longrightarrow> False" using y by (auto simp: masked_def split: if_splits)
qed

lemma others_slot [simp]:
  "others_agree (ops(mpo_vnode_check_lookup := r)) m = others_agree ops m"
  by (simp add: others_agree_def list_all_iff cong: conj_cong)

lemma others_blow:
  "others_agree ops (m AND NOT SEBSD_HOOK_VNODE_LOOKUP) = others_agree ops m"
  unfolding others_agree_def list_all_iff
  using table_blow(1) masked_blow by (fastforce simp: masked_def)

lemma blowing_set:
  "blowing (set_stack t fs w) \<longleftrightarrow> (\<exists>f \<in> set fs. in_blow f) \<or> (\<exists>u. u \<noteq> t \<and> (\<exists>f \<in> set (stacks w u). in_blow f))"
  by (auto simp: blowing_def)

lemma calm_ok: "\<not> blowing w \<Longrightarrow> f \<in> set (stacks w t) \<Longrightarrow> blow_ok k f"
  by (cases f) (force simp: blowing_def)+

text \<open>The steps outside the window touch neither mask nor vector, and do not enter the window.\<close>

lemma step_outside:
  assumes "lookup_step ls t f k = (k', r)" "\<not> in_blow f" "\<And>b. f \<noteq> F_blow_slot b"
  shows "sebsd_ops k' = sebsd_ops k \<and> sebsd_hooks_enabled k' = sebsd_hooks_enabled k \<and>
    (\<forall>f'. r = Some f' \<longrightarrow> \<not> in_blow f')"
  using assms by (cases f) (auto simp: emit_def split: if_splits)

lemma blow_ok_same:
  "sebsd_ops k' = sebsd_ops k \<Longrightarrow> sebsd_hooks_enabled k' = sebsd_hooks_enabled k \<Longrightarrow> blow_ok k' f = blow_ok k f"
  by (cases f) simp_all

text \<open>Stacks may change as long as the window's activations stay.\<close>

lemma mask_inv_stack:
  assumes "mask_inv w" "sebsd_ops k' = sebsd_ops (wk w)" "sebsd_hooks_enabled k' = sebsd_hooks_enabled (wk w)"
    "\<forall>f \<in> set fs - set (stacks w t). \<not> in_blow f" "\<forall>f \<in> set (stacks w t). in_blow f \<longrightarrow> f \<in> set fs"
  shows "mask_inv (set_stack t fs (w\<lparr>wk := k', nested := q, peak := p\<rparr>))"
proof -
  let ?w = "set_stack t fs (w\<lparr>wk := k', nested := q, peak := p\<rparr>)"
  have "(\<exists>f \<in> set fs. in_blow f) = (\<exists>f \<in> set (stacks w t). in_blow f)" using assms(4,5) by blast
  then have "blowing ?w = blowing w" unfolding blowing_set by (auto simp: blowing_def)
  moreover have "blow_ok k' f" if "f \<in> set (stacks ?w u)" for u f
  proof (cases "f \<in> set (stacks w u)")
    case True
    then show ?thesis using assms(1) blow_ok_same [OF assms(2,3)] by (auto simp: mask_inv_def)
  next
    case False
    then have "\<not> in_blow f" using that assms(4) by (auto split: if_splits)
    then show ?thesis by (cases f) simp_all
  qed
  moreover have "write_ok k' rest = write_ok (wk w) rest" for rest using assms(2,3) by (simp add: write_ok_def)
  moreover have "no_writer ?w = no_writer w" by simp
  ultimately show ?thesis using assms(1-3) by (simp add: mask_inv_def)
qed

text \<open>The three steps of the window. Nobody writes the mask while an activation is in it.\<close>

lemma mask_inv_blow:
  assumes "mask_inv w" "\<not> overlap w" "\<not> overlap (world_step ls t f fs w)" "stacks w t = f # fs"
    "in_blow f \<or> f = F_blow_slot b"
  shows "mask_inv (world_step ls t f fs w)"
proof -
  obtain k' r p where st: "lookup_step ls t f (wk w) = (k', r)"
    "world_step ls t f fs w =
      set_stack t (case r of Some f' \<Rightarrow> f' # fs | None \<Rightarrow> fs) (w\<lparr>wk := k', peak := p\<rparr>)"
    by (rule world_stepE)
  have wr: "no_writer w"
  proof (cases "in_blow f")
    case True
    then have "blowing w" using assms(4) by (auto simp: blowing_def intro!: exI [of _ t])
    then show ?thesis using assms(2) by (auto simp: overlap_def no_writer_def)
  next
    case False
    then have "f = F_blow_slot b" using assms(5) by simp
    then have "blowing (world_step ls t f fs w)" using st by (auto simp: blowing_set)
    then show ?thesis using assms(3) st(2) by (auto simp: overlap_def no_writer_def)
  qed
  have inv: "others_agree (sebsd_ops (wk w)) (sebsd_hooks_enabled (wk w))"
    "\<And>u g. g \<in> set (stacks w u) \<Longrightarrow> blow_ok (wk w) g"
    using assms(1) wr by (simp_all add: mask_inv_def)
  have own: "blow_ok (wk w) f" using inv(2) [of f t] assms(4) by simp
  have k': "others_agree (sebsd_ops k') (sebsd_hooks_enabled k') \<and> sebsd_ops k' mpo_vnode_check_lookup = None \<and>
      (sebsd_hooks_enabled k' AND NOT SEBSD_HOOK_VNODE_LOOKUP) =
        (sebsd_hooks_enabled (wk w) AND NOT SEBSD_HOOK_VNODE_LOOKUP)"
    using assms(5) st(1) own inv(1) by (cases f) (auto simp: others_blow and.assoc)
  have r: "(\<exists>f'. r = Some f' \<and> in_blow f' \<and> blow_ok k' f') \<or> lookup_asked (sebsd_hooks_enabled k') = None"
    using assms(5) st(1) own k' by (cases f) (auto simp: masked_def masked_blown)
  have mine: "blow_ok k' f'" if "r = Some f'" for f'
    using that assms(5) st(1) own k' by (cases f) (auto split: if_splits)
  have ok: "blow_ok k' g" if "blow_ok (wk w) g" for g using that k' by (cases g) simp_all
  have "blow_ok k' g" if "g \<in> set fs" for g using inv(2) [of g t] ok that assms(4) by simp
  then have "blow_ok k' g" if "g \<in> set (stacks (world_step ls t f fs w) u)" for g u
    using that mine ok inv(2) unfolding st(2) by (cases r) (auto split: if_splits)
  moreover have "lookup_asked (sebsd_hooks_enabled k') = None" if "\<not> blowing (world_step ls t f fs w)"
    using that r unfolding st(2) by (auto simp: blowing_set)
  moreover have "\<forall>u. writers w u = []" using wr by (simp add: no_writer_def)
  ultimately show ?thesis using k' unfolding st(2) by (simp add: mask_inv_def)
qed

lemma mask_inv_conc:
  "lookup_conc ls T w w' \<Longrightarrow> mask_inv w \<Longrightarrow> \<not> overlap w \<Longrightarrow> \<not> overlap w' \<Longrightarrow> mask_inv w'"
proof (induction rule: lookup_conc.induct)
  case (call t w)
  then show ?case using mask_inv_stack [of w "wk w" "[F_owner]" t "peak w" "nested w"] by simp
next
  case (reenter w t n fs)
  moreover have "\<forall>f \<in> set (F_owner # F_trace n # fs) - set (stacks w t). \<not> in_blow f" using reenter.hyps(1) by auto
  ultimately show ?case using mask_inv_stack [of w "wk w" "F_owner # F_trace n # fs" t "peak w" True] by auto
next
  case (step w t f fs)
  show ?case
  proof (cases "in_blow f \<or> (\<exists>b. f = F_blow_slot b)")
    case True
    then show ?thesis using mask_inv_blow [OF step.prems step.hyps] by blast
  next
    case False
    obtain k' r p where st: "lookup_step ls t f (wk w) = (k', r)"
      "world_step ls t f fs w =
        set_stack t (case r of Some f' \<Rightarrow> f' # fs | None \<Rightarrow> fs) (w\<lparr>wk := k', peak := p\<rparr>)"
      by (rule world_stepE)
    have "sebsd_ops k' = sebsd_ops (wk w) \<and> sebsd_hooks_enabled k' = sebsd_hooks_enabled (wk w) \<and>
        (\<forall>f'. r = Some f' \<longrightarrow> \<not> in_blow f')"
      using step_outside [OF st(1)] False by blast
    moreover define gs where "gs = (case r of Some f' \<Rightarrow> f' # fs | None \<Rightarrow> fs)"
    ultimately have k': "sebsd_ops k' = sebsd_ops (wk w)" "sebsd_hooks_enabled k' = sebsd_hooks_enabled (wk w)"
      and gs: "\<forall>g \<in> set gs - set (stacks w t). \<not> in_blow g" "\<forall>g \<in> set (stacks w t). in_blow g \<longrightarrow> g \<in> set gs"
      using step.hyps False by (auto split: option.splits)
    show ?thesis unfolding st(2) gs_def [symmetric]
      using mask_inv_stack [OF step.prems(1) k' gs, of p "nested w"] by simp
  qed
next
  case (write_mask w u v)
  have others: "writers w u' = []" if "u' \<noteq> u" for u'
    using overlapD(2) [OF write_mask.prems(3), of u u'] that by simp
  have "\<not> blowing w" using overlapD(1) [OF write_mask.prems(3), of u] by simp
  from calm_ok [OF this] have "blow_ok k f" if "f \<in> set (stacks w t)" for f t k using that .
  moreover have "write_ok (wk (start_write u v w)) (hook_stores v)" by (simp add: write_ok_def)
  ultimately show ?case using others by (auto simp: mask_inv_def)
next
  case (write_slot w u s r rs)
  have others: "writers w u' = []" if "u' \<noteq> u" for u'
    using overlapD(2) [OF write_slot.prems(2), of u u'] write_slot.hyps that by simp
  have "\<not> blowing w" using overlapD(1) [OF write_slot.prems(2), of u] write_slot.hyps by simp
  from calm_ok [OF this] have calm: "blow_ok k f" if "f \<in> set (stacks w t)" for f t k using that .
  have "writers w u \<noteq> [] \<longrightarrow> write_ok (wk w) (writers w u)" using write_slot.prems(1) unfolding mask_inv_def by blast
  then have "write_ok (wk w) ((s, r) # rs)" using write_slot.hyps by simp
  moreover define w' where "w' = store_slot u s r rs w"
  ultimately have ok: "write_ok (wk w') rs" using write_ok_store by (simp add: store_slot_def)
  have "write_ok (wk w') (writers w' x)" if "writers w' x \<noteq> []" for x
    using others [of x] ok that by (cases "x = u") (simp_all add: w'_def)
  moreover have "stacks w' = stacks w" by (simp add: w'_def)
  moreover have "no_writer w' \<Longrightarrow> rs = []" by (auto simp: w'_def no_writer_def split: if_splits)
  ultimately have "mask_inv w'" using write_ok_done ok calm by (auto simp: mask_inv_def installed_split)
  then show ?case by (simp add: w'_def)
qed

lemma mask_inv_reach:
  "exclusive_reach ls T (world0 k) w \<Longrightarrow> mask_installed (sebsd_ops k) (sebsd_hooks_enabled k) \<Longrightarrow>
    mask_inv w \<and> \<not> overlap w"
proof (induction rule: exclusive_reach.induct)
  case start
  then show ?case by (simp add: mask_inv_def world0_def overlap_def installed_split)
next
  case (more w w')
  then show ?case using mask_inv_conc by blast
qed

section \<open>Schedules without overlap\<close>

lemma exclusive_steps:
  "exclusive_reach ls T w0 w \<Longrightarrow> no_writer w \<Longrightarrow> steps ls t n w = Some w' \<Longrightarrow>
    exclusive_reach ls T w0 w' \<and> no_writer w'"
proof (induction n arbitrary: w)
  case (Suc n)
  then obtain f fs where f: "stacks w t = f # fs" "steps ls t n (world_step ls t f fs w) = Some w'"
    by (auto split: list.splits)
  have w1: "no_writer (world_step ls t f fs w)" using Suc.prems(2) by (simp add: world_step_def split: prod.splits)
  then have "\<not> overlap (world_step ls t f fs w)" by (simp add: overlap_def no_writer_def)
  from exclusive_reach.more [OF Suc.prems(1) lookup_conc.step [OF f(1)] this] show ?case
    using Suc.IH w1 f(2) by blast
qed simp

lemma exclusive_stores:
  "exclusive_reach ls T w0 w \<Longrightarrow> \<not> blowing w \<Longrightarrow> \<forall>u'. u' \<noteq> u \<longrightarrow> writers w u' = [] \<Longrightarrow>
    stores u n w = Some w' \<Longrightarrow> exclusive_reach ls T w0 w'"
proof (induction n arbitrary: w)
  case (Suc n)
  then obtain s r rs where f: "writers w u = (s, r) # rs" "stores u n (store_slot u s r rs w) = Some w'"
    by (auto split: list.splits)
  have "\<not> overlap (store_slot u s r rs w)" using Suc.prems(2,3) by (simp add: overlap_def)
  from exclusive_reach.more [OF Suc.prems(1) lookup_conc.write_slot [OF f(1)] this] show ?case
    using Suc.IH [OF _ _ _ f(2)] Suc.prems(2,3) by simp
qed simp

section \<open>Properties\<close>

text \<open>
  C11. Without overlap the mask says what is installed: in every interleaving in which no write of the
  mask overlaps another write or a blowing fuse, between writes no slot is filled that the mask does not
  ask for, and when no activation is blowing the fuse the vector is exactly the mask. Each of the three
  overlaps breaks this (\<open>two_writes_race\<close>, \<open>blow_races_write\<close>, \<open>blow_loses_write\<close>).
\<close>

theorem mask_without_overlap:
  assumes "mask_installed (sebsd_ops k) (sebsd_hooks_enabled k)"
    "exclusive_reach ls T (world0 k) w" "no_writer w"
  shows "mask_covers (sebsd_ops (wk w)) (sebsd_hooks_enabled (wk w)) \<and>
    (\<not> blowing w \<longrightarrow> mask_installed (sebsd_ops (wk w)) (sebsd_hooks_enabled (wk w)))"
  using mask_inv_reach [OF assms(2,1)] others_covers assms(3) by (simp add: mask_inv_def installed_split)

text \<open>A fuse of 1 blows; then the operator arms \<open>vnode_check_open\<close>: mask and vector say the same.\<close>

theorem mask_without_overlap_witness:
  "\<exists>w. schedule quiet_trace [Call 5, Step 5 13, Write_mask 0 1, Write_slots 0 21] (world0 (armed 1 0)) = Some w \<and>
     sebsd_hooks_enabled (wk w) = 1 \<and> sebsd_lookup_count (wk w) = 1 \<and>
     mask_installed (sebsd_ops (wk w)) (sebsd_hooks_enabled (wk w))"
proof -
  let ?w0 = "world0 (armed 1 0)"
  let ?R = "exclusive_reach quiet_trace UNIV ?w0"
  have init: "mask_installed (sebsd_ops (armed 1 0)) (sebsd_hooks_enabled (armed 1 0))"
    by (simp add: mask_installed_def hook_table_def armed_def kext_data_def masked_def hook_bits)
  define w1 where "w1 = set_stack 5 [F_owner] ?w0"
  have c1: "do_act quiet_trace (Call 5) ?w0 = Some w1" "no_writer w1" by (simp_all add: run_simps w1_def)
  have "lookup_conc quiet_trace UNIV ?w0 w1"
    unfolding w1_def by (rule lookup_conc.call) (simp_all add: world0_def armed_def kext_data_def)
  then have r1: "?R w1" using exclusive_reach.more [OF exclusive_reach.start] c1(2)
    by (simp add: overlap_def no_writer_def)
  obtain w2 where w2: "steps quiet_trace 5 13 w1 = Some w2" "\<forall>t. stacks w2 t = []" "sebsd_lookup_count (wk w2) = 1"
    unfolding w1_def by (simp add: run_simps)
  have r2: "?R w2" "no_writer w2" using exclusive_steps [OF r1 c1(2) w2(1)] by simp_all
  define w3 where "w3 = start_write 0 1 w2"
  have quiet: "\<not> blowing w3" "\<forall>u'. u' \<noteq> 0 \<longrightarrow> writers w3 u' = []"
    using w2(2) r2(2) by (simp_all add: w3_def blowing_def no_writer_def)
  have a3: "do_act quiet_trace (Write_mask 0 1) w2 = Some w3" using r2(2) by (simp add: w3_def no_writer_def)
  have "lookup_conc quiet_trace UNIV w2 w3"
    unfolding w3_def using r2(2) by (intro lookup_conc.write_mask) (simp add: no_writer_def)
  moreover have "\<not> overlap w3" using quiet unfolding overlap_def by metis
  ultimately have r3: "?R w3" using exclusive_reach.more [OF r2(1)] by blast
  obtain w4 where w4: "stores 0 21 w3 = Some w4" "stacks w4 = stacks w3" "sebsd_hooks_enabled (wk w4) = 1"
    "sebsd_lookup_count (wk w4) = 1" "no_writer w4"
    using stores_write [of w3 0 1] quiet(2) w2(3) by (simp add: w3_def no_writer_def start_write_def)
  have "?R w4" using exclusive_stores [OF r3 quiet w4(1)] .
  moreover have "\<not> blowing w4" using quiet(1) w4(2) by (simp add: blowing_def)
  ultimately have "mask_installed (sebsd_ops (wk w4)) (sebsd_hooks_enabled (wk w4))"
    using mask_without_overlap [OF init _ w4(5)] by simp
  moreover have "schedule quiet_trace [Call 5, Step 5 13, Write_mask 0 1, Write_slots 0 21] ?w0 = Some w4"
    using c1(1) w2(1) a3 w4(1) by (simp only: schedule.simps do_act.simps(3,5) bind.bind_lunit)
  ultimately show ?thesis using w4(3,4) by simp
qed


text \<open>What a slot may hold: nothing, or its own function.\<close>

definition vector_typed :: "ops \<Rightarrow> bool" where
  "vector_typed ops \<longleftrightarrow> list_all (\<lambda>(s, b, f). ops s \<in> {None, Some f}) hook_table"

lemma vector_typed_iff:
  "vector_typed ops \<longleftrightarrow> (\<forall>s b f. (s, b, f) \<in> set hook_table \<longrightarrow> ops s \<in> {None, Some f})"
  by (auto simp: vector_typed_def list_all_iff)

lemma installed_typed: "mask_installed ops m \<Longrightarrow> vector_typed ops"
  by (auto simp: mask_installed_def vector_typed_def list_all_iff masked_def split: if_splits)

definition typed_inv :: "kext \<Rightarrow> world \<Rightarrow> bool" where
  "typed_inv k w \<longleftrightarrow> vector_typed (sebsd_ops (wk w)) \<and>
     (\<forall>s. s \<notin> set hook_slots \<longrightarrow> sebsd_ops (wk w) s = sebsd_ops k s) \<and>
     (\<forall>u. \<exists>m. set (writers w u) \<subseteq> set (hook_stores m))"

lemma typed_store:
  assumes "vector_typed ops" "(s, r) \<in> set (hook_stores m)"
  shows "vector_typed (ops(s := r))" "s \<in> set hook_slots"
proof -
  have r: "r = sebsd_install_hooks (\<lambda>_. None) m s" and s: "s \<in> set hook_slots"
    using assms(2) by (auto simp: hook_stores_def)
  have "vector_typed (sebsd_install_hooks (\<lambda>_. None) m)" using installed_typed install_hooks_installs by blast
  then show "vector_typed (ops(s := r))" using assms(1) unfolding vector_typed_iff by (auto simp: r)
  show "s \<in> set hook_slots" by (rule s)
qed

lemma typed_clear: "vector_typed ops \<Longrightarrow> vector_typed (ops(s := None))"
  unfolding vector_typed_iff by simp

lemma step_ops:
  "lookup_step ls t f k = (k', r) \<Longrightarrow>
    sebsd_ops k' = sebsd_ops k \<or> sebsd_ops k' = (sebsd_ops k)(mpo_vnode_check_lookup := None)"
  by (cases f) (auto simp: emit_def split: if_splits)

lemma typed_inv_conc: "lookup_conc ls T w w' \<Longrightarrow> typed_inv k w \<Longrightarrow> typed_inv k w'"
proof (induction rule: lookup_conc.induct)
  case (step w t f fs)
  obtain k' r p where st: "lookup_step ls t f (wk w) = (k', r)"
    "world_step ls t f fs w =
      set_stack t (case r of Some f' \<Rightarrow> f' # fs | None \<Rightarrow> fs) (w\<lparr>wk := k', peak := p\<rparr>)"
    by (rule world_stepE)
  have "mpo_vnode_check_lookup \<in> set hook_slots" by (simp add: hook_slots_def hook_table_def)
  then have "vector_typed (sebsd_ops k') \<and> (\<forall>s. s \<notin> set hook_slots \<longrightarrow> sebsd_ops k' s = sebsd_ops k s)"
    using step.prems step_ops [OF st(1)] typed_clear [of "sebsd_ops (wk w)"]
    by (elim disjE) (simp_all add: typed_inv_def del: fun_upd_apply, auto)
  then show ?case using step.prems unfolding st(2) by (simp add: typed_inv_def)
next
  case (write_mask w u v)
  then show ?case by (auto simp: typed_inv_def)
next
  case (write_slot w u s r rs)
  obtain m where m: "set (writers w u) \<subseteq> set (hook_stores m)" using write_slot.prems unfolding typed_inv_def by blast
  then have "(s, r) \<in> set (hook_stores m)" "set rs \<subseteq> set (hook_stores m)" using write_slot.hyps by auto
  moreover have "\<exists>m. set (((writers w)(u := rs)) x) \<subseteq> set (hook_stores m)" for x
    using calculation(2) write_slot.prems by (cases "x = u") (auto simp: typed_inv_def)
  ultimately show ?case using write_slot.prems typed_store [of "sebsd_ops (wk w)" s r m]
    by (simp add: typed_inv_def del: fun_upd_apply) auto
qed (auto simp: typed_inv_def)

lemma typed_inv_reach:
  "lookup_reach ls T (world0 k) w \<Longrightarrow> vector_typed (sebsd_ops k) \<Longrightarrow> typed_inv k w"
proof (induction rule: lookup_reach.induct)
  case start
  then show ?case by (auto simp: typed_inv_def world0_def)
next
  case (more w w')
  then show ?case using typed_inv_conc by blast
qed

text \<open>
  C26. Whatever races, no slot ever holds another slot's function: at every moment of every run, with any
  number of threads in the lookup hook, fuses blowing, and writes of the mask at any of their stores, each
  of the 21 hook slots is empty or holds its own function, and every other slot of the vector is as it was.
  So a dispatch that races a store calls the right function or none.
\<close>

theorem vector_always_typed:
  assumes "vector_typed (sebsd_ops k)" "lookup_reach ls T (world0 k) w"
  shows "vector_typed (sebsd_ops (wk w)) \<and> (\<forall>s. s \<notin> set hook_slots \<longrightarrow> sebsd_ops (wk w) s = sebsd_ops k s)"
  using typed_inv_reach [OF assms(2,1)] by (simp add: typed_inv_def)

text \<open>Two writes interrupted after three and one stores, and a fuse about to blow.\<close>

theorem vector_always_typed_witness:
  "\<exists>w. schedule quiet_trace [Call 5, Step 5 8, Write_mask 0 7, Write_slots 0 3, Write_mask 1 8, Write_slots 1 1]
       (world0 (armed 1 0)) = Some w \<and>
     sebsd_hooks_enabled (wk w) = 8 \<and> sebsd_ops (wk w) mpo_vnode_check_create = Some F_vnode_check_create \<and>
     vector_typed (sebsd_ops (wk w))"
proof -
  let ?s = "[Call 5, Step 5 8, Write_mask 0 7, Write_slots 0 3, Write_mask 1 8, Write_slots 1 1]"
  have st: "hook_stores m = map (\<lambda>(s, b, f). (s, masked m b f)) hook_table" for m
    by (simp add: hook_stores_def hook_slots_def hook_table_def install_hooks_at)
  have ns: "stores u (numeral v) w = (case writers w u of (s, r) # rs \<Rightarrow> stores u (pred_numeral v) (store_slot u s r rs w)
      | [] \<Rightarrow> None)" for u v w by (simp add: numeral_eq_Suc)
  obtain w where w: "schedule quiet_trace ?s (world0 (armed 1 0)) = Some w" "sebsd_hooks_enabled (wk w) = 8"
    "sebsd_ops (wk w) mpo_vnode_check_create = Some F_vnode_check_create"
    by (simp add: run_simps st ns hook_table_def masked_def hook_bits store_slot_def)
  have "lookup_reach quiet_trace UNIV (world0 (armed 1 0)) w"
    using schedule_sound [OF lookup_reach.start w(1), of UNIV] by auto
  moreover have "vector_typed (sebsd_ops (armed 1 0))"
    by (simp add: vector_typed_def hook_table_def armed_def kext_data_def)
  ultimately show ?thesis using vector_always_typed w by blast
qed

end
