(* ===== verification/Ladder.thy ===== *)
theory Ladder imports Lookup_Fuse Policy_Life begin

text \<open>
  The operator's script \<open>tools/sedarwin-fuse-ladder\<close> against the module: each rung resets the counters,
  sets a fuse, arms the lookup hook, lets the system run, and reads the counters back. It is the whole
  of the module working together: sysctl handlers, the vector, the hook and its fuse.
\<close>

section \<open>The script\<close>

text \<open>A line of \<open>/var/log/sedarwin-fuse.log\<close>: fuse, count, recursed, maxdepth, hooks.\<close>

datatype ladder_line =
    Ladder_start | Trying cint | Survived cint uint32 uint32 uint32 cint | Ladder_finished

text \<open>\<open>sysctl -w\<close>, whose status the script does not look at, and \<open>sysctl -n\<close>.\<close>

definition sysctl_w :: "handle_int \<Rightarrow> sysctl_oid \<Rightarrow> cint \<Rightarrow> kext \<Rightarrow> kext" where
  "sysctl_w H o1 x k = snd (sysctl_call H o1 (wr x) k)"

definition sysctl_n :: "sysctl_oid \<Rightarrow> kext \<Rightarrow> cint" where
  "sysctl_n o1 k = var_get (o_arg1 o1) k"

definition ladder_arm :: "handle_int \<Rightarrow> cint \<Rightarrow> kext \<Rightarrow> kext" where
  "ladder_arm H f k =
     (let k = sysctl_w H sebsd_sysctl_lookup_count 0 k;
          k = sysctl_w H sebsd_sysctl_lookup_recursed 0 k;
          k = sysctl_w H sebsd_sysctl_lookup_maxdepth 0 k;
          k = sysctl_w H sebsd_sysctl_lookup_fuse f k;
          k = sysctl_w H sebsd_sysctl_unsafe 1 k
      in sysctl_w H sebsd_sysctl_hooks 0x10 k)"

text \<open>
  One rung; the system dispatches the hook \<open>m\<close> times while the script sleeps. \<open>None\<close>: a dispatch has no
  defined result.
\<close>

definition ladder_rung ::
  "(nat \<Rightarrow> kext \<Rightarrow> kext option) \<Rightarrow> handle_int \<Rightarrow> cint \<Rightarrow> nat \<Rightarrow> kext \<Rightarrow> (ladder_line list \<times> kext) option" where
  "ladder_rung dispatches H f m k = do {
     k \<leftarrow> dispatches m (ladder_arm H f k);
     Some ([Trying f,
       Survived f (sysctl_n sebsd_sysctl_lookup_count k) (sysctl_n sebsd_sysctl_lookup_recursed k)
         (sysctl_n sebsd_sysctl_lookup_maxdepth k) (sysctl_n sebsd_sysctl_hooks k)], k) }"

fun ladder_rungs ::
  "(nat \<Rightarrow> kext \<Rightarrow> kext option) \<Rightarrow> handle_int \<Rightarrow> (cint \<times> nat) list \<Rightarrow> kext \<Rightarrow>
     (ladder_line list \<times> kext) option" where
  "ladder_rungs dispatches H [] k = Some ([], k)"
| "ladder_rungs dispatches H ((f, m) # rs) k = do {
     (l, k) \<leftarrow> ladder_rung dispatches H f m k;
     (ls, k) \<leftarrow> ladder_rungs dispatches H rs k;
     Some (l @ ls, k) }"

definition default_ladder :: "cint list" where
  "default_ladder = [4, 8, 16, 24, 32]"

text \<open>
  The script, run by user \<open>uid\<close> with the fuses \<open>fs\<close>; \<open>ms\<close> is how often the hook is called on each rung.
  Its exit status, the log and the module.
\<close>

definition sedarwin_fuse_ladder ::
  "(nat \<Rightarrow> kext \<Rightarrow> kext option) \<Rightarrow> handle_int \<Rightarrow> nat \<Rightarrow> cint list \<Rightarrow> nat list \<Rightarrow> kext \<Rightarrow>
     (int \<times> ladder_line list \<times> kext) option" where
  "sedarwin_fuse_ladder dispatches H uid fs ms k =
     (if uid \<noteq> 0 \<or> sebsd_sysctl_hooks \<notin> set (k_tree k) then Some (1, [], k)
      else do {
        (ls, k) \<leftarrow> ladder_rungs dispatches H (zip (if fs = [] then default_ladder else fs) ms) k;
        Some (0, [Ladder_start] @ ls @ [Ladder_finished], k) })"

section \<open>One rung\<close>

text \<open>What the kernel's handler does with a write: it copies the new value in.\<close>

definition copies_in :: "handle_int \<Rightarrow> bool" where
  "copies_in H \<longleftrightarrow> (\<forall>v x. H v (wr x) = (0, x))"

lemma user_int_copies: "copies_in user_int"
  by (simp add: copies_in_def user_int_def wr_def)

lemma sysctl_w_int:
  assumes "copies_in H" "o_handler o1 = H_sysctl_handle_int"
  shows "sysctl_w H o1 x k = var_set (o_arg1 o1) x k"
  using assms by (simp add: sysctl_w_def sysctl_call_def copies_in_def)

lemma sysctl_w_hooks:
  assumes "copies_in H" "sebsd_unsafe_enabled k = 1"
  shows "sysctl_w H sebsd_sysctl_hooks 0x10 k =
    emit (sebsd_log ''hooks now 0x%x'' [A_int 0x10])
      (k\<lparr>sebsd_hooks_enabled := 0x10, sebsd_ops := sebsd_install_hooks (sebsd_ops k) 0x10\<rparr>)"
proof -
  have h: "H (sebsd_hooks_enabled k) (wr 0x10) = (0, 0x10)" "rq_newptr (wr 0x10) \<noteq> 0"
    using assms(1) by (simp_all add: copies_in_def wr_def)
  have "sebsd_sysctl_hooks_handler H (wr 0x10) k = (0, emit (sebsd_log ''hooks now 0x%x'' [A_int 0x10])
      (k\<lparr>sebsd_hooks_enabled := 0x10, sebsd_ops := sebsd_install_hooks (sebsd_ops k) 0x10\<rparr>))"
    unfolding sebsd_sysctl_hooks_handler_def h(1) Let_def prod.case hook_all_value(2)
    using h(2) assms(2) by simp
  then show ?thesis by (simp add: sysctl_w_def sysctl_call_def sebsd_sysctl_hooks_def)
qed

text \<open>What every rung finds: nobody in the hook; and what is the same on each.\<close>

definition rung_ready :: "hook_env \<Rightarrow> componentname option \<Rightarrow> kext \<Rightarrow> bool" where
  "rung_ready e cnp k \<longleftrightarrow> sebsd_lookup_owner k = 0 \<and> sebsd_lookup_depth k = 0 \<and>
     trace_ok e (sebsd_trace_enabled k) cnp"

lemma armed_state:
  assumes "copies_in H" "rung_ready e cnp k"
  shows "rung_ready e cnp (ladder_arm H f k)" "sebsd_lookup_count (ladder_arm H f k) = 0"
    "sebsd_lookup_recursed (ladder_arm H f k) = 0" "sebsd_lookup_maxdepth (ladder_arm H f k) = 0"
    "sebsd_lookup_fuse (ladder_arm H f k) = f" "sebsd_unsafe_enabled (ladder_arm H f k) = 1"
    "sebsd_hooks_enabled (ladder_arm H f k) = 0x10"
    "sebsd_ops (ladder_arm H f k) mpo_vnode_check_lookup = Some F_vnode_check_lookup"
  using assms
  by (simp_all add: ladder_arm_def sysctl_w_int sysctl_w_hooks rung_ready_def emit_def
      sebsd_sysctl_lookup_count_def sebsd_sysctl_lookup_recursed_def sebsd_sysctl_lookup_maxdepth_def
      sebsd_sysctl_lookup_fuse_def sebsd_sysctl_unsafe_def install_hooks_at masked_def hook_bits)

text \<open>One thread after the other never passes a depth of 1, and reaches it with the first dispatch.\<close>

lemma dispatch_maxdepth:
  assumes "lookup_dispatch e cred dvp dlabel cnp k = Some k'" "sebsd_lookup_owner k = 0"
    "sebsd_lookup_depth k = 0" "current_thread e \<noteq> 0" "sebsd_lookup_maxdepth k \<le> 1"
  shows "sebsd_lookup_maxdepth k' =
    (if sebsd_ops k mpo_vnode_check_lookup = None then sebsd_lookup_maxdepth k else 1)"
proof -
  have "sebsd_lookup_maxdepth k = 0 \<or> sebsd_lookup_maxdepth k = 1"
    using assms(5) by (auto simp: word_le_nat_alt le_Suc_eq word_unat_eq_iff)
  then show ?thesis using assms
    by (auto simp: lookup_dispatch_def sebsd_vnode_check_lookup_def Let_def emit_def bind_eq_Some_conv
        sebsd_hooks_blow_lookup_fuse_def split: if_splits)
qed

lemma dispatches_maxdepth:
  assumes "lookup_dispatches e cred dvp dlabel cnp m k = Some k'" "rung_ready e cnp k"
    "current_thread e \<noteq> 0" "sebsd_lookup_maxdepth k = 0" "sebsd_ops k mpo_vnode_check_lookup \<noteq> None"
    "unat (sebsd_lookup_count k) + m < 2 ^ 32"
  shows "sebsd_lookup_maxdepth k' = of_bool (0 < m)"
  using assms(1,6)
proof (induction m arbitrary: k')
  case (Suc m)
  then obtain k1 where k1: "lookup_dispatches e cred dvp dlabel cnp m k = Some k1"
    "lookup_dispatch e cred dvp dlabel cnp k1 = Some k'"
    by (auto simp: bind_eq_Some_conv)
  have r: "sebsd_lookup_owner k = 0" "sebsd_lookup_depth k = 0" "trace_ok e (sebsd_trace_enabled k) cnp"
    using assms(2) by (simp_all add: rung_ready_def)
  have "\<exists>k'. lookup_dispatches e cred dvp dlabel cnp m k = Some k' \<and> same_switches k k'"
    using dispatches_no_fuse [OF r(1) assms(3) r(3) assms(5), of cred dvp dlabel m]
      dispatches_result [OF r(1) assms(3) r(3) assms(5), of m cred dvp dlabel] Suc.prems(2)
    by (cases "0 < sint (sebsd_lookup_fuse k)") auto
  then have same: "same_switches k k1" using k1(1) by simp
  have d: "sebsd_lookup_maxdepth k1 = of_bool (0 < m)" using Suc.IH [OF k1(1)] Suc.prems(2) by simp
  have "sebsd_lookup_maxdepth k' =
      (if sebsd_ops k1 mpo_vnode_check_lookup = None then sebsd_lookup_maxdepth k1 else 1)"
    using same d r by (intro dispatch_maxdepth [OF k1(2) _ _ assms(3)]) (simp_all add: same_switches_def)
  moreover have "0 < m" if "sebsd_ops k1 mpo_vnode_check_lookup = None"
    using that k1(1) assms(5) by (cases m) auto
  ultimately show ?case using d by auto
qed (use assms(4) in simp)

text \<open>The report of a rung.\<close>

definition rung_report :: "cint \<Rightarrow> nat \<Rightarrow> ladder_line list" where
  "rung_report f m = [Trying f,
     if 0 < sint f
     then Survived f (of_nat (min m (unat f))) 0 (of_bool (0 < m)) (if unat f \<le> m then 0 else 0x10)
     else Survived f (of_nat m) 0 (of_bool (0 < m)) 0x10]"

lemma rung_result:
  assumes "copies_in H" "rung_ready e cnp k" "current_thread e \<noteq> 0" "m < 2 ^ 32"
  shows "\<exists>k'. ladder_rung (lookup_dispatches e cred dvp dlabel cnp) H f m k = Some (rung_report f m, k') \<and>
    rung_ready e cnp k' \<and> sebsd_unsafe_enabled k' = 1"
proof -
  let ?k = "ladder_arm H f k"
  note a = armed_state [OF assms(1,2), of f]
  have r: "sebsd_lookup_owner ?k = 0" "trace_ok e (sebsd_trace_enabled ?k) cnp"
    "sebsd_ops ?k mpo_vnode_check_lookup \<noteq> None" "unat (sebsd_lookup_count ?k) + m < 2 ^ 32"
    using a assms(4) by (simp_all add: rung_ready_def)
  have "\<exists>k'. lookup_dispatches e cred dvp dlabel cnp m ?k = Some k' \<and> same_switches ?k k' \<and>
      sebsd_lookup_count k' = of_nat (if 0 < sint f then min m (unat f) else m) \<and>
      sebsd_hooks_enabled k' = (if 0 < sint f \<and> unat f \<le> m then 0 else 0x10)"
  proof (cases "0 < sint f")
    case True
    then have "landing ?k = unat f" by (auto simp: landing_def a max_def unat_eq_zero Suc_le_eq)
    then show ?thesis
      using dispatches_result [OF r(1) assms(3) r(2,3) _ r(4), of cred dvp dlabel] True
      by (auto simp: a disarmed_def still_armed_def hook_bits not_less)
  next
    case False
    then show ?thesis
      using dispatches_no_fuse [OF r(1) assms(3) r(2,3), of cred dvp dlabel m]
      by (auto simp: a still_armed_def)
  qed
  then obtain k' where k': "lookup_dispatches e cred dvp dlabel cnp m ?k = Some k'" "same_switches ?k k'"
    "sebsd_lookup_count k' = of_nat (if 0 < sint f then min m (unat f) else m)"
    "sebsd_hooks_enabled k' = (if 0 < sint f \<and> unat f \<le> m then 0 else 0x10)" by blast
  have "sebsd_lookup_maxdepth k' = of_bool (0 < m)"
    by (rule dispatches_maxdepth [OF k'(1) a(1) assms(3) a(4) r(3,4)])
  moreover have "sebsd_lookup_recursed k' = 0" "sebsd_unsafe_enabled k' = 1" "rung_ready e cnp k'"
    using k'(2) a by (simp_all add: same_switches_def rung_ready_def)
  ultimately show ?thesis using k'
    by (simp add: ladder_rung_def rung_report_def sysctl_n_def oid_defs)
qed

lemma rungs_result:
  assumes "copies_in H" "current_thread e \<noteq> 0" "list_all (\<lambda>(f, m). m < 2 ^ 32) rs" "rung_ready e cnp k"
  shows "\<exists>k'. ladder_rungs (lookup_dispatches e cred dvp dlabel cnp) H rs k =
      Some (concat (map (\<lambda>(f, m). rung_report f m) rs), k') \<and>
    rung_ready e cnp k' \<and> (rs \<noteq> [] \<longrightarrow> sebsd_unsafe_enabled k' = 1)"
  using assms(3,4)
proof (induction rs arbitrary: k)
  case (Cons r rs)
  obtain f m where r: "r = (f, m)" by (cases r)
  then have m: "m < 2 ^ 32" "list_all (\<lambda>(f, m). m < 2 ^ 32) rs" using Cons.prems(1) by simp_all
  obtain k1 where "ladder_rung (lookup_dispatches e cred dvp dlabel cnp) H f m k = Some (rung_report f m, k1)"
    "rung_ready e cnp k1" "sebsd_unsafe_enabled k1 = 1"
    using rung_result [OF assms(1) Cons.prems(2) assms(2) m(1), of cred dvp dlabel f] by blast
  then show ?case using Cons.IH [OF m(2), of k1] by (cases "rs = []") (auto simp: r)
qed simp

section \<open>Properties\<close>

text \<open>
  C10. What the ladder logs, if the hook is dispatched \<open>m\<close> times on the rung of fuse \<open>f\<close>, one after the other,
  while the script sleeps: it runs to its end and every rung reports a count of \<open>f\<close> and an empty mask if
  \<open>m\<close> reaches \<open>f\<close>, and otherwise \<open>m\<close> and a hook still installed, which the next rung finds armed; never a
  re-entry, and a depth of 1 once a dispatch landed. It leaves \<open>unsafe\<close> set.
\<close>

theorem ladder_reports:
  assumes "copies_in H" "sebsd_sysctl_hooks \<in> set (k_tree k)" "sebsd_lookup_owner k = 0"
    "sebsd_lookup_depth k = 0" "current_thread e \<noteq> 0" "trace_ok e (sebsd_trace_enabled k) cnp"
    "fs \<noteq> []" "length ms = length fs" "list_all (\<lambda>m. m < 2 ^ 32) ms"
  shows "\<exists>k'. sedarwin_fuse_ladder (lookup_dispatches e cred dvp dlabel cnp) H 0 fs ms k =
      Some (0, [Ladder_start] @ concat (map (\<lambda>(f, m). rung_report f m) (zip fs ms)) @ [Ladder_finished], k') \<and>
    sebsd_unsafe_enabled k' = 1"
proof -
  have ok: "list_all (\<lambda>(f, m). m < 2 ^ 32) (zip fs ms)"
    using assms(9) by (auto simp: list_all_iff dest: set_zip_rightD)
  have "rung_ready e cnp k" using assms by (simp add: rung_ready_def)
  from rungs_result [OF assms(1,5) ok this, of cred dvp dlabel] assms(2,7,8) show ?thesis
    by (auto simp: sedarwin_fuse_ladder_def zip_eq_Nil_iff)
qed

text \<open>Ten and three dispatches under fuses of 4 and 8: the second rung leaves the hook installed.\<close>

theorem ladder_reports_witness:
  "\<exists>k'. sedarwin_fuse_ladder (lookup_dispatches lab 501 0 0 None) user_int 0 [4, 8] [10, 3] started =
    Some (0, [Ladder_start, Trying 4, Survived 4 4 0 1 0, Trying 8, Survived 8 3 0 1 0x10, Ladder_finished], k')"
proof -
  have "sebsd_sysctl_hooks \<in> set (k_tree started)" "sebsd_lookup_owner started = 0"
    "sebsd_lookup_depth started = 0" "current_thread lab \<noteq> 0" "trace_ok lab (sebsd_trace_enabled started) None"
    using started_fields(2) oids_registered(1)
    by (simp_all add: started_def sebsd_mac_policy_register_def Let_def kext_data_def tree_simps emit_def
        lab_def trace_ok_def)
  from ladder_reports [OF user_int_copies this, of "[4, 8]" "[10, 3]" 501 0 0] show ?thesis
    by (auto simp: rung_report_def)
qed

end
