(* ===== verification/Loader.thy ===== *)
theory Loader imports Policy_Life "HOL-Library.Sublist" begin

text \<open>
  The boot-time loader \<open>tools/sedarwin-load\<close>: the script over a machine it only sees through commands
  (\<open>kmutil\<close>, \<open>sysctl\<close>, \<open>test\<close>, \<open>sleep\<close>; record \<open>host\<close>), and what it says of the module when the machine
  is one that runs \<open>main.c\<close> (locale \<open>module_host\<close>, with the instance \<open>machine_host\<close>).
\<close>

section \<open>The commands\<close>

text \<open>
  On a machine in some state: \<open>test -e\<close> and \<open>test -d\<close> of a path; what \<open>kmutil showloaded\<close> prints; what
  \<open>kmutil load -p\<close> prints; a second of sleep; \<open>sysctl -n\<close>, \<open>None\<close> if it fails.
\<close>

record 'w host =
  h_exists :: "string \<Rightarrow> 'w \<Rightarrow> bool"
  h_is_dir :: "string \<Rightarrow> 'w \<Rightarrow> bool"
  h_showloaded :: "'w \<Rightarrow> string \<times> 'w"
  h_load :: "string \<Rightarrow> 'w \<Rightarrow> string \<times> 'w"
  h_sleep :: "'w \<Rightarrow> 'w"
  h_sysctl :: "string \<Rightarrow> 'w \<Rightarrow> string option \<times> 'w"

definition ARM_FLAG :: string where "ARM_FLAG = ''/var/db/sedarwin.enabled''"
definition KEXT :: string where "KEXT = ''/Library/Extensions/sedarwin.kext''"
definition BUNDLE_ID :: string where "BUNDLE_ID = ''com.beako.security.sedarwin''"
definition TRIES :: nat where "TRIES = 30"

text \<open>\<open>grep -q\<close> for a pattern of characters and dots; a dot stands for any character of a line.\<close>

definition grep_q :: "string \<Rightarrow> string \<Rightarrow> bool" where
  "grep_q pat txt = list_ex (\<lambda>s. length pat \<le> length s \<and>
     list_all2 (\<lambda>p c. p = c \<or> p = CHR ''.'' \<and> c \<noteq> CHR 0x0A) pat (take (length pat) s)) (suffixes txt)"

text \<open>\<open>$(...)\<close>: the output without the newlines at its end.\<close>

definition command_subst :: "string \<Rightarrow> string" where
  "command_subst out = rev (dropWhile (\<lambda>c. c = CHR 0x0A) (rev out))"

section \<open>The script\<close>

text \<open>Its messages; the fixed text that follows them in the source is left out.\<close>

datatype load_line =
    Disarmed | Not_installed | Loading nat | Kmutil_load string | Not_approved | Gave_up
  | Loaded | Policy_registered string string | No_hooks_yet | Sysctl_absent

definition kext_loaded :: "'w host \<Rightarrow> 'w \<Rightarrow> bool \<times> 'w" where
  "kext_loaded H w = (let (out, w) = h_showloaded H w in (grep_q BUNDLE_ID out, w))"

definition not_approved :: "string \<Rightarrow> bool" where
  "not_approved out \<longleftrightarrow> sublist ''not approved'' out \<or> sublist ''approve using System Settings'' out"

text \<open>
  One turn of the loop, in which attempt \<open>i + 1\<close> is made: it breaks, it exits with 1, or it goes on; what
  it logged; the machine.
\<close>

datatype turn = Break | Exit | Again

definition load_turn :: "'w host \<Rightarrow> nat \<Rightarrow> 'w \<Rightarrow> turn \<times> load_line list \<times> 'w" where
  "load_turn H i w =
     (let (up, w) = kext_loaded H w
      in if up then (Break, [], w)
         else
           (let (out, w) = h_load H KEXT w;
                out = command_subst out;
                ls = Loading (i + 1) # (if out \<noteq> [] then [Kmutil_load out] else [])
            in if not_approved out then (Exit, ls @ [Not_approved], w)
               else
                 (let (up, w) = kext_loaded H w
                  in if up then (Break, ls, w) else (Again, ls, h_sleep H w))))"

text \<open>The loop from \<open>i\<close> on, and whether it ended at \<open>exit 1\<close>.\<close>

function load_loop :: "'w host \<Rightarrow> nat \<Rightarrow> 'w \<Rightarrow> bool \<times> load_line list \<times> 'w" where
  "load_loop H i w =
     (if i < TRIES then
        (case load_turn H i w of
           (Break, ls, w) \<Rightarrow> (False, ls, w)
         | (Exit, ls, w) \<Rightarrow> (True, ls, w)
         | (Again, ls, w) \<Rightarrow> (let (x, ls', w) = load_loop H (i + 1) w in (x, ls @ ls', w)))
      else (False, [], w))"
  by pat_completeness auto
termination by (relation "measure (\<lambda>(H, i, w). TRIES - i)") auto

declare load_loop.simps [simp del]

definition sysctl_value :: "'w host \<Rightarrow> string \<Rightarrow> 'w \<Rightarrow> string \<times> 'w" where
  "sysctl_value H name w =
     (let (v, w) = h_sysctl H name w in (case v of Some s \<Rightarrow> command_subst s | None \<Rightarrow> [], w))"

definition load_report :: "'w host \<Rightarrow> 'w \<Rightarrow> int \<times> load_line list \<times> 'w" where
  "load_report H w =
     (let (r, w) = h_sysctl H ''sedarwin.hooks'' w
      in if r \<noteq> None then
           (let (hooks, w) = sysctl_value H ''sedarwin.hooks'' w;
                (trace, w) = sysctl_value H ''sedarwin.trace'' w
            in (0, [Loaded, Policy_registered hooks trace, No_hooks_yet], w))
         else (1, [Loaded, Sysctl_absent], w))"

text \<open>The script with its arguments: exit status, messages, machine.\<close>

definition sedarwin_load :: "'w host \<Rightarrow> string list \<Rightarrow> 'w \<Rightarrow> int \<times> load_line list \<times> 'w" where
  "sedarwin_load H args w =
     (let force = (args \<noteq> [] \<and> hd args = ''--force'')
      in if \<not> force \<and> \<not> h_exists H ARM_FLAG w then (0, [Disarmed], w)
         else if \<not> h_is_dir H KEXT w then (1, [Not_installed], w)
         else
           (let (refused, ls, w) = load_loop H 0 w
            in if refused then (1, ls, w)
               else
                 (let (up, w) = kext_loaded H w
                  in if \<not> up then (1, ls @ [Gave_up], w)
                     else (let (e, ls', w) = load_report H w in (e, ls @ ls', w)))))"

section \<open>The loop\<close>

text \<open>The numbers of the attempts among the messages.\<close>

fun attempts :: "load_line list \<Rightarrow> nat list" where
  "attempts [] = []"
| "attempts (Loading n # ls) = n # attempts ls"
| "attempts (_ # ls) = attempts ls"

lemma attempts_append [simp]: "attempts (ls @ ls') = attempts ls @ attempts ls'"
  by (induction ls rule: attempts.induct) auto

definition load_lines :: "load_line set" where
  "load_lines = range Loading \<union> range Kmutil_load \<union> {Not_approved}"

lemma turn_lines:
  assumes "load_turn H i w = (r, ls, w')"
  shows "set ls \<subseteq> load_lines" "attempts ls = (if ls = [] then [] else [i + 1])"
    "r = Exit \<Longrightarrow> ls \<noteq> [] \<and> last ls = Not_approved" "r = Again \<Longrightarrow> ls \<noteq> []"
  using assms by (auto simp: load_turn_def load_lines_def Let_def split: prod.splits if_splits)

text \<open>A run of the loop from \<open>i\<close> on, whatever the machine does.\<close>

lemma loop_lines:
  "load_loop H i w = (x, ls, w') \<Longrightarrow> i \<le> TRIES \<Longrightarrow>
    set ls \<subseteq> load_lines \<and> (\<exists>n. i + n \<le> TRIES \<and> attempts ls = [i + 1..<i + 1 + n]) \<and>
    (x \<longrightarrow> ls \<noteq> [] \<and> last ls = Not_approved)"
proof (induction H i w arbitrary: x ls w' rule: load_loop.induct)
  case (1 H i w)
  show ?case
  proof (cases "i < TRIES")
    case False
    then show ?thesis using "1.prems" by (auto simp: load_loop.simps intro: exI [of _ 0])
  next
    case True
    obtain r l1 w1 where t: "load_turn H i w = (r, l1, w1)" by (cases "load_turn H i w") auto
    note tl = turn_lines [OF t]
    show ?thesis
    proof (cases r)
      case Again
      obtain y l2 w2 where l: "load_loop H (i + 1) w1 = (y, l2, w2)" by (cases "load_loop H (i + 1) w1") auto
      have e: "x = y" "ls = l1 @ l2" using "1.prems"(1) True t Again l by (auto simp: load_loop.simps [of H i w])
      obtain n where n: "set l2 \<subseteq> load_lines" "i + 1 + n \<le> TRIES" "attempts l2 = [i + 1 + 1..<i + 1 + 1 + n]"
          "y \<longrightarrow> l2 \<noteq> [] \<and> last l2 = Not_approved"
        using "1.IH" [OF True t [symmetric] Again refl l] True by auto
      have "attempts ls = [i + 1..<i + 1 + Suc n]" using e n(3) tl(2,4) Again by (simp add: upt_rec [of "Suc i"])
      then show ?thesis using n(1,2,4) tl(1) e by (auto intro!: exI [of _ "Suc n"])
    qed (use "1.prems"(1) True t tl in \<open>auto simp: load_loop.simps intro: exI [of _ 0] exI [of _ 1]\<close>)
  qed
qed

section \<open>A machine that runs the module\<close>

text \<open>
  \<open>kx\<close> is the module in the machine. \<open>kmutil showloaded\<close> lists it if it is loaded; \<open>kmutil load\<close> does nothing to it, or
  starts it on fresh data and unloads it again if \<open>_start\<close> fails; \<open>sysctl\<close> finds what is in the tree;
  during a sleep others may use the module.
\<close>

locale module_host =
  fixes H :: "'w host" and kx :: "'w \<Rightarrow> kext"
  assumes showloaded: "h_showloaded H w = (out, w') \<Longrightarrow> kx w' = kx w \<and> grep_q BUNDLE_ID out = k_loaded (kx w)"
    and load: "h_load H path w = (out, w') \<Longrightarrow> kx w' = kx w \<or>
      \<not> k_loaded (kx w) \<and> (\<exists>error handle r k. sebsd_mac_policy_register error handle kext_data = (r, k) \<and>
        kx w' = (if r = KERN_SUCCESS then k else k\<lparr>k_loaded := False\<rparr>))"
    and sleep: "kext_inv (kx w) \<Longrightarrow> kext_inv (kx (h_sleep H w))"
    and sysctl: "h_sysctl H name w = (v, w') \<Longrightarrow> kx w' = kx w \<and>
      (name = ''sedarwin.hooks'' \<longrightarrow> (v \<noteq> None \<longleftrightarrow> sebsd_sysctl_hooks \<in> set (k_tree (kx w))))"
begin

lemma loaded: "kext_loaded H w = (up, w') \<Longrightarrow> kx w' = kx w \<and> up = k_loaded (kx w)"
  using showloaded by (auto simp: kext_loaded_def split: prod.splits)

lemma load_inv: "h_load H path w = (out, w') \<Longrightarrow> kext_inv (kx w) \<Longrightarrow> kext_inv (kx w')"
proof -
  assume l: "h_load H path w = (out, w')" and inv: "kext_inv (kx w)"
  have st: "kext_inv (if r = KERN_SUCCESS then k else k\<lparr>k_loaded := False\<rparr>)"
    if reg: "sebsd_mac_policy_register error handle kext_data = (r, k)" for error handle r k
  proof (cases "error = 0")
    case True
    then have "r = KERN_SUCCESS" using register_result [OF reg] by simp
    then show ?thesis using kext_reach_inv [OF kext_reach.start_ok [OF reg [unfolded \<open>r = _\<close>]]] by simp
  next
    case False
    then have "r = KERN_FAILURE" using register_result [OF reg] by simp
    then show ?thesis using kext_reach_inv [OF kext_reach.start_failed [OF reg [unfolded \<open>r = _\<close>]]] by simp
  qed
  from load [OF l] show ?thesis
  proof (elim disjE conjE exE)
    fix error handle r k
    assume "sebsd_mac_policy_register error handle kext_data = (r, k)"
      "kx w' = (if r = KERN_SUCCESS then k else k\<lparr>k_loaded := False\<rparr>)"
    then show ?thesis using st by simp
  qed (use inv in simp)
qed

lemma turn_inv: "load_turn H i w = (r, ls, w') \<Longrightarrow> kext_inv (kx w) \<Longrightarrow> kext_inv (kx w')"
proof -
  assume t: "load_turn H i w = (r, ls, w')" and inv: "kext_inv (kx w)"
  obtain up w1 where 1: "kext_loaded H w = (up, w1)" by (cases "kext_loaded H w")
  obtain out w2 where 2: "h_load H KEXT w1 = (out, w2)" by (cases "h_load H KEXT w1")
  obtain up' w3 where 3: "kext_loaded H w2 = (up', w3)" by (cases "kext_loaded H w2")
  have "kext_inv (kx w1)" using loaded [OF 1] inv by simp
  moreover from this have "kext_inv (kx w2)" using load_inv [OF 2] by simp
  moreover from this have "kext_inv (kx w3)" using loaded [OF 3] by simp
  moreover from this have "kext_inv (kx (h_sleep H w3))" by (rule sleep)
  moreover have "w' \<in> {w1, w2, w3, h_sleep H w3}"
    using t by (simp add: load_turn_def Let_def 1 2 3 split: if_splits)
  ultimately show ?thesis by auto
qed

lemma loop_inv: "load_loop H i w = (x, ls, w') \<Longrightarrow> kext_inv (kx w) \<Longrightarrow> kext_inv (kx w')"
proof (induction "TRIES - i" arbitrary: i w x ls w' rule: less_induct)
  case less
  obtain r l1 w1 where t: "load_turn H i w = (r, l1, w1)" by (cases "load_turn H i w") auto
  have inv: "kext_inv (kx w1)" using turn_inv [OF t less.prems(2)] .
  show ?case
  proof (cases "i < TRIES \<and> r = Again")
    case True
    obtain y l2 w2 where l: "load_loop H (i + 1) w1 = (y, l2, w2)" by (cases "load_loop H (i + 1) w1") auto
    have "w' = w2" using less.prems(1) True t l by (simp add: load_loop.simps [of H i w])
    moreover have "TRIES - (i + 1) < TRIES - i" using True by (intro diff_less_mono2) simp_all
    ultimately show ?thesis using less.hyps [OF _ l inv] by simp
  next
    case False
    then show ?thesis using less.prems inv t
      by (cases r) (auto simp: load_loop.simps [of H i w] split: if_splits)
  qed
qed

lemma report_loaded:
  assumes "load_report H w = (e, ls, w')" "kext_inv (kx w)" "k_loaded (kx w)"
  shows "e = 0 \<and> kx w' = kx w \<and> (\<exists>h t. ls = [Loaded, Policy_registered h t, No_hooks_yet])"
proof -
  have tree: "sebsd_sysctl_hooks \<in> set (k_tree (kx w))"
    using assms(2,3) by (simp add: kext_inv_def register_order_def)
  obtain v1 w1 where 1: "h_sysctl H ''sedarwin.hooks'' w = (v1, w1)" by (cases "h_sysctl H ''sedarwin.hooks'' w")
  obtain v2 w2 where 2: "h_sysctl H ''sedarwin.hooks'' w1 = (v2, w2)" by (cases "h_sysctl H ''sedarwin.hooks'' w1")
  obtain v3 w3 where 3: "h_sysctl H ''sedarwin.trace'' w2 = (v3, w3)" by (cases "h_sysctl H ''sedarwin.trace'' w2")
  show ?thesis using assms(1) tree sysctl [OF 1] sysctl [OF 2] sysctl [OF 3]
    by (auto simp: load_report_def sysctl_value_def 1 2 3)
qed

lemma load_outcome:
  assumes run: "sedarwin_load H args w = (e, ls, w')" and inv: "kext_inv (kx w)"
  shows "kext_inv (kx w') \<and> (\<exists>n \<le> TRIES. attempts ls = [1..<n + 1]) \<and> Sysctl_absent \<notin> set ls \<and>
    (e = 0 \<and> ls = [Disarmed] \<and> w' = w \<or>
     e = 0 \<and> k_loaded (kx w') \<and> (\<exists>l0 h t. ls = l0 @ [Loaded, Policy_registered h t, No_hooks_yet]) \<or>
     e = 1 \<and> last ls \<in> {Not_installed, Not_approved} \<or>
     e = 1 \<and> last ls = Gave_up \<and> \<not> k_loaded (kx w'))"
proof -
  let ?off = "\<not> (args \<noteq> [] \<and> hd args = ''--force'') \<and> \<not> h_exists H ARM_FLAG w"
  consider (disarmed) ?off | (missing) "\<not> ?off" "\<not> h_is_dir H KEXT w" | (ran) "\<not> ?off" "h_is_dir H KEXT w" by blast
  then show ?thesis
  proof cases
    case disarmed
    then have "e = 0 \<and> ls = [Disarmed] \<and> w' = w" using run unfolding sedarwin_load_def Let_def by simp
    then show ?thesis using inv by auto
  next
    case missing
    then have "e = 1 \<and> ls = [Not_installed] \<and> w' = w"
      using run unfolding sedarwin_load_def Let_def by (simp only: if_False if_True simp_thms prod.inject)
    then show ?thesis using inv by auto
  next
    case ran
    obtain x l1 w1 where loop: "load_loop H 0 w = (x, l1, w1)" by (cases "load_loop H 0 w") auto
    obtain n where l: "n \<le> TRIES" "attempts l1 = [1..<n + 1]" "x \<longrightarrow> l1 \<noteq> [] \<and> last l1 = Not_approved"
      and "set l1 \<subseteq> load_lines" using loop_lines [OF loop] by auto
    then have absent: "Sysctl_absent \<notin> set l1" by (auto simp: load_lines_def)
    have inv1: "kext_inv (kx w1)" using loop_inv [OF loop inv] .
    obtain up w2 where 2: "kext_loaded H w1 = (up, w2)" by (cases "kext_loaded H w1")
    obtain e3 l3 w3 where 3: "load_report H w2 = (e3, l3, w3)" by (cases "load_report H w2") auto
    have res: "(e, ls, w') = (if x then (1, l1, w1) else if \<not> up then (1, l1 @ [Gave_up], w2) else (e3, l1 @ l3, w3))"
      using run ran unfolding sedarwin_load_def Let_def loop 2 prod.case
      by (simp only: if_False if_True simp_thms prod.case 2 3 split: if_split)
    have w2: "kx w2 = kx w1" "up = k_loaded (kx w1)" using loaded [OF 2] by simp_all
    consider (refused) x "e = 1" "ls = l1" "w' = w1" | (gave_up) "\<not> up" "e = 1" "ls = l1 @ [Gave_up]" "w' = w2"
      | (up) up "e = e3" "ls = l1 @ l3" "w' = w3" using res by (auto split: if_splits)
    then show ?thesis
    proof cases
      case up
      obtain h t where r: "e3 = 0" "kx w3 = kx w2" "l3 = [Loaded, Policy_registered h t, No_hooks_yet]"
        using report_loaded [OF 3] inv1 w2 up(1) by auto
      have "attempts ls = [1..<n + 1]" "Sysctl_absent \<notin> set ls" using up(3) r(3) l(2) absent by simp_all
      moreover have "k_loaded (kx w')" "kext_inv (kx w')" using up(1,4) r(2) w2 inv1 by simp_all
      moreover have "\<exists>l0 h t. ls = l0 @ [Loaded, Policy_registered h t, No_hooks_yet]" using up(3) r(3) by blast
      ultimately show ?thesis using l(1) up(2) r(1) by blast
    next
      case gave_up
      then have "attempts ls = [1..<n + 1]" "last ls = Gave_up" "Sysctl_absent \<notin> set ls" using l(2) absent by simp_all
      moreover have "kext_inv (kx w')" "\<not> k_loaded (kx w')" using w2 inv1 gave_up by simp_all
      ultimately show ?thesis using l(1) gave_up(2) by blast
    next
      case refused
      then have "last ls = Not_approved" using l(3) by simp
      then show ?thesis using l(1,2) refused inv1 absent by blast
    qed
  qed
qed

end

section \<open>An instance\<close>

text \<open>A decimal number, as \<open>sysctl\<close> prints it.\<close>

fun decimal :: "nat \<Rightarrow> string" where
  "decimal n = (if n < 10 then [] else decimal (n div 10)) @ [''0123456789'' ! (n mod 10)]"

text \<open>The module, whether the flag and the bundle are there, approval, what \<open>mac_policy_register\<close> answers.\<close>

record machine =
  m_kext :: kext
  m_armed :: bool
  m_installed :: bool
  m_approved :: bool
  m_error :: cint

definition machine_load :: "machine \<Rightarrow> string \<times> machine" where
  "machine_load m =
     (if \<not> m_approved m then (''the extension is not approved to load'', m)
      else if k_loaded (m_kext m) then ([], m)
      else
        (let (r, k) = sebsd_mac_policy_register (m_error m) 1 kext_data
         in if r = KERN_SUCCESS then ([], m\<lparr>m_kext := k\<rparr>)
            else (''the extension failed to start'', m\<lparr>m_kext := k\<lparr>k_loaded := False\<rparr>\<rparr>)))"

definition machine_host :: "machine host" where
  "machine_host =
     \<lparr>h_exists = (\<lambda>p m. p = ARM_FLAG \<and> m_armed m), h_is_dir = (\<lambda>p m. p = KEXT \<and> m_installed m),
      h_showloaded = (\<lambda>m. (if k_loaded (m_kext m) then BUNDLE_ID @ [CHR 0x0A] else [], m)),
      h_load = (\<lambda>_. machine_load), h_sleep = (\<lambda>m. m),
      h_sysctl = (\<lambda>name m.
        (if sebsd_sysctl_hooks \<notin> set (k_tree (m_kext m)) then None
         else if name = ''sedarwin.hooks'' then Some (decimal (unat (sebsd_hooks_enabled (m_kext m))))
         else if name = ''sedarwin.trace'' then Some (decimal (unat (sebsd_trace_enabled (m_kext m))))
         else None, m))\<rparr>"

lemma grep_listed: "grep_q BUNDLE_ID (BUNDLE_ID @ [CHR 0x0A])" "\<not> grep_q BUNDLE_ID []"
  by (simp_all add: grep_q_def BUNDLE_ID_def)

interpretation machine: module_host machine_host m_kext
  by unfold_locales
    (auto simp: machine_host_def machine_load_def grep_listed split: prod.splits if_splits)

section \<open>Properties\<close>

text \<open>
  C12. The loader against the module: on every machine that keeps the contract, whatever others do while
  it sleeps, it makes at most 30 attempts, numbered from 1, and never meets the case it warns of, a
  loaded module without its sysctls. It exits with 0 if it is disarmed, having done nothing, or if the
  module is loaded, registered with the framework, and all its oids are linked; and with 1 if the bundle is
  missing, it was not approved, or the module is not loaded.
\<close>

theorem sedarwin_load_outcome:
  assumes "module_host H kx" "kext_inv (kx w)" "sedarwin_load H args w = (e, ls, w')"
  shows "(\<exists>n \<le> 30. attempts ls = [1..<n + 1]) \<and> Sysctl_absent \<notin> set ls \<and>
    (e = 0 \<and> ls = [Disarmed] \<and> w' = w \<or>
     e = 0 \<and> k_loaded (kx w') \<and> k_policy (kx w') \<and> k_tree (kx w') = register_order \<and>
       (\<exists>l0 h t. ls = l0 @ [Loaded, Policy_registered h t, No_hooks_yet]) \<or>
     e = 1 \<and> last ls \<in> {Not_installed, Not_approved} \<or>
     e = 1 \<and> last ls = Gave_up \<and> \<not> k_loaded (kx w'))"
  using module_host.load_outcome [OF assms(1,3,2)] by (auto simp: kext_inv_def TRIES_def)

text \<open>
  A fresh machine that loads the module at the first attempt. And one where it was loaded and the hook of
  \<open>vnode_check_open\<close> installed before: the loader says that no check hooks are installed yet.
\<close>

definition machine_with :: "kext \<Rightarrow> machine" where
  "machine_with k = \<lparr>m_kext = k, m_armed = False, m_installed = True, m_approved = True, m_error = 0\<rparr>"

lemma not_loaded_inv: "kext_inv (kext_data\<lparr>k_loaded := False\<rparr>)"
  by (simp add: kext_inv_def kext_data_def mask_covers_def list_all_iff SEBSD_HOOK_DEFAULT_def)

lemma load_present:
  assumes "k_loaded k" "sebsd_sysctl_hooks \<in> set (k_tree k)"
  shows "sedarwin_load machine_host [''--force''] (machine_with k) =
    (0, [Loaded, Policy_registered (command_subst (decimal (unat (sebsd_hooks_enabled k))))
       (command_subst (decimal (unat (sebsd_trace_enabled k)))), No_hooks_yet], machine_with k)"
proof -
  have up: "kext_loaded machine_host (machine_with k) = (True, machine_with k)"
    using assms(1) grep_listed(1) by (simp add: kext_loaded_def machine_host_def machine_with_def)
  then have "load_loop machine_host 0 (machine_with k) = (False, [], machine_with k)"
    by (simp add: load_loop.simps [of _ 0] load_turn_def TRIES_def)
  moreover have "h_is_dir machine_host KEXT (machine_with k)" by (simp add: machine_host_def machine_with_def)
  moreover have "load_report machine_host (machine_with k) =
      (0, [Loaded, Policy_registered (command_subst (decimal (unat (sebsd_hooks_enabled k))))
         (command_subst (decimal (unat (sebsd_trace_enabled k)))), No_hooks_yet], machine_with k)"
    using assms(2) by (simp add: load_report_def sysctl_value_def machine_host_def machine_with_def del: decimal.simps)
  ultimately show ?thesis using up by (simp add: sedarwin_load_def del: decimal.simps)
qed

definition fresh_start :: kext where
  "fresh_start = snd (sebsd_mac_policy_register 0 1 kext_data)"

lemma fresh_start: "sebsd_mac_policy_register 0 1 kext_data = (KERN_SUCCESS, fresh_start)"
  "k_loaded fresh_start" "sebsd_sysctl_hooks \<in> set (k_tree fresh_start)" "sebsd_hooks_enabled fresh_start = 0"
  "sebsd_trace_enabled fresh_start = 0"
proof -
  show 1: "sebsd_mac_policy_register 0 1 kext_data = (KERN_SUCCESS, fresh_start)"
    using register_result [of 0 1 "fst (sebsd_mac_policy_register 0 1 kext_data)" fresh_start]
    by (simp add: fresh_start_def prod_eq_iff)
  show "k_loaded fresh_start" "sebsd_sysctl_hooks \<in> set (k_tree fresh_start)" "sebsd_hooks_enabled fresh_start = 0"
    using register_result [OF 1] oids_registered(1) by simp_all
  show "sebsd_trace_enabled fresh_start = 0"
    by (simp add: fresh_start_def sebsd_mac_policy_register_def Let_def tree_simps emit_def kext_data_def)
qed

lemma load_fresh:
  "sedarwin_load machine_host [''--force''] (machine_with (kext_data\<lparr>k_loaded := False\<rparr>)) =
    (0, [Loading 1, Loaded, Policy_registered ''0'' ''0'', No_hooks_yet], machine_with fresh_start)"
proof -
  let ?m = "machine_with (kext_data\<lparr>k_loaded := False\<rparr>)"
  let ?m' = "machine_with fresh_start"
  have up: "kext_loaded machine_host ?m = (False, ?m)" "kext_loaded machine_host ?m' = (True, ?m')"
    using grep_listed fresh_start(2) by (simp_all add: kext_loaded_def machine_host_def machine_with_def)
  have ld: "h_load machine_host KEXT ?m = ([], ?m')"
    by (simp add: machine_host_def machine_load_def machine_with_def fresh_start(1))
  have "load_turn machine_host 0 ?m = (Break, [Loading 1], ?m')"
    by (simp add: load_turn_def up ld command_subst_def not_approved_def)
  then have "load_loop machine_host 0 ?m = (False, [Loading 1], ?m')"
    by (simp add: load_loop.simps [of _ 0] TRIES_def)
  moreover have "h_is_dir machine_host KEXT ?m" by (simp add: machine_host_def machine_with_def)
  moreover have "load_report machine_host ?m' = (0, [Loaded, Policy_registered ''0'' ''0'', No_hooks_yet], ?m')"
    using fresh_start(3-5)
    by (simp add: load_report_def sysctl_value_def machine_host_def machine_with_def command_subst_def)
  ultimately show ?thesis using up by (simp add: sedarwin_load_def)
qed

theorem sedarwin_load_outcome_witness:
  "(\<exists>m. sedarwin_load machine_host [''--force''] (machine_with (kext_data\<lparr>k_loaded := False\<rparr>)) =
     (0, [Loading 1, Loaded, Policy_registered ''0'' ''0'', No_hooks_yet], m) \<and> k_policy (m_kext m)) \<and>
   (\<exists>m. sedarwin_load machine_host [''--force''] (machine_with (wrote sebsd_sysctl_hooks 1 started)) =
     (0, [Loaded, Policy_registered ''1'' ''0'', No_hooks_yet], m) \<and>
      sebsd_ops (m_kext m) mpo_vnode_check_open = Some F_vnode_check_open)"
proof
  have "kext_inv (m_kext (machine_with (kext_data\<lparr>k_loaded := False\<rparr>)))"
    using not_loaded_inv by (simp add: machine_with_def)
  from sedarwin_load_outcome [OF machine.module_host_axioms this load_fresh]
  show "\<exists>m. sedarwin_load machine_host [''--force''] (machine_with (kext_data\<lparr>k_loaded := False\<rparr>)) =
     (0, [Loading 1, Loaded, Policy_registered ''0'' ''0'', No_hooks_yet], m) \<and> k_policy (m_kext m)"
    using load_fresh by auto
next
  let ?k = "wrote sebsd_sysctl_hooks 1 started"
  have h: "sebsd_sysctl_hooks_handler user_int (wr 1) started =
      (0, emit (sebsd_log ''hooks now 0x%x'' [A_int 1])
        (started\<lparr>sebsd_hooks_enabled := 1, sebsd_ops := sebsd_install_hooks (sebsd_ops started) 1\<rparr>))"
    unfolding sebsd_sysctl_hooks_handler_def hook_all_value(2)
    by (simp add: user_int_def wr_def Let_def SEBSD_HOOK_UNSAFE_def hook_bits)
  have t: "sebsd_trace_enabled started = 0"
    by (simp add: started_def sebsd_mac_policy_register_def Let_def tree_simps emit_def kext_data_def)
  have k: "?k = emit (sebsd_log ''hooks now 0x%x'' [A_int 1])
        (started\<lparr>sebsd_hooks_enabled := 1, sebsd_ops := sebsd_install_hooks (sebsd_ops started) 1\<rparr>)"
    by (simp add: wrote_def sysctl_call_def sebsd_sysctl_hooks_def h)
  have "sebsd_trace_enabled ?k = 0" "sebsd_hooks_enabled ?k = 1" "k_loaded ?k"
    "sebsd_sysctl_hooks \<in> set (k_tree ?k)"
    "sebsd_ops ?k mpo_vnode_check_open = Some F_vnode_check_open"
    unfolding k using t started_fields oids_registered(1)
    by (simp_all add: emit_def install_hooks_at masked_def hook_bits)
  then show "\<exists>m. sedarwin_load machine_host [''--force''] (machine_with ?k) =
     (0, [Loaded, Policy_registered ''1'' ''0'', No_hooks_yet], m) \<and>
      sebsd_ops (m_kext m) mpo_vnode_check_open = Some F_vnode_check_open"
    using load_present [of ?k] by (simp add: command_subst_def machine_with_def)
qed

end
