(* ===== verification/MachO.thy ===== *)
theory MachO imports Klog begin

text \<open>
  The Mach-O header parser (\<open>kext/MachO.c\<close>, \<open>struct sebsd_macho_info\<close> of \<open>kernel.h\<close>): the thin and
  fat branches, their loops, and the self-test with its synthetic image. The image is a list of
  bytes with the length the caller claims; a read past the object has no defined result. The
  layouts and constants are those of \<open>mach-o/loader.h\<close> and \<open>mach-o/fat.h\<close>.
\<close>

section \<open>Constants and layouts of the Mach-O headers\<close>

abbreviation (input) MH_MAGIC_64 :: uint32 where "MH_MAGIC_64 \<equiv> 0xfeedfacf"
abbreviation (input) MH_CIGAM_64 :: uint32 where "MH_CIGAM_64 \<equiv> 0xcffaedfe"
abbreviation (input) FAT_MAGIC :: uint32 where "FAT_MAGIC \<equiv> 0xcafebabe"
abbreviation (input) FAT_CIGAM :: uint32 where "FAT_CIGAM \<equiv> 0xbebafeca"
abbreviation (input) LC_CODE_SIGNATURE :: uint32 where "LC_CODE_SIGNATURE \<equiv> 0x1d"
abbreviation (input) CPU_TYPE_ARM64 :: uint32 where "CPU_TYPE_ARM64 \<equiv> 0x0100000c"
abbreviation (input) CPU_SUBTYPE_ARM64E :: uint32 where "CPU_SUBTYPE_ARM64E \<equiv> 2"
abbreviation (input) CPU_SUBTYPE_LIB64 :: uint32 where "CPU_SUBTYPE_LIB64 \<equiv> 0x80000000"
abbreviation (input) CPU_SUBTYPE_MASK :: uint32 where "CPU_SUBTYPE_MASK \<equiv> 0xff000000"
abbreviation (input) MH_EXECUTE :: uint32 where "MH_EXECUTE \<equiv> 2"
abbreviation (input) MH_NOUNDEFS :: uint32 where "MH_NOUNDEFS \<equiv> 1"
abbreviation (input) MH_TWOLEVEL :: uint32 where "MH_TWOLEVEL \<equiv> 0x80"

text \<open>\<open>sizeof\<close> of \<open>mach_header_64\<close>, \<open>load_command\<close>, \<open>fat_header\<close>, \<open>fat_arch\<close>.\<close>

abbreviation (input) sizeof_mach_header_64 :: size_t where "sizeof_mach_header_64 \<equiv> 32"
abbreviation (input) sizeof_load_command :: size_t where "sizeof_load_command \<equiv> 8"
abbreviation (input) sizeof_fat_header :: size_t where "sizeof_fat_header \<equiv> 8"
abbreviation (input) sizeof_fat_arch :: size_t where "sizeof_fat_arch \<equiv> 20"

section \<open>32 bit loads\<close>

definition word_of_bytes :: "byte list \<Rightarrow> uint32" where
  "word_of_bytes b = word_of_int
     (uint (b ! 0) + 256 * uint (b ! 1) + 65536 * uint (b ! 2) + 16777216 * uint (b ! 3))"

definition load32 :: "byte list \<Rightarrow> nat \<Rightarrow> uint32 option" where
  "load32 d off = (if off + 4 \<le> length d then Some (word_of_bytes (take 4 (drop off d))) else None)"

text \<open>The bytes of a word, least significant first; \<open>ntohl\<close> on this target swaps them.\<close>

definition bytes_of_word :: "uint32 \<Rightarrow> byte list" where
  "bytes_of_word w = [word_of_int (uint w), word_of_int (uint w div 256),
     word_of_int (uint w div 65536), word_of_int (uint w div 16777216)]"

definition ntohl :: "uint32 \<Rightarrow> uint32" where
  "ntohl w = word_of_bytes (rev (bytes_of_word w))"

section \<open>The parser\<close>

record sebsd_macho_info =
  m_cputype :: cint
  m_cpusubtype :: cint
  m_ncmds :: cint
  m_fat :: cint
  m_codesign :: cint

text \<open>\<open>for (i = 0; i < mh->ncmds; i++)\<close>: \<open>n\<close> is the number of iterations left.\<close>

fun sebsd_macho_cmds ::
  "byte list \<Rightarrow> size_t \<Rightarrow> nat \<Rightarrow> size_t \<Rightarrow> sebsd_macho_info \<Rightarrow> sebsd_macho_info option" where
  "sebsd_macho_cmds data len 0 off info = Some info"
| "sebsd_macho_cmds data len (Suc n) off info =
     (if off + sizeof_load_command > len then Some info
      else do {
        cmdsize \<leftarrow> load32 data (unat off + 4);
        (if ucast cmdsize < sizeof_load_command \<or> off + ucast cmdsize > len then Some info
         else do {
           cmd \<leftarrow> load32 data (unat off);
           info \<leftarrow> Some (if cmd = LC_CODE_SIGNATURE then info\<lparr>m_codesign := 1\<rparr> else info);
           sebsd_macho_cmds data len n (off + ucast cmdsize) info }) })"

definition sebsd_macho_thin ::
  "byte list \<Rightarrow> size_t \<Rightarrow> sebsd_macho_info \<Rightarrow> (cint \<times> sebsd_macho_info) option" where
  "sebsd_macho_thin data len info =
     (if len < sizeof_mach_header_64 then Some (-1, info)
      else do {
        magic \<leftarrow> load32 data 0;
        (if magic \<noteq> MH_MAGIC_64 \<and> magic \<noteq> MH_CIGAM_64 then Some (-1, info)
         else do {
           cputype \<leftarrow> load32 data 4;
           cpusubtype \<leftarrow> load32 data 8;
           ncmds \<leftarrow> load32 data 16;
           info \<leftarrow> Some (info\<lparr>m_fat := 0, m_cputype := cputype, m_cpusubtype := cpusubtype,
             m_ncmds := ncmds\<rparr>);
           info \<leftarrow> sebsd_macho_cmds data len (unat ncmds) sizeof_mach_header_64 info;
           Some (0, info) }) })"

text \<open>The search for the arm64 slice: \<open>fa[i]\<close> is at \<open>8 + 20 * i\<close>; \<open>n\<close> iterations are left.\<close>

fun sebsd_macho_archs ::
  "byte list \<Rightarrow> nat \<Rightarrow> nat \<Rightarrow> sebsd_macho_info \<Rightarrow> sebsd_macho_info option" where
  "sebsd_macho_archs data 0 i info = Some info"
| "sebsd_macho_archs data (Suc n) i info = do {
     cputype \<leftarrow> load32 data (8 + 20 * i);
     (if cputype = CPU_TYPE_ARM64 then do {
        cpusubtype \<leftarrow> load32 data (8 + 20 * i + 4);
        Some (info\<lparr>m_cputype := cputype, m_cpusubtype := cpusubtype AND NOT CPU_SUBTYPE_MASK\<rparr>) }
      else sebsd_macho_archs data n (Suc i) info) }"

definition sebsd_macho_fat ::
  "byte list \<Rightarrow> size_t \<Rightarrow> sebsd_macho_info \<Rightarrow> (cint \<times> sebsd_macho_info) option" where
  "sebsd_macho_fat data len info =
     (if len < sizeof_fat_header then Some (-1, info)
      else do {
        magic \<leftarrow> load32 data 0;
        (if magic \<noteq> FAT_MAGIC \<and> magic \<noteq> FAT_CIGAM then Some (-1, info)
         else do {
           nfat_arch \<leftarrow> load32 data 4;
           narch \<leftarrow> Some (ntohl nfat_arch);
           (if len < sizeof_fat_header + ucast narch * sizeof_fat_arch then Some (-1, info)
            else do {
              info \<leftarrow> Some (info\<lparr>m_fat := 1, m_ncmds := narch, m_codesign := 0\<rparr>);
              info \<leftarrow> sebsd_macho_archs data (unat narch) 0 info;
              Some (0, info) }) }) })"

text \<open>\<open>NULL\<close> pointers are \<open>None\<close>.\<close>

definition sebsd_macho_parse ::
  "byte list option \<Rightarrow> size_t \<Rightarrow> sebsd_macho_info option \<Rightarrow>
     (cint \<times> sebsd_macho_info option) option" where
  "sebsd_macho_parse data len info =
     (case (data, info) of
        (Some data, Some info) \<Rightarrow>
          (if len < 4 then Some (-1, Some info)
           else do {
             info \<leftarrow> Some \<lparr>m_cputype = 0, m_cpusubtype = 0, m_ncmds = 0, m_fat = 0, m_codesign = 0\<rparr>;
             magic \<leftarrow> load32 data 0;
             (error, info) \<leftarrow>
               (if magic = FAT_MAGIC \<or> magic = FAT_CIGAM then sebsd_macho_fat data len info
                else sebsd_macho_thin data len info);
             Some (error, Some info) })
      | _ \<Rightarrow> Some (-1, info))"

section \<open>The self-test\<close>

record mach_header_64 =
  mh_magic :: uint32
  mh_cputype :: uint32
  mh_cpusubtype :: uint32
  mh_filetype :: uint32
  mh_ncmds :: uint32
  mh_sizeofcmds :: uint32
  mh_flags :: uint32
  mh_reserved :: uint32

record linkedit_data_command =
  ld_cmd :: uint32
  ld_cmdsize :: uint32
  ld_dataoff :: uint32
  ld_datasize :: uint32

definition header_bytes :: "mach_header_64 \<Rightarrow> byte list" where
  "header_bytes h = concat (map bytes_of_word [mh_magic h, mh_cputype h, mh_cpusubtype h, mh_filetype h, mh_ncmds h,
     mh_sizeofcmds h, mh_flags h, mh_reserved h])"

definition linkedit_bytes :: "linkedit_data_command \<Rightarrow> byte list" where
  "linkedit_bytes c = concat (map bytes_of_word [ld_cmd c, ld_cmdsize c, ld_dataoff c, ld_datasize c])"

definition selftest_hdr :: mach_header_64 where
  "selftest_hdr = \<lparr>mh_magic = MH_MAGIC_64, mh_cputype = CPU_TYPE_ARM64,
     mh_cpusubtype = CPU_SUBTYPE_ARM64E OR CPU_SUBTYPE_LIB64, mh_filetype = MH_EXECUTE, mh_ncmds = 1,
     mh_sizeofcmds = 16, mh_flags = MH_NOUNDEFS OR MH_TWOLEVEL, mh_reserved = 0\<rparr>"

definition selftest_cs :: linkedit_data_command where
  "selftest_cs = \<lparr>ld_cmd = LC_CODE_SIGNATURE, ld_cmdsize = 16, ld_dataoff = 0x1000, ld_datasize = 0x400\<rparr>"

text \<open>The image the three calls of \<open>memset\<close> and \<open>memcpy\<close> build, and what \<open>info\<close> held before.\<close>

definition selftest_image :: "byte list" where
  "selftest_image =
     splice (splice (replicate 48 0) 0 (header_bytes selftest_hdr)) 32 (linkedit_bytes selftest_cs)"

definition sebsd_macho_selftest :: "sebsd_macho_info \<Rightarrow> line list option" where
  "sebsd_macho_selftest info0 = do {
     (error, info) \<leftarrow> sebsd_macho_parse (Some selftest_image) (of_nat (length selftest_image)) (Some info0);
     info \<leftarrow> info;
     (if error \<noteq> 0 then Some (sebsd_log ''macho selftest: FAILED to parse synthetic image'' [])
      else Some (sebsd_log (''macho selftest: fat=%d cputype=0x%x cpusubtype=0x%x '' @
        ''ncmds=%d codesign=%d'')
        [A_int (m_fat info), A_int (m_cputype info), A_int (m_cpusubtype info),
         A_int (m_ncmds info), A_int (m_codesign info)])) }"

end
