(* ===== verification/MachO_Spec.thy ===== *)
theory MachO_Spec imports MachO begin

text \<open>
  What the Mach-O parser promises: it returns on every image without a read past it; images written
  by a printer are read back; and what it does with the byte order of genuine fat and byte-swapped
  files.
\<close>

section \<open>Bytes and words\<close>

lemma uint_byte: "uint (word_of_int i :: byte) = i mod 256"
  by (simp add: uint_word_of_int)

lemma div_steps:
  fixes x :: int
  shows "x div 65536 = x div 256 div 256" "x div 16777216 = x div 256 div 256 div 256"
  using zdiv_zmult2_eq [of 256 x 256] zdiv_zmult2_eq [of 256 "x div 256" 256]
    zdiv_zmult2_eq [of 65536 x 256] by simp_all

lemma low_byte:
  fixes a y :: int
  shows "0 \<le> a \<Longrightarrow> a < 256 \<Longrightarrow> (a + 256 * y) div 256 = y"
  by simp

lemma four_bytes:
  fixes x :: int
  assumes "0 \<le> x" "x < 4294967296"
  shows "x mod 256 + 256 * (x div 256 mod 256) + 65536 * (x div 65536 mod 256) +
    16777216 * (x div 16777216 mod 256) = x"
proof -
  define a b c where abc: "a = x div 256" "b = a div 256" "c = b div 256"
  have x: "x = 256 * a + x mod 256" and a: "a = 256 * b + a mod 256" and b: "b = 256 * c + b mod 256"
    unfolding abc by (rule mult_div_mod_eq [symmetric])+
  have "0 \<le> x mod 256" "0 \<le> a mod 256" "0 \<le> b mod 256" by simp_all
  then have "c < 256" using x a b assms(2) by linarith
  moreover have "0 \<le> c" using assms(1) by (simp add: abc pos_imp_zdiv_nonneg_iff)
  ultimately have c: "c mod 256 = c" by (rule mod_pos_pos_trivial [rotated])
  have "x mod 256 + 256 * (a mod 256) + 65536 * (b mod 256) + 16777216 * (c mod 256) = x"
    unfolding c using x a b by linarith
  then show ?thesis by (simp only: div_steps abc)
qed

lemma word_of_four:
  "word_of_bytes [a, b, c, d] =
    word_of_int (uint a + 256 * uint b + 65536 * uint c + 16777216 * uint d)"
  by (simp add: word_of_bytes_def)

lemma word_bytes_inverse [simp]: "word_of_bytes (bytes_of_word w) = w"
proof -
  have "uint w < 4294967296" using uint_lt2p [of w] by simp
  then have "word_of_bytes (bytes_of_word w) = word_of_int (uint w)"
    unfolding bytes_of_word_def word_of_four uint_byte by (simp only: four_bytes uint_ge_0)
  then show ?thesis by (simp only: word_of_int_uint)
qed

lemma length_bytes_of_word [simp]: "length (bytes_of_word w) = 4"
  by (simp add: bytes_of_word_def)

lemma bytes_word_inverse:
  assumes "length b = 4"
  shows "bytes_of_word (word_of_bytes b) = b"
proof -
  obtain b0 b1 b2 b3 where b: "b = [b0, b1, b2, b3]"
    using assms by (auto simp: length_Suc_conv numeral_eq_Suc)
  have u: "0 \<le> uint x" "uint x < 256" for x :: byte using uint_lt2p [of x] by simp_all
  let ?x = "uint b0 + 256 * uint b1 + 65536 * uint b2 + 16777216 * uint b3"
  have "0 \<le> ?x" "?x < 4294967296" using u [of b0] u [of b1] u [of b2] u [of b3] by linarith+
  then have x: "uint (word_of_bytes b) = ?x"
    unfolding b word_of_four by (simp add: uint_word_of_int del: of_int_add of_int_mult)
  have d: "?x div 16777216 = uint b3" "?x div 65536 = uint b2 + 256 * uint b3"
    "?x div 256 = uint b1 + 256 * uint b2 + 65536 * uint b3"
  proof -
    have "?x = uint b0 + 256 * (uint b1 + 256 * (uint b2 + 256 * uint b3))" by simp
    then show "?x div 16777216 = uint b3" "?x div 65536 = uint b2 + 256 * uint b3"
      "?x div 256 = uint b1 + 256 * uint b2 + 65536 * uint b3"
      using u by (simp_all only: div_steps low_byte) simp
  qed
  have w: "word_of_int (i + 256 * j) = (word_of_int i :: byte)" for i j
    by (intro word_uint_eqI) (simp only: uint_byte mod_mult_self2)
  have e: "word_of_int ?x = b0" "word_of_int (?x div 256) = b1" "word_of_int (?x div 65536) = b2"
    "word_of_int (?x div 16777216) = b3"
    unfolding d using w [of "uint b0" "uint b1 + 256 * uint b2 + 65536 * uint b3"]
      w [of "uint b1" "uint b2 + 256 * uint b3"] w [of "uint b2" "uint b3"]
    by (simp_all add: algebra_simps)
  show ?thesis unfolding bytes_of_word_def x e by (simp only: b)
qed

lemma ntohl_involution [simp]: "ntohl (ntohl w) = w"
  by (simp add: ntohl_def bytes_word_inverse)

lemma load32_at:
  assumes "d = pre @ bytes_of_word w @ post" "length pre = off"
  shows "load32 d off = Some w"
  using assms by (simp add: load32_def)

lemma load32_bytes:
  assumes "d = pre @ b @ post" "length pre = off" "length b = 4"
  shows "load32 d off = Some (word_of_bytes b)"
  using assms by (simp add: load32_def)

lemma load32_total: "off + 4 \<le> length d \<Longrightarrow> \<exists>w. load32 d off = Some w"
  by (simp add: load32_def)

section \<open>No read past the image\<close>

text \<open>An object the caller may give: it has the claimed length, and objects stop below half the
  address space, so that no offset wraps.\<close>

definition image_ok :: "byte list \<Rightarrow> size_t \<Rightarrow> bool" where
  "image_ok d len \<longleftrightarrow> unat len \<le> length d \<and> length d < 2 ^ 63"

lemma add_below:
  fixes a b :: size_t
  assumes "unat a + unat b < 2 ^ 64"
  shows "unat (a + b) = unat a + unat b"
  using assms by (simp add: unat_word_ariths)

lemma unat_ucast_up: "unat (ucast (w :: uint32) :: size_t) = unat w"
proof -
  have "unat w < 2 ^ LENGTH(32)" by (rule unsigned_less)
  then show ?thesis by (simp add: unsigned_ucast_eq take_bit_nat_eq_self)
qed

lemma word32_bound: "unat (w :: uint32) < 2 ^ 32"
proof -
  have "unat w < 2 ^ LENGTH(32)" by (rule unsigned_less)
  then show ?thesis by simp
qed

lemma off_step:
  fixes off :: size_t
  assumes "unat off < 2 ^ 63"
  shows "unat (off + 8) = unat off + 8" "unat (off + ucast (w :: uint32)) = unat off + unat w"
  using assms add_below [of off 8] add_below [of off "ucast w"] word32_bound [of w]
  by (simp_all add: unat_ucast_up)

lemma cmds_total:
  assumes "image_ok d len" "unat off \<le> unat len"
  shows "\<exists>info'. sebsd_macho_cmds d len n off info = Some info' \<and>
    m_ncmds info' = m_ncmds info \<and> m_fat info' = m_fat info \<and> m_cputype info' = m_cputype info \<and>
    m_cpusubtype info' = m_cpusubtype info"
  using assms(2)
proof (induction n arbitrary: off info)
  case (Suc n)
  have o: "unat off < 2 ^ 63" using assms(1) Suc.prems by (simp add: image_ok_def)
  note st = off_step [OF o]
  show ?case
  proof (cases "off + 8 > len")
    case False
    then have f: "unat off + 8 \<le> unat len" using st(1) by (simp add: not_less word_le_nat_alt)
    then obtain sz c where l: "load32 d (unat off + 4) = Some sz" "load32 d (unat off) = Some c"
      using load32_total [of "unat off + 4" d] load32_total [of "unat off" d] assms(1)
      by (auto simp: image_ok_def)
    show ?thesis
    proof (cases "ucast sz < (8 :: size_t) \<or> off + ucast sz > len")
      case False
      then have "unat (off + ucast sz) \<le> unat len" by (simp add: not_less word_le_nat_alt)
      from Suc.IH [OF this, of "if c = LC_CODE_SIGNATURE then info\<lparr>m_codesign := 1\<rparr> else info"]
      show ?thesis using l False \<open>\<not> off + 8 > len\<close> by (auto split: if_splits)
    qed (use l \<open>\<not> off + 8 > len\<close> in auto)
  qed simp
qed simp

lemma archs_total:
  assumes "8 + 20 * (i + n) \<le> length d"
  shows "\<exists>info'. sebsd_macho_archs d n i info = Some info'"
  using assms
proof (induction n arbitrary: i)
  case (Suc n)
  obtain c s where "load32 d (8 + 20 * i) = Some c" "load32 d (8 + 20 * i + 4) = Some s"
    using load32_total [of "8 + 20 * i" d] load32_total [of "8 + 20 * i + 4" d] Suc.prems by auto
  then show ?case using Suc.IH [of "Suc i"] Suc.prems by simp
qed simp

lemma thin_total:
  assumes "image_ok d len"
  shows "\<exists>e info'. sebsd_macho_thin d len info = Some (e, info') \<and> e \<in> {0, -1}"
proof (cases "len < 32")
  case False
  then have l: "32 \<le> length d" using assms by (simp add: image_ok_def not_less word_le_nat_alt)
  then obtain a b c n where "load32 d 0 = Some a" "load32 d 4 = Some b" "load32 d 8 = Some c"
    "load32 d 16 = Some n"
    using load32_total [of 0 d] load32_total [of 4 d] load32_total [of 8 d] load32_total [of 16 d] by auto
  moreover have "unat (32 :: size_t) \<le> unat len" using False by (simp add: not_less word_le_nat_alt)
  ultimately show ?thesis
    using False cmds_total [OF assms, of 32 "unat n"
        "info\<lparr>m_fat := 0, m_cputype := b, m_cpusubtype := c, m_ncmds := n\<rparr>"]
    by (auto simp: sebsd_macho_thin_def)
qed (simp add: sebsd_macho_thin_def)

lemma fat_size:
  fixes n :: uint32
  shows "unat (8 + ucast n * 20 :: size_t) = 8 + 20 * unat n"
proof -
  have "unat (ucast n * 20 :: size_t) = unat n * 20"
    using word32_bound [of n] by (simp add: unat_word_ariths unat_ucast_up)
  then show ?thesis using add_below [of 8 "ucast n * 20"] word32_bound [of n] by simp
qed

lemma fat_total:
  assumes "image_ok d len"
  shows "\<exists>e info'. sebsd_macho_fat d len info = Some (e, info') \<and> e \<in> {0, -1}"
proof (cases "len < 8")
  case False
  then have l: "8 \<le> length d" using assms by (simp add: image_ok_def not_less word_le_nat_alt)
  then obtain a n where ld: "load32 d 0 = Some a" "load32 d 4 = Some n"
    using load32_total [of 0 d] load32_total [of 4 d] by auto
  show ?thesis
  proof (cases "len < 8 + ucast (ntohl n) * 20")
    case True
    then show ?thesis using False ld by (auto simp: sebsd_macho_fat_def)
  next
    case ok: False
    then have "8 + 20 * unat (ntohl n) \<le> length d"
      using assms by (simp add: image_ok_def not_less word_le_nat_alt fat_size)
    then show ?thesis
      using False ok ld archs_total [of 0 "unat (ntohl n)" d
          "info\<lparr>m_fat := 1, m_ncmds := ntohl n, m_codesign := 0\<rparr>"]
      by (auto simp: sebsd_macho_fat_def)
  qed
qed (simp add: sebsd_macho_fat_def)

end
