(* ===== verification/Endian.thy ===== *)
theory Endian imports MachO_Spec begin

text \<open>
  \<open>libkern-bsd/include/sys/endian.h\<close>: FreeBSD's byte order conversions as names for the kernel's
  \<open>OSByteOrder.h\<close>, on the little-endian host of this build. What they promise is on the bytes that the
  converted word has in memory.
\<close>

unbundle bit_operations_syntax

section \<open>Words in memory\<close>

definition le_bytes :: "nat \<Rightarrow> 'a::len word \<Rightarrow> byte list" where
  "le_bytes n w = map (\<lambda>i. ucast (drop_bit (8 * i) w)) [0..<n]"

fun of_le_bytes :: "byte list \<Rightarrow> 'a::len word" where
  "of_le_bytes [] = 0"
| "of_le_bytes (b # bs) = ucast b OR push_bit 8 (of_le_bytes bs)"

definition be_value :: "byte list \<Rightarrow> 'a::len word" where
  "be_value bs = of_le_bytes (rev bs)"

lemma length_le_bytes [simp]: "length (le_bytes n w) = n"
  by (simp add: le_bytes_def)

lemma bit_of_le_bytes:
  "bit (of_le_bytes bs :: 'a::len word) k \<longleftrightarrow>
    k < LENGTH('a) \<and> k div 8 < length bs \<and> bit (bs ! (k div 8)) (k mod 8)"
proof (induction bs arbitrary: k)
  case (Cons b bs)
  show ?case
  proof (cases "k < 8")
    case True
    then show ?thesis by (auto simp: bit_simps)
  next
    case False
    then have "k div 8 = Suc ((k - 8) div 8)" "k mod 8 = (k - 8) mod 8"
      by (simp_all add: le_div_geq le_mod_geq)
    moreover have "\<not> bit b k" using False bit_imp_le_length [of b k] by auto
    ultimately show ?thesis using False by (auto simp: bit_simps Cons.IH)
  qed
qed simp

lemma bit_le_bytes:
  "i < n \<Longrightarrow> bit (le_bytes n w ! i) j \<longleftrightarrow> j < 8 \<and> bit w (8 * i + j)"
  by (auto simp: le_bytes_def bit_simps)

lemma of_le_bytes_inverse:
  fixes w :: "'a::len word"
  assumes "LENGTH('a) = 8 * n"
  shows "of_le_bytes (le_bytes n w) = w"
proof (rule bit_word_eqI)
  fix k assume "k < LENGTH('a)"
  then show "bit (of_le_bytes (le_bytes n w) :: 'a word) k = bit w k"
    using assms by (simp add: bit_of_le_bytes bit_le_bytes less_mult_imp_div_less mult.commute)
qed

lemma le_bytes_inverse:
  assumes "LENGTH('a) = 8 * length bs"
  shows "le_bytes (length bs) (of_le_bytes bs :: 'a::len word) = bs"
proof (rule nth_equalityI)
  fix i assume i: "i < length (le_bytes (length bs) (of_le_bytes bs :: 'a word))"
  show "le_bytes (length bs) (of_le_bytes bs :: 'a word) ! i = bs ! i"
  proof (rule bit_word_eqI)
    fix j assume "j < LENGTH(8)"
    then show "bit (le_bytes (length bs) (of_le_bytes bs :: 'a word) ! i) j = bit (bs ! i) j"
      using i assms by (simp add: bit_le_bytes bit_of_le_bytes)
  qed
qed simp

section \<open>The macros\<close>

definition swap_bytes :: "nat \<Rightarrow> 'a::len word \<Rightarrow> 'a word" where
  "swap_bytes n w = of_le_bytes (rev (le_bytes n w))"

definition bswap16 :: "16 word \<Rightarrow> 16 word" where "bswap16 x = swap_bytes 2 x"
definition bswap32 :: "32 word \<Rightarrow> 32 word" where "bswap32 x = swap_bytes 4 x"
definition bswap64 :: "64 word \<Rightarrow> 64 word" where "bswap64 x = swap_bytes 8 x"

definition htole16 :: "16 word \<Rightarrow> 16 word" where "htole16 x = x"
definition htole32 :: "32 word \<Rightarrow> 32 word" where "htole32 x = x"
definition htole64 :: "64 word \<Rightarrow> 64 word" where "htole64 x = x"

definition le16toh :: "16 word \<Rightarrow> 16 word" where "le16toh x = x"
definition le32toh :: "32 word \<Rightarrow> 32 word" where "le32toh x = x"
definition le64toh :: "64 word \<Rightarrow> 64 word" where "le64toh x = x"

definition htobe16 :: "16 word \<Rightarrow> 16 word" where "htobe16 x = bswap16 x"
definition htobe32 :: "32 word \<Rightarrow> 32 word" where "htobe32 x = bswap32 x"
definition htobe64 :: "64 word \<Rightarrow> 64 word" where "htobe64 x = bswap64 x"

definition be16toh :: "16 word \<Rightarrow> 16 word" where "be16toh x = bswap16 x"
definition be32toh :: "32 word \<Rightarrow> 32 word" where "be32toh x = bswap32 x"
definition be64toh :: "64 word \<Rightarrow> 64 word" where "be64toh x = bswap64 x"

lemmas endian_defs = bswap16_def bswap32_def bswap64_def htole16_def htole32_def htole64_def
  le16toh_def le32toh_def le64toh_def htobe16_def htobe32_def htobe64_def be16toh_def be32toh_def
  be64toh_def

section \<open>What they do to memory\<close>

lemma swap_memory:
  fixes w :: "'a::len word"
  assumes "LENGTH('a) = 8 * n"
  shows "le_bytes n (swap_bytes n w) = rev (le_bytes n w)"
  using le_bytes_inverse [of "rev (le_bytes n w)", where 'a = 'a] assms by (simp add: swap_bytes_def)

lemma swap_involution:
  fixes w :: "'a::len word"
  assumes "LENGTH('a) = 8 * n"
  shows "swap_bytes n (swap_bytes n w) = w"
proof -
  have "swap_bytes n (swap_bytes n w) = of_le_bytes (rev (le_bytes n (swap_bytes n w)))"
    by (simp only: swap_bytes_def)
  then show ?thesis using assms by (simp add: swap_memory of_le_bytes_inverse)
qed

text \<open>A converted word lies in memory most, or least, significant byte first.\<close>

lemma htobe_memory:
  "be_value (le_bytes 2 (htobe16 x)) = x" "be_value (le_bytes 4 (htobe32 y)) = y"
  "be_value (le_bytes 8 (htobe64 z)) = z"
  by (simp_all add: endian_defs be_value_def swap_memory of_le_bytes_inverse)

lemma htole_memory:
  "of_le_bytes (le_bytes 2 (htole16 x)) = x" "of_le_bytes (le_bytes 4 (htole32 y)) = y"
  "of_le_bytes (le_bytes 8 (htole64 z)) = z"
  by (simp_all add: endian_defs of_le_bytes_inverse)

lemma be_roundtrip:
  "be16toh (htobe16 x) = x" "be32toh (htobe32 y) = y" "be64toh (htobe64 z) = z"
  by (simp_all add: endian_defs swap_involution)

text \<open>The Mach-O parser reads and writes the same bytes, by arithmetic.\<close>

lemma of_le_bytes_Cons: "(of_le_bytes (b # bs) :: 'a::len word) = ucast b + 256 * of_le_bytes bs"
proof -
  have "ucast b AND push_bit 8 (of_le_bytes bs :: 'a word) = 0"
    by (rule bit_word_eqI) (auto simp: bit_simps dest: bit_imp_le_length)
  then show ?thesis
    by (simp add: disjunctive_add_eq_or [symmetric] push_bit_eq_mult mult.commute)
qed

lemma word_of_bytes_le: "word_of_bytes [b0, b1, b2, b3] = of_le_bytes [b0, b1, b2, b3]"
  by (simp add: word_of_bytes_def of_le_bytes_Cons del: of_le_bytes.simps(2))

lemma bytes_of_word_le: "bytes_of_word w = le_bytes 4 w"
proof -
  have "word_of_int (uint w div 2 ^ n) = (ucast (drop_bit n w) :: byte)" for n
    by (rule bit_word_eqI)
      (auto simp: bit_simps drop_bit_eq_div [symmetric] dest: bit_imp_le_length)
  from this [of 0] this [of 8] this [of 16] this [of 24]
  have b: "word_of_int (uint w) = (ucast w :: byte)" "word_of_int (uint w div 256) = (ucast (drop_bit 8 w) :: byte)"
    "word_of_int (uint w div 65536) = (ucast (drop_bit 16 w) :: byte)"
    "word_of_int (uint w div 16777216) = (ucast (drop_bit 24 w) :: byte)" by simp_all
  show ?thesis unfolding bytes_of_word_def b by (simp add: le_bytes_def upt_rec)
qed

lemma ntohl_be32toh: "ntohl w = be32toh w"
  by (simp add: ntohl_def bytes_of_word_le endian_defs swap_bytes_def le_bytes_def upt_rec
      word_of_bytes_le del: of_le_bytes.simps)

end
