(* ===== verification/MachO_Props.thy ===== *)
theory MachO_Props imports MachO_Spec begin

text \<open>
  The properties of the Mach-O parser: it is safe and returns on every image; it reads back what a
  printer of thin images writes, the self-test image among them; and its byte order.
\<close>

section \<open>Printed images\<close>

text \<open>A load command with its payload, and a thin image with arbitrary bytes behind its commands.\<close>

type_synonym lcmd = "uint32 \<times> byte list"

definition cmd_bytes :: "lcmd \<Rightarrow> byte list" where
  "cmd_bytes c = bytes_of_word (fst c) @ bytes_of_word (of_nat (8 + length (snd c))) @ snd c"

definition thin_image :: "mach_header_64 \<Rightarrow> lcmd list \<Rightarrow> byte list \<Rightarrow> byte list" where
  "thin_image h cs rest = header_bytes h @ concat (map cmd_bytes cs) @ rest"

lemma length_header [simp]: "length (header_bytes h) = 32"
  by (simp add: header_bytes_def)

lemma length_cmd [simp]: "length (cmd_bytes c) = 8 + length (snd c)"
  by (simp add: cmd_bytes_def)

lemma cmds_printed:
  assumes "d = pre @ concat (map cmd_bytes cs) @ rest" "length pre = unat off"
    "unat off + length (concat (map cmd_bytes cs)) \<le> unat len" "image_ok d len"
    "list_all (\<lambda>c. 8 + length (snd c) < 2 ^ 32) cs"
  shows "sebsd_macho_cmds d len (length cs) off info =
    Some (if LC_CODE_SIGNATURE \<in> set (map fst cs) then info\<lparr>m_codesign := 1\<rparr> else info)"
  using assms(1-3,5)
proof (induction cs arbitrary: pre off info)
  case Nil
  then show ?case by simp
next
  case (Cons c cs)
  let ?sz = "of_nat (8 + length (snd c)) :: uint32"
  have o: "unat off < 2 ^ 63" using assms(4) Cons.prems(3) by (simp add: image_ok_def)
  have sz: "unat ?sz = 8 + length (snd c)" using Cons.prems(4) by (simp only: unat_of_nat) simp
  note st = off_step [OF o]
  have l: "load32 d (unat off) = Some (fst c)" "load32 d (unat off + 4) = Some ?sz"
    using Cons.prems(1,2)
    by (simp_all add: cmd_bytes_def load32_def)
  have room: "unat off + (8 + length (snd c)) \<le> unat len" using Cons.prems(3) by simp
  have c1: "\<not> off + 8 > len" using st(1) room by (simp add: not_less word_le_nat_alt)
  have c2: "\<not> ucast ?sz < (8 :: size_t)"
    using sz by (simp add: not_less word_le_nat_alt unat_ucast_up del: of_nat_add)
  have nxt: "unat (off + ucast ?sz) = unat off + (8 + length (snd c))" using st(2) [of ?sz] sz by simp
  then have c3: "\<not> off + ucast ?sz > len" using room by (simp add: not_less word_le_nat_alt)
  have "sebsd_macho_cmds d len (length cs) (off + ucast ?sz) info' =
      Some (if LC_CODE_SIGNATURE \<in> set (map fst cs) then info'\<lparr>m_codesign := 1\<rparr> else info')" for info'
    using Cons.prems nxt by (intro Cons.IH [of "pre @ cmd_bytes c"]) simp_all
  then show ?case using l c1 c2 c3 by (simp del: of_nat_add of_nat_Suc)
qed

lemma header_loads:
  assumes "d = header_bytes h @ t"
  shows "load32 d 0 = Some (mh_magic h)" "load32 d 4 = Some (mh_cputype h)"
    "load32 d 8 = Some (mh_cpusubtype h)" "load32 d 16 = Some (mh_ncmds h)"
  using assms by (simp_all add: load32_def header_bytes_def)

lemma thin_printed:
  assumes "d = thin_image h cs rest" "mh_magic h = MH_MAGIC_64" "mh_ncmds h = of_nat (length cs)"
    "length cs < 2 ^ 32" "list_all (\<lambda>c. 8 + length (snd c) < 2 ^ 32) cs"
    "image_ok d len" "length d - length rest \<le> unat len"
  shows "sebsd_macho_parse (Some d) len (Some info) = Some (0, Some
    \<lparr>m_cputype = mh_cputype h, m_cpusubtype = mh_cpusubtype h, m_ncmds = mh_ncmds h, m_fat = 0,
     m_codesign = (if LC_CODE_SIGNATURE \<in> set (map fst cs) then 1 else 0)\<rparr>)"
proof -
  have d: "d = header_bytes h @ concat (map cmd_bytes cs) @ rest" using assms(1) by (simp add: thin_image_def)
  note ld = header_loads [OF d]
  have len: "32 + length (concat (map cmd_bytes cs)) \<le> unat len" using assms(7) d by simp
  then have l32: "\<not> len < 32" by (simp add: not_less word_le_nat_alt)
  then have l4: "\<not> len < 4" by (simp add: not_less word_le_nat_alt)
  have n: "unat (mh_ncmds h) = length cs" using assms(3,4) by (simp add: unat_of_nat)
  have "sebsd_macho_cmds d len (length cs) 32 i =
      Some (if LC_CODE_SIGNATURE \<in> set (map fst cs) then i\<lparr>m_codesign := 1\<rparr> else i)" for i
    using cmds_printed [OF d, of 32 len i] len assms(5,6) by simp
  then show ?thesis using ld assms(2) l32 l4 n
    by (simp add: sebsd_macho_parse_def sebsd_macho_thin_def)
qed

text \<open>The self-test's image is a printed one.\<close>

lemma selftest_line:
  "sebsd_macho_selftest info0 = Some (sebsd_log
     ''macho selftest: fat=%d cputype=0x%x cpusubtype=0x%x ncmds=%d codesign=%d''
     [A_int 0, A_int 0x0100000c, A_int 0x80000002, A_int 1, A_int 1])"
proof -
  let ?cs = "[(0x1d, bytes_of_word 0x1000 @ bytes_of_word 0x400)] :: lcmd list"
  have img: "selftest_image = thin_image selftest_hdr ?cs []"
    by (simp add: selftest_image_def thin_image_def splice_def selftest_cs_def
        linkedit_bytes_def cmd_bytes_def)
  have "length selftest_image = 48" unfolding img by (simp add: thin_image_def)
  then show ?thesis
    using thin_printed [OF img, of "of_nat (length selftest_image)" info0]
    by (simp add: sebsd_macho_selftest_def selftest_hdr_def image_ok_def)
qed

section \<open>Files in big-endian order\<close>

text \<open>
  A fat file on disk is big-endian: the header and one record per slice (CPU type, subtype, offset,
  size, alignment), then the rest of the file. A thin image of a big-endian host likewise.
\<close>

definition be_bytes :: "uint32 \<Rightarrow> byte list" where
  "be_bytes w = rev (bytes_of_word w)"

type_synonym slice = "uint32 \<times> uint32 \<times> uint32 \<times> uint32 \<times> uint32"

fun slice_bytes :: "slice \<Rightarrow> byte list" where
  "slice_bytes (ty, sub, off, sz, al) =
     be_bytes ty @ be_bytes sub @ be_bytes off @ be_bytes sz @ be_bytes al"

definition fat_file :: "slice list \<Rightarrow> byte list \<Rightarrow> byte list" where
  "fat_file as rest = be_bytes FAT_MAGIC @ be_bytes (of_nat (length as)) @
     concat (map slice_bytes as) @ rest"

definition swapped_header_bytes :: "mach_header_64 \<Rightarrow> byte list" where
  "swapped_header_bytes h = concat (map be_bytes [mh_magic h, mh_cputype h, mh_cpusubtype h,
     mh_filetype h, mh_ncmds h, mh_sizeofcmds h, mh_flags h, mh_reserved h])"

lemma length_be [simp]: "length (be_bytes w) = 4"
  by (simp add: be_bytes_def)

lemma word_of_be [simp]: "word_of_bytes (be_bytes w) = ntohl w"
  by (simp add: be_bytes_def ntohl_def)

lemma length_slice [simp]: "length (slice_bytes a) = 20"
  by (cases a rule: slice_bytes.cases) simp

lemma magic_swaps: "ntohl FAT_MAGIC = FAT_CIGAM" "ntohl MH_MAGIC_64 = MH_CIGAM_64"
  by (simp_all add: ntohl_def bytes_of_word_def word_of_bytes_def)

lemma archs_printed:
  assumes "d = pre @ concat (map slice_bytes as) @ rest" "length pre = 8 + 20 * i"
    "list_all (\<lambda>a. ntohl (fst a) \<noteq> CPU_TYPE_ARM64) as"
  shows "sebsd_macho_archs d (length as) i info = Some info"
  using assms
proof (induction as arbitrary: pre i)
  case Nil
  then show ?case by simp
next
  case (Cons a as)
  obtain ty sub off sz al where a: "a = (ty, sub, off, sz, al)" by (cases a)
  have "load32 d (8 + 20 * i) = Some (ntohl ty)"
    using Cons.prems(1,2) a by (simp add: load32_def)
  moreover have "sebsd_macho_archs d (length as) (Suc i) info = Some info"
    using Cons.prems by (intro Cons.IH [of "pre @ slice_bytes a"]) simp_all
  ultimately show ?case using Cons.prems(3) a by simp
qed

lemma concat_slices: "length (concat (map slice_bytes as)) = 20 * length as"
  by (induction as) simp_all

section \<open>Properties\<close>

text \<open>
  C14. The parser returns 0 or -1 on every image, whatever its bytes and whatever of its pointers is
  \<open>NULL\<close>, and reads nothing past the length it is given.
\<close>

theorem macho_parse_safe:
  assumes "pred_option (\<lambda>d. image_ok d len) data"
  shows "\<exists>e info'. sebsd_macho_parse data len info = Some (e, info') \<and> e \<in> {0, -1}"
proof (cases "data = None \<or> info = None \<or> len < 4")
  case True
  then show ?thesis by (auto simp: sebsd_macho_parse_def split: option.splits)
next
  case False
  then obtain d i where di: "data = Some d" "info = Some i" "\<not> len < 4" by auto
  then have ok: "image_ok d len" using assms by simp
  have "unat (4 :: size_t) \<le> unat len" using di(3) by (simp add: not_less word_le_nat_alt)
  then obtain m where "load32 d 0 = Some m" using load32_total [of 0 d] ok by (auto simp: image_ok_def)
  moreover let ?i = "\<lparr>m_cputype = 0, m_cpusubtype = 0, m_ncmds = 0, m_fat = 0, m_codesign = 0\<rparr>"
  obtain e1 i1 e2 i2 where "sebsd_macho_fat d len ?i = Some (e1, i1)" "e1 \<in> {0, -1}"
    "sebsd_macho_thin d len ?i = Some (e2, i2)" "e2 \<in> {0, -1}"
    using fat_total [OF ok, of ?i] thin_total [OF ok, of ?i] by blast
  ultimately show ?thesis using di by (simp add: sebsd_macho_parse_def)
qed

theorem macho_parse_safe_witness:
  "\<exists>e info'. sebsd_macho_parse (Some (replicate 40 0xff)) 40 None = Some (e, info') \<and> e \<in> {0, -1}"
  by (rule macho_parse_safe) (simp add: image_ok_def)

text \<open>
  C15. A thin image that is printed from a header and a list of load commands (of any kind and
  payload, with any bytes behind them) is read back: its CPU type and subtype, its number of
  commands, and whether one of them is \<open>LC_CODE_SIGNATURE\<close>.
\<close>

theorem macho_thin_roundtrip:
  assumes "mh_magic h = MH_MAGIC_64" "mh_ncmds h = of_nat (length cs)" "length cs < 2 ^ 32"
    "list_all (\<lambda>c. 8 + length (snd c) < 2 ^ 32) cs" "length (thin_image h cs rest) < 2 ^ 63"
  shows "sebsd_macho_parse (Some (thin_image h cs rest)) (of_nat (length (thin_image h cs rest))) (Some info)
    = Some (0, Some \<lparr>m_cputype = mh_cputype h, m_cpusubtype = mh_cpusubtype h, m_ncmds = mh_ncmds h,
        m_fat = 0, m_codesign = (if LC_CODE_SIGNATURE \<in> set (map fst cs) then 1 else 0)\<rparr>)"
proof -
  have "unat (of_nat (length (thin_image h cs rest)) :: size_t) = length (thin_image h cs rest)"
    using assms(5) by (simp add: unat_of_nat)
  then show ?thesis
    using assms by (intro thin_printed [OF refl]) (simp_all add: image_ok_def)
qed

definition two_cmds :: "lcmd list" where
  "two_cmds = [(0x19, [1, 2, 3, 4]), (0x1d, [0, 0x10, 0, 0, 0, 4, 0, 0])]"

theorem macho_thin_roundtrip_witness:
  "\<exists>i. sebsd_macho_parse (Some (thin_image (selftest_hdr\<lparr>mh_ncmds := 2\<rparr>) two_cmds [9]))
      (of_nat (length (thin_image (selftest_hdr\<lparr>mh_ncmds := 2\<rparr>) two_cmds [9])))
      (Some \<lparr>m_cputype = 5, m_cpusubtype = 5, m_ncmds = 5, m_fat = 5, m_codesign = 5\<rparr>) = Some (0, Some i) \<and>
    m_codesign i = 1 \<and> m_ncmds i = 2"
  using macho_thin_roundtrip [of "selftest_hdr\<lparr>mh_ncmds := 2\<rparr>" two_cmds "[9]"]
  by (simp add: two_cmds_def selftest_hdr_def thin_image_def)

text \<open>
  The self-test always succeeds: whatever \<open>info\<close> held, it prints the line of a parsed thin arm64e
  image with one load command and a code signature, and never the failure.
\<close>

theorem macho_selftest_passes:
  "sebsd_macho_selftest info0 = Some (sebsd_log (''macho selftest: fat=%d cputype=0x%x '' @
     ''cpusubtype=0x%x ncmds=%d codesign=%d'')
     [A_int 0, A_int 0x0100000c, A_int 0x80000002, A_int 1, A_int 1])"
  using selftest_line by simp

text \<open>
  C34. The parser does not find the arm64 slice of a fat file as such files are on disk: every field is
  big-endian, and \<open>cputype\<close> is compared without swapping it. The number of slices is read right, but
  the CPU type stays 0 unless some slice has the type whose bytes are those of \<open>CPU_TYPE_ARM64\<close> in
  reverse.
\<close>

theorem macho_fat_no_arm64:
  assumes "list_all (\<lambda>a. fst a \<noteq> 0x0c000001) as" "length as < 2 ^ 32"
    "length (fat_file as rest) < 2 ^ 63"
  shows "sebsd_macho_parse (Some (fat_file as rest)) (of_nat (length (fat_file as rest))) (Some info) =
    Some (0, Some \<lparr>m_cputype = 0, m_cpusubtype = 0, m_ncmds = of_nat (length as), m_fat = 1,
      m_codesign = 0\<rparr>)"
proof -
  let ?d = "fat_file as rest" and ?n = "of_nat (length as) :: uint32"
  let ?len = "of_nat (length ?d) :: size_t"
  have len: "unat ?len = length ?d" using assms(3) by (simp add: unat_of_nat)
  have n: "unat ?n = length as" using assms(2) by (simp only: unat_of_nat) simp
  have ld: "load32 ?d 0 = Some FAT_CIGAM" "load32 ?d 4 = Some (ntohl ?n)"
    by (simp_all add: fat_file_def load32_def magic_swaps)
  have arm: "ntohl ty \<noteq> CPU_TYPE_ARM64" if "ty \<noteq> 0x0c000001" for ty
  proof
    assume "ntohl ty = CPU_TYPE_ARM64"
    then have "ty = ntohl CPU_TYPE_ARM64" using ntohl_involution [of ty] by simp
    then show False using that by (simp add: ntohl_def bytes_of_word_def word_of_bytes_def)
  qed
  have l: "8 + 20 * length as \<le> length ?d" by (simp add: fat_file_def concat_slices)
  then have "\<not> ?len < 8" "\<not> ?len < 4" "\<not> ?len < 8 + ucast ?n * 20"
    using len n by (simp_all add: not_less word_le_nat_alt fat_size del: of_nat_numeral)
  moreover have "sebsd_macho_archs ?d (unat ?n) 0 i = Some i" for i
    unfolding n
    by (rule archs_printed [of _ "be_bytes FAT_MAGIC @ be_bytes ?n" as rest])
       (use assms(1) arm in \<open>auto simp: fat_file_def list_all_iff\<close>)
  ultimately show ?thesis using ld by (simp add: sebsd_macho_parse_def sebsd_macho_fat_def)
qed

definition universal :: "slice list" where
  "universal = [(0x01000007, 3, 0x4000, 0x8000, 14), (0x0100000c, 0x80000002, 0xc000, 0x8000, 14)]"

theorem macho_fat_no_arm64_witness:
  "\<exists>i. sebsd_macho_parse (Some (fat_file universal [])) (of_nat (length (fat_file universal [])))
      (Some \<lparr>m_cputype = 1, m_cpusubtype = 1, m_ncmds = 1, m_fat = 0, m_codesign = 1\<rparr>) = Some (0, Some i) \<and>
    m_ncmds i = 2 \<and> m_cputype i = 0"
  using macho_fat_no_arm64 [of universal "[]"]
  by (simp add: universal_def fat_file_def concat_slices)

text \<open>
  C35. A byte-swapped thin header is accepted, and its fields are reported unswapped: an image of one
  load command reports 16777216 of them, and the CPU type in the wrong order.
\<close>

theorem macho_swapped_unswapped:
  assumes "mh_magic h = MH_MAGIC_64"
  shows "\<exists>i. sebsd_macho_parse (Some (swapped_header_bytes h)) 32 (Some info) = Some (0, Some i) \<and>
    m_ncmds i = ntohl (mh_ncmds h) \<and> m_cputype i = ntohl (mh_cputype h) \<and> m_codesign i = 0"
proof -
  let ?d = "swapped_header_bytes h"
  have ld: "load32 ?d 0 = Some MH_CIGAM_64" "load32 ?d 4 = Some (ntohl (mh_cputype h))"
    "load32 ?d 8 = Some (ntohl (mh_cpusubtype h))" "load32 ?d 16 = Some (ntohl (mh_ncmds h))"
    using assms by (simp_all add: swapped_header_bytes_def load32_def magic_swaps)
  have "sebsd_macho_cmds ?d 32 n 32 i = Some i" for n i by (cases n) simp_all
  then show ?thesis using ld by (simp add: sebsd_macho_parse_def sebsd_macho_thin_def)
qed

theorem macho_swapped_unswapped_witness:
  "\<exists>i. sebsd_macho_parse (Some (swapped_header_bytes selftest_hdr)) 32
      (Some \<lparr>m_cputype = 1, m_cpusubtype = 1, m_ncmds = 1, m_fat = 0, m_codesign = 1\<rparr>) = Some (0, Some i) \<and>
    m_ncmds i = 16777216 \<and> m_cputype i = 0x0c000001"
proof -
  have "ntohl 1 = 16777216" "ntohl 0x0100000c = 0x0c000001"
    by (simp_all add: ntohl_def bytes_of_word_def word_of_bytes_def)
  then show ?thesis
    using macho_swapped_unswapped [of selftest_hdr
        "\<lparr>m_cputype = 1, m_cpusubtype = 1, m_ncmds = 1, m_fat = 0, m_codesign = 1\<rparr>"]
    by (auto simp: selftest_hdr_def)
qed

end
