(* ===== verification/Dispatch.thy ===== *)
theory Dispatch imports Lookup_Fuse Policy_Life MachO_Props begin

text \<open>
  The module as the framework calls it: the arguments of each slot (the typedefs of
  \<open>sebsd_mac.h\<close>), the lifecycle hooks of \<open>main.c\<close>, and a dispatch, which reads the slot and calls
  what is in it. A function called with another slot's arguments has no defined result.
\<close>

section \<open>The policy descriptor and the lifecycle hooks\<close>

record mac_policy_conf =
  mpc_name :: string
  mpc_fullname :: string
  mpc_labelnames :: "string list option"
  mpc_labelname_count :: uint32
  mpc_ops :: opaque
  mpc_loadtime_flags :: cint
  mpc_field_off :: "cint option"
  mpc_runtime_flags :: cint
  mpc_data :: opaque

text \<open>\<open>ops\<close> is the address of \<open>sebsd_ops\<close>.\<close>

definition sebsd_policy_conf :: "opaque \<Rightarrow> mac_policy_conf" where
  "sebsd_policy_conf ops = \<lparr>mpc_name = SEBSD_POLICY_NAME, mpc_fullname = SEBSD_POLICY_FULLNAME,
     mpc_labelnames = None, mpc_labelname_count = SEBSD_LABELNAME_COUNT, mpc_ops = ops,
     mpc_loadtime_flags = SEBSD_LOADTIME_FLAGS, mpc_field_off = None, mpc_runtime_flags = 0,
     mpc_data = 0\<rparr>"

definition sebsd_policy_init :: "mac_policy_conf \<Rightarrow> line list" where
  "sebsd_policy_init mpc = sebsd_log ''policy init: %s'' [A_text (mpc_fullname mpc)]"

text \<open>\<open>info\<close> is what the self-test's uninitialised \<open>struct sebsd_macho_info\<close> holds.\<close>

definition sebsd_policy_initbsd :: "sebsd_macho_info \<Rightarrow> mac_policy_conf \<Rightarrow> line list option" where
  "sebsd_policy_initbsd info mpc = do {
     l1 \<leftarrow> Some (sebsd_log ''policy initbsd: %s v%s registered, ops=%p (%u slots, %lu bytes)''
       [A_text (mpc_name mpc), A_text SEBSD_POLICY_VERSION, A_ptr (mpc_ops mpc),
        A_int (of_nat MAC_POLICY_OPS_SLOTS), A_long (of_nat (struct_size slot_fields))]);
     l2 \<leftarrow> sebsd_macho_selftest info;
     Some (l1 @ l2) }"

definition sebsd_policy_destroy :: "mac_policy_conf \<Rightarrow> line list" where
  "sebsd_policy_destroy mpc = sebsd_log ''policy destroy: %s'' [A_text (mpc_name mpc)]"

section \<open>Events\<close>

datatype event =
    E_policy_init mac_policy_conf
  | E_policy_initbsd sebsd_macho_info mac_policy_conf
  | E_policy_destroy mac_policy_conf
  | E_vnode_open cred opaque opaque cint
  | E_vnode_create cred opaque opaque "componentname option" opaque
  | E_vnode_unlink cred opaque opaque opaque opaque "componentname option"
  | E_vnode_rename cred opaque opaque opaque opaque "componentname option"
      opaque opaque opaque opaque "componentname option"
  | E_vnode_lookup cred opaque opaque "componentname option"
  | E_vnode_readlink cred opaque opaque
  | E_vnode_getattr cred cred opaque opaque opaque
  | E_vnode_setattrlist cred opaque opaque opaque
  | E_vnode_extattr opaque opaque opaque opaque
  | E_vnode_label_copy opaque opaque
  | E_file_mmap cred opaque opaque cint cint "64 word" opaque
  | E_file_libval proc opaque "64 word" "64 word" size_t
  | E_proc_signal cred "nat option" "nat option" cint
  | E_proc_fork cred proc
  | E_proc_exit proc
  | E_socket_connect cred opaque opaque "byte list option"
  | E_socket_create cred cint cint cint
  | E_socket_listen cred opaque opaque
  | E_pty_grant proc opaque cint opaque
  | E_exec cred opaque opaque opaque opaque opaque opaque "uint32 option" opaque size_t
  | E_exec_complete proc

fun slot_of :: "event \<Rightarrow> slot" where
  "slot_of (E_policy_init _) = mpo_policy_init"
| "slot_of (E_policy_initbsd _ _) = mpo_policy_initbsd"
| "slot_of (E_policy_destroy _) = mpo_policy_destroy"
| "slot_of (E_vnode_open _ _ _ _) = mpo_vnode_check_open"
| "slot_of (E_vnode_create _ _ _ _ _) = mpo_vnode_check_create"
| "slot_of (E_vnode_unlink _ _ _ _ _ _) = mpo_vnode_check_unlink"
| "slot_of (E_vnode_rename _ _ _ _ _ _ _ _ _ _ _) = mpo_vnode_check_rename"
| "slot_of (E_vnode_lookup _ _ _ _) = mpo_vnode_check_lookup"
| "slot_of (E_vnode_readlink _ _ _) = mpo_vnode_check_readlink"
| "slot_of (E_vnode_getattr _ _ _ _ _) = mpo_vnode_check_getattr"
| "slot_of (E_vnode_setattrlist _ _ _ _) = mpo_vnode_check_setattrlist"
| "slot_of (E_vnode_extattr _ _ _ _) = mpo_vnode_label_associate_extattr"
| "slot_of (E_vnode_label_copy _ _) = mpo_vnode_label_copy"
| "slot_of (E_file_mmap _ _ _ _ _ _ _) = mpo_file_check_mmap"
| "slot_of (E_file_libval _ _ _ _ _) = mpo_file_check_library_validation"
| "slot_of (E_proc_signal _ _ _ _) = mpo_proc_check_signal"
| "slot_of (E_proc_fork _ _) = mpo_proc_check_fork"
| "slot_of (E_proc_exit _) = mpo_proc_notify_exit"
| "slot_of (E_socket_connect _ _ _ _) = mpo_socket_check_connect"
| "slot_of (E_socket_create _ _ _ _) = mpo_socket_check_create"
| "slot_of (E_socket_listen _ _ _) = mpo_socket_check_listen"
| "slot_of (E_pty_grant _ _ _ _) = mpo_pty_notify_grant"
| "slot_of (E_exec _ _ _ _ _ _ _ _ _ _) = mpo_vnode_check_exec"
| "slot_of (E_exec_complete _) = mpo_proc_notify_exec_complete"

section \<open>Calls\<close>

text \<open>The module's data with the lines of a hook that touches nothing else.\<close>

definition observe :: "verdict \<Rightarrow> kext \<Rightarrow> refs \<Rightarrow> (cint \<times> kext \<times> refs) option" where
  "observe v k r = map_option (\<lambda>(e, ls). (e, emit ls k, r)) v"

definition through :: "hook_fn \<Rightarrow> hook_fn \<Rightarrow> 'a option \<Rightarrow> 'a option" where
  "through f g r = (if f = g then r else None)"

fun call_hook :: "hook_env \<Rightarrow> hook_fn \<Rightarrow> event \<Rightarrow> kext \<Rightarrow> refs \<Rightarrow> (cint \<times> kext \<times> refs) option" where
  "call_hook e f (E_policy_init mpc) k r =
     through f F_policy_init
       (Some (0, emit (sebsd_policy_init mpc) k, r))"
| "call_hook e f (E_policy_initbsd info mpc) k r =
     through f F_policy_initbsd
       (observe (map_option (Pair 0) (sebsd_policy_initbsd info mpc)) k r)"
| "call_hook e f (E_policy_destroy mpc) k r =
     through f F_policy_destroy
       (Some (0, emit (sebsd_policy_destroy mpc) k, r))"
| "call_hook e f (E_vnode_open c vp l m) k r =
     through f F_vnode_check_open
       (observe (sebsd_vnode_check_open e (sebsd_trace_enabled k) c vp l m) k r)"
| "call_hook e f (E_vnode_create c dvp dl cnp vap) k r =
     through f F_vnode_check_create
       (observe (sebsd_vnode_check_create e (sebsd_trace_enabled k) c dvp dl cnp vap) k r)"
| "call_hook e f (E_vnode_unlink c dvp dl vp l cnp) k r =
     through f F_vnode_check_unlink
       (observe (sebsd_vnode_check_unlink e (sebsd_trace_enabled k) c dvp dl vp l cnp) k r)"
| "call_hook e f (E_vnode_rename c fdvp fdl fvp fl fcnp tdvp tdl tvp tlb tcnp) k r =
     through f F_vnode_check_rename
       (observe (sebsd_vnode_check_rename e (sebsd_trace_enabled k) c fdvp fdl fvp fl fcnp tdvp tdl tvp tlb tcnp) k r)"
| "call_hook e f (E_vnode_lookup c dvp dl cnp) k r =
     through f F_vnode_check_lookup
       (map_option (\<lambda>(v, k). (v, k, r)) (sebsd_vnode_check_lookup e c dvp dl cnp k))"
| "call_hook e f (E_vnode_readlink c vp l) k r =
     through f F_vnode_check_readlink
       (observe (sebsd_vnode_check_readlink e (sebsd_trace_enabled k) c vp l) k r)"
| "call_hook e f (E_vnode_getattr c1 c2 vp l va) k r =
     through f F_vnode_check_getattr
       (observe (sebsd_vnode_check_getattr e (sebsd_trace_enabled k) c1 c2 vp l va) k r)"
| "call_hook e f (E_vnode_setattrlist c vp l al) k r =
     through f F_vnode_check_setattrlist
       (observe (sebsd_vnode_check_setattrlist e (sebsd_trace_enabled k) c vp l al) k r)"
| "call_hook e f (E_vnode_extattr mp ml vp l) k r =
     through f F_vnode_label_associate_extattr
       (observe (sebsd_vnode_label_associate_extattr e (sebsd_trace_enabled k) mp ml vp l) k r)"
| "call_hook e f (E_vnode_label_copy s d) k r =
     through f F_vnode_label_copy
       (observe (void_hook (\<lambda>e t (s, d). sebsd_vnode_label_copy e t s d) e (sebsd_trace_enabled k) (s, d)) k r)"
| "call_hook e f (E_file_mmap c fg l prot fl pos mp) k r =
     through f F_file_check_mmap
       (observe (sebsd_file_check_mmap e (sebsd_trace_enabled k) c fg l prot fl pos mp) k r)"
| "call_hook e f (E_file_libval p fg off msg sz) k r =
     through f F_file_check_library_validation
       (observe (sebsd_file_check_library_validation e (sebsd_trace_enabled k) p fg off msg sz) k r)"
| "call_hook e f (E_proc_signal c i1 i2 sig) k r =
     through f F_proc_check_signal
       (map_option (\<lambda>(v, ls, r). (v, emit ls k, r)) (sebsd_proc_check_signal e (sebsd_trace_enabled k) r c i1 i2 sig))"
| "call_hook e f (E_proc_fork c p) k r =
     through f F_proc_check_fork
       (observe (sebsd_proc_check_fork e (sebsd_trace_enabled k) c p) k r)"
| "call_hook e f (E_proc_exit p) k r =
     through f F_proc_notify_exit
       (observe (void_hook sebsd_proc_notify_exit e (sebsd_trace_enabled k) p) k r)"
| "call_hook e f (E_socket_connect c so l addr) k r =
     through f F_socket_check_connect
       (observe (sebsd_socket_check_connect e (sebsd_trace_enabled k) c so l addr) k r)"
| "call_hook e f (E_socket_create c fam ty pr) k r =
     through f F_socket_check_create
       (observe (sebsd_socket_check_create e (sebsd_trace_enabled k) c fam ty pr) k r)"
| "call_hook e f (E_socket_listen c so l) k r =
     through f F_socket_check_listen
       (observe (sebsd_socket_check_listen e (sebsd_trace_enabled k) c so l) k r)"
| "call_hook e f (E_pty_grant p tp dev l) k r =
     through f F_pty_notify_grant
       (observe (void_hook (\<lambda>e t (p, tp, dev, l). sebsd_pty_notify_grant e t p tp dev l) e
       (sebsd_trace_enabled k) (p, tp, dev, l)) k r)"
| "call_hook e f (E_exec c vp svp vl sl el cnp fl at an) k r =
     through f F_spawn_check_exec
       (observe (sebsd_spawn_check_exec e (sebsd_trace_enabled k) c vp svp vl sl el cnp fl at an) k r)"
| "call_hook e f (E_exec_complete p) k r =
     through f F_spawn_notify_exec_complete
       (observe (void_hook sebsd_spawn_notify_exec_complete e (sebsd_trace_enabled k) p) k r)"

text \<open>The framework: a \<open>NULL\<close> slot has no opinion.\<close>

definition dispatch :: "hook_env \<Rightarrow> event \<Rightarrow> kext \<Rightarrow> refs \<Rightarrow> (cint \<times> kext \<times> refs) option" where
  "dispatch e ev k r =
     (case sebsd_ops k (slot_of ev) of None \<Rightarrow> Some (0, k, r) | Some f \<Rightarrow> call_hook e f ev k r)"

end
