(* ===== verification/Dispatch_Spec.thy ===== *)
theory Dispatch_Spec imports Dispatch begin

text \<open>
  The module as a whole: in every state it can reach, each operation the kernel asks it about is
  granted, through the slot and function meant for it, at the price the trace gate sets.
\<close>

section \<open>The slots and their functions\<close>

lemma covers_entry:
  assumes "mask_covers ops m" "(s, f) \<in> (\<lambda>(s, b, f). (s, f)) ` set hook_table"
  shows "ops s \<in> {None, Some f}"
  using assms by (fastforce simp: mask_covers_def list_all_iff)

lemma covers_at:
  assumes "mask_covers ops m"
  shows "ops mpo_vnode_check_open \<in> {None, Some F_vnode_check_open}"
    "ops mpo_vnode_check_create \<in> {None, Some F_vnode_check_create}"
    "ops mpo_vnode_check_unlink \<in> {None, Some F_vnode_check_unlink}"
    "ops mpo_vnode_check_rename \<in> {None, Some F_vnode_check_rename}"
    "ops mpo_vnode_check_lookup \<in> {None, Some F_vnode_check_lookup}"
    "ops mpo_vnode_check_readlink \<in> {None, Some F_vnode_check_readlink}"
    "ops mpo_vnode_check_getattr \<in> {None, Some F_vnode_check_getattr}"
    "ops mpo_vnode_check_setattrlist \<in> {None, Some F_vnode_check_setattrlist}"
    "ops mpo_vnode_label_associate_extattr \<in> {None, Some F_vnode_label_associate_extattr}"
    "ops mpo_vnode_label_copy \<in> {None, Some F_vnode_label_copy}"
    "ops mpo_file_check_mmap \<in> {None, Some F_file_check_mmap}"
    "ops mpo_file_check_library_validation \<in> {None, Some F_file_check_library_validation}"
    "ops mpo_proc_check_signal \<in> {None, Some F_proc_check_signal}"
    "ops mpo_proc_check_fork \<in> {None, Some F_proc_check_fork}"
    "ops mpo_proc_notify_exit \<in> {None, Some F_proc_notify_exit}"
    "ops mpo_socket_check_connect \<in> {None, Some F_socket_check_connect}"
    "ops mpo_socket_check_create \<in> {None, Some F_socket_check_create}"
    "ops mpo_socket_check_listen \<in> {None, Some F_socket_check_listen}"
    "ops mpo_pty_notify_grant \<in> {None, Some F_pty_notify_grant}"
    "ops mpo_vnode_check_exec \<in> {None, Some F_spawn_check_exec}"
    "ops mpo_proc_notify_exec_complete \<in> {None, Some F_spawn_notify_exec_complete}"
  by (rule covers_entry [OF assms], simp add: hook_table_def)+

text \<open>The events of the lifecycle slots, and what the arguments of the others must satisfy.\<close>

fun lifecycle :: "event \<Rightarrow> bool" where
  "lifecycle (E_policy_init _) = True"
| "lifecycle (E_policy_initbsd _ _) = True"
| "lifecycle (E_policy_destroy _) = True"
| "lifecycle _ = False"

fun event_ok :: "event \<Rightarrow> bool" where
  "event_ok (E_vnode_create c dvp dl cnp vap) = cnp_ok cnp"
| "event_ok (E_vnode_unlink c dvp dl vp l cnp) = cnp_ok cnp"
| "event_ok (E_vnode_rename c a1 a2 a3 a4 fcnp b1 b2 b3 b4 tcnp) = (cnp_ok fcnp \<and> cnp_ok tcnp)"
| "event_ok (E_vnode_lookup c dvp dl cnp) = cnp_ok cnp"
| "event_ok (E_socket_connect c so l addr) = pred_option addr_ok addr"
| "event_ok _ = True"

section \<open>Granted\<close>

text \<open>A result that grants and at most prints one trace line, none with tracing off.\<close>

definition harmless :: "kext \<Rightarrow> refs \<Rightarrow> (cint \<times> kext \<times> refs) option \<Rightarrow> bool" where
  "harmless k r res \<longleftrightarrow> (\<exists>ls. res = Some (0, emit ls k, r) \<and>
     length ls \<le> (if sebsd_trace_enabled k = 0 then 0 else 1) \<and> list_all trace_line ls)"

lemma harmless_none: "harmless k r (Some (0, k, r))"
  unfolding harmless_def by (intro exI [of _ "[]"]) (simp add: emit_def)

lemma harmless_observe:
  assumes "observer H ok" "sebsd_trace_enabled k \<noteq> 0 \<longrightarrow> names_ok e \<and> ok a"
  shows "harmless k r (observe (H e (sebsd_trace_enabled k) a) k r)"
  using observer.granted [OF assms] by (auto simp: harmless_def observe_def)

lemmas observers = vnode_open.observer_axioms vnode_create.observer_axioms
  vnode_unlink.observer_axioms vnode_rename.observer_axioms vnode_readlink.observer_axioms
  vnode_getattr.observer_axioms vnode_setattrlist.observer_axioms vnode_extattr.observer_axioms
  vnode_label_copy.observer_axioms file_mmap.observer_axioms proc_fork.observer_axioms
  socket_create.observer_axioms socket_listen.observer_axioms exec_complete.observer_axioms
  spawn_exec.observer_axioms socket_connect.observer_axioms file_libval.observer_axioms
  proc_exit.observer_axioms pty_grant.observer_axioms

lemma through_same [simp]: "through f f x = x"
  by (simp add: through_def)

lemma signal_harmless:
  assumes "sebsd_trace_enabled k \<noteq> 0 \<longrightarrow> names_ok e"
  shows "harmless k r (map_option (\<lambda>(v, ls, r). (v, emit ls k, r))
    (sebsd_proc_check_signal e (sebsd_trace_enabled k) r c i1 i2 sig))"
proof -
  obtain ls where "sebsd_proc_check_signal e (sebsd_trace_enabled k) r c i1 i2 sig = Some (0, ls, r)"
    "length ls \<le> (if sebsd_trace_enabled k = 0 then 0 else 1)" "list_all trace_line ls"
    using signal_result [OF assms, of r c i1 i2 sig] by (auto split: if_splits)
  then show ?thesis unfolding harmless_def by (intro exI [of _ ls]) simp
qed

lemma dispatch_harmless:
  assumes "mask_covers (sebsd_ops k) m" "\<not> lifecycle ev" "slot_of ev \<noteq> mpo_vnode_check_lookup"
    "sebsd_trace_enabled k \<noteq> 0 \<longrightarrow> names_ok e \<and> event_ok ev"
  shows "harmless k r (dispatch e ev k r)"
proof -
  note at = covers_at [OF assms(1)]
  note H = observers [THEN harmless_observe, of k e]
  show ?thesis
  proof (cases "sebsd_ops k (slot_of ev)")
    case None
    then show ?thesis by (simp add: dispatch_def harmless_none)
  next
    case (Some f)
    then have d: "dispatch e ev k r = call_hook e f ev k r" by (simp add: dispatch_def)
    show ?thesis unfolding d
    proof (cases ev)
      case (E_vnode_open c vp l m)
      then show "harmless k r (call_hook e f ev k r)" using Some at assms(4) H(1) [where a = "(c, vp, l, m)"] by simp
    next
      case (E_vnode_create c dvp dl cnp vap)
      then show "harmless k r (call_hook e f ev k r)" using Some at assms(4) H(2) [where a = "(c, dvp, dl, cnp, vap)"] by simp
    next
      case (E_vnode_unlink c dvp dl vp l cnp)
      then show "harmless k r (call_hook e f ev k r)" using Some at assms(4) H(3) [where a = "(c, dvp, dl, vp, l, cnp)"] by simp
    next
      case (E_vnode_rename c a1 a2 a3 a4 fcnp b1 b2 b3 b4 tcnp)
      then show "harmless k r (call_hook e f ev k r)"
        using Some at assms(4) H(4) [where a = "(c, fcnp, tcnp, a1, a2, a3, a4, b1, b2, b3, b4)"] by simp
    next
      case (E_vnode_readlink c vp l)
      then show "harmless k r (call_hook e f ev k r)" using Some at assms(4) H(5) [where a = "(c, vp, l)"] by simp
    next
      case (E_vnode_getattr c1 c2 vp l va)
      then show "harmless k r (call_hook e f ev k r)" using Some at assms(4) H(6) [where a = "(c1, c2, vp, l, va)"] by simp
    next
      case (E_vnode_setattrlist c vp l al)
      then show "harmless k r (call_hook e f ev k r)" using Some at assms(4) H(7) [where a = "(c, vp, l, al)"] by simp
    next
      case (E_vnode_extattr mp ml vp l)
      then show "harmless k r (call_hook e f ev k r)" using Some at assms(4) H(8) [where a = "(mp, ml, vp, l)"] by simp
    next
      case (E_vnode_label_copy s d)
      then show "harmless k r (call_hook e f ev k r)" using Some at assms(4) H(9) [where a = "(s, d)"] by simp
    next
      case (E_file_mmap c fg l prot fl pos mp)
      then show "harmless k r (call_hook e f ev k r)" using Some at assms(4) H(10) [where a = "(c, fg, l, prot, fl, pos, mp)"] by simp
    next
      case (E_proc_fork c p)
      then show "harmless k r (call_hook e f ev k r)" using Some at assms(4) H(11) [where a = "(c, p)"] by simp
    next
      case (E_socket_create c fam ty pr)
      then show "harmless k r (call_hook e f ev k r)" using Some at assms(4) H(12) [where a = "(c, fam, ty, pr)"] by simp
    next
      case (E_socket_listen c so l)
      then show "harmless k r (call_hook e f ev k r)" using Some at assms(4) H(13) [where a = "(c, so, l)"] by simp
    next
      case (E_exec_complete p)
      then show "harmless k r (call_hook e f ev k r)" using Some at assms(4) H(14) [where a = p] by simp
    next
      case (E_exec c vp svp vl sl el cnp fl a n)
      then show "harmless k r (call_hook e f ev k r)"
        using Some at assms(4) H(15) [where a = "(c, vp, svp, vl, sl, el, cnp, fl, a, n)"] by simp
    next
      case (E_socket_connect c so l addr)
      then show "harmless k r (call_hook e f ev k r)" using Some at assms(4) H(16) [where a = "(c, so, l, addr)"] by simp
    next
      case (E_file_libval p fg off msg sz)
      then show "harmless k r (call_hook e f ev k r)" using Some at assms(4) H(17) [where a = "(p, fg, off, msg, sz)"] by simp
    next
      case (E_proc_exit p)
      then show "harmless k r (call_hook e f ev k r)" using Some at assms(4) H(18) [where a = p] by simp
    next
      case (E_pty_grant p tp dev l)
      then show "harmless k r (call_hook e f ev k r)" using Some at assms(4) H(19) [where a = "(p, tp, dev, l)"] by simp
    next
      case (E_proc_signal c i1 i2 sig)
      then show "harmless k r (call_hook e f ev k r)" using Some at assms(4) signal_harmless [of k e r c i1 i2 sig] by simp
    qed (use assms(2,3) in simp_all)
  qed
qed

section \<open>The lookup slot\<close>

lemma lookup_total:
  assumes "trace_ok e (sebsd_trace_enabled k) cnp"
  shows "\<exists>k'. sebsd_vnode_check_lookup e c dvp dl cnp k = Some (0, k')"
proof -
  have "sebsd_trace_enabled k = 0 \<or> (\<exists>l. sebsd_trace_lookup e (sebsd_trace_enabled k) n dvp dl cnp = Some l)" for n
    using assms trace_lookup_total [of e cnp "sebsd_trace_enabled k" n dvp dl] by (auto simp: trace_ok_def)
  from this [of "sebsd_lookup_count k + 1"] show ?thesis
    by (auto simp: sebsd_vnode_check_lookup_def Let_def sebsd_tracing_def emit_def)
qed

text \<open>What it may change: the counters, the log, and through the fuse its slot and its bit.\<close>

definition blown_or_same :: "kext \<Rightarrow> kext \<Rightarrow> bool" where
  "blown_or_same k k' \<longleftrightarrow> (still_armed k k' \<or> disarmed k k') \<and> k_tree k' = k_tree k \<and>
     k_policy k' = k_policy k \<and> k_loaded k' = k_loaded k \<and> sebsd_registered k' = sebsd_registered k \<and>
     sebsd_unsafe_enabled k' = sebsd_unsafe_enabled k \<and> sebsd_trace_enabled k' = sebsd_trace_enabled k"

lemma lookup_changes:
  "sebsd_vnode_check_lookup e c dvp dl cnp k = Some (v, k') \<Longrightarrow> blown_or_same k k'"
  by (auto simp: sebsd_vnode_check_lookup_def Let_def blown_or_same_def still_armed_def disarmed_def
      sebsd_hooks_blow_lookup_fuse_def emit_def bind_eq_Some_conv split: if_splits)

lemma inv_blown_or_same:
  assumes "kext_inv k" "blown_or_same k k'"
  shows "kext_inv k'"
proof -
  let ?b = "sebsd_hooks_blow_lookup_fuse k"
  consider "still_armed k k'" | "disarmed k k'" using assms(2) by (auto simp: blown_or_same_def)
  then show ?thesis
  proof cases
    case 1
    then show ?thesis using assms by (simp add: kext_inv_def blown_or_same_def still_armed_def)
  next
    case 2
    then have "sebsd_ops k' = sebsd_ops ?b" "sebsd_hooks_enabled k' = sebsd_hooks_enabled ?b"
      by (simp_all only: disarmed_def blow_ops)
    moreover have "lifecycle_installed (sebsd_ops ?b) = lifecycle_installed (sebsd_ops k)"
      by (rule blow_fields(6))
    ultimately show ?thesis using kext_inv_blow [OF assms(1)] assms(2)
      by (auto simp: kext_inv_def blown_or_same_def)
  qed
qed

lemma inv_emit: "kext_inv k \<Longrightarrow> kext_inv (emit ls k)"
  by (simp add: kext_inv_def)

lemma dispatch_lookup:
  assumes "mask_covers (sebsd_ops k) m" "sebsd_trace_enabled k \<noteq> 0 \<longrightarrow> names_ok e \<and> cnp_ok cnp"
  shows "\<exists>k'. dispatch e (E_vnode_lookup c dvp dl cnp) k r = Some (0, k', r) \<and> blown_or_same k k'"
proof (cases "sebsd_ops k mpo_vnode_check_lookup")
  case None
  then show ?thesis by (simp add: dispatch_def blown_or_same_def still_armed_def)
next
  case (Some f)
  then have "f = F_vnode_check_lookup" using covers_at(5) [OF assms(1)] by simp
  moreover obtain k' where "sebsd_vnode_check_lookup e c dvp dl cnp k = Some (0, k')"
    using lookup_total [of e k cnp c dvp dl] assms(2) by (auto simp: trace_ok_def)
  ultimately show ?thesis using Some lookup_changes by (auto simp: dispatch_def)
qed

lemma lookup_event:
  "slot_of ev = mpo_vnode_check_lookup \<Longrightarrow> \<exists>c dvp dl cnp. ev = E_vnode_lookup c dvp dl cnp"
  by (cases ev) simp_all

section \<open>Events about the running process\<close>

text \<open>The events whose hook names no process but the running one.\<close>

fun about_self :: "event \<Rightarrow> bool" where
  "about_self (E_file_libval _ _ _ _ _) = False"
| "about_self (E_proc_signal _ _ _ _) = False"
| "about_self (E_proc_exit _) = False"
| "about_self (E_pty_grant _ _ _ _) = False"
| "about_self _ = True"

lemma self_trace_lookup:
  "sebsd_trace_lookup (e\<lparr>proc_name := f, proc_find_ident := g\<rparr>) = sebsd_trace_lookup e"
  by (simp add: fun_eq_iff sebsd_trace_lookup_def)

lemma self_lookup:
  "sebsd_vnode_check_lookup (e\<lparr>proc_name := f, proc_find_ident := g\<rparr>) = sebsd_vnode_check_lookup e"
  unfolding fun_eq_iff sebsd_vnode_check_lookup_def self_trace_lookup by simp

lemma self_call:
  assumes "about_self ev"
  shows "call_hook (e\<lparr>proc_name := f, proc_find_ident := g\<rparr>) h ev k r = call_hook e h ev k r"
  using assms
  by (cases ev) (simp_all add: self_lookup vnode_hooks empty_hooks self_hooks void_hook_def)

section \<open>Properties\<close>

text \<open>
  C2. In every state the loaded module can reach, each event of a hook slot, with any arguments the
  kernel may pass, is granted: the right function is in the slot, it returns 0, it gives back every
  process reference, and the module's invariant holds again. Any event but a lookup changes nothing
  but the log, by at most one trace line.
\<close>

theorem dispatch_granted:
  assumes "kext_reach shi P k" "\<not> lifecycle ev" "sebsd_trace_enabled k \<noteq> 0 \<longrightarrow> names_ok e \<and> event_ok ev"
  shows "\<exists>k'. dispatch e ev k r = Some (0, k', r) \<and> kext_inv k' \<and>
    (slot_of ev \<noteq> mpo_vnode_check_lookup \<longrightarrow> harmless k r (Some (0, k', r)))"
proof -
  have inv: "kext_inv k" using assms(1) by (rule kext_reach_inv)
  then have cov: "mask_covers (sebsd_ops k) (sebsd_hooks_enabled k)" by (simp add: kext_inv_def)
  show ?thesis
  proof (cases "slot_of ev = mpo_vnode_check_lookup")
    case True
    then obtain c dvp dl cnp where ev: "ev = E_vnode_lookup c dvp dl cnp" using lookup_event by blast
    then have "sebsd_trace_enabled k \<noteq> 0 \<longrightarrow> names_ok e \<and> cnp_ok cnp" using assms(3) by simp
    from dispatch_lookup [OF cov this, of c dvp dl r] show ?thesis
      using True ev inv_blown_or_same [OF inv] by auto
  next
    case False
    have h: "harmless k r (dispatch e ev k r)" by (rule dispatch_harmless [OF cov assms(2) False assms(3)])
    then obtain ls where "dispatch e ev k r = Some (0, emit ls k, r)" by (auto simp: harmless_def)
    then show ?thesis using h inv_emit [OF inv] by simp
  qed
qed

theorem dispatch_granted_witness:
  "\<exists>k'. dispatch lab (E_exec 501 1 0 0 0 0 0 (Some 1) 0 0)
      (wrote sebsd_sysctl_hooks 0x80003 started) (\<lambda>_. 0) = Some (0, k', \<lambda>_. 0) \<and> kext_inv k'"
  using dispatch_granted [OF wrote_reach(1) [OF started_reach [of user_int "\<lambda>_ _. True"]
      started_fields(1) oids_registered(1)], of "E_exec 501 1 0 0 0 0 0 (Some 1) 0 0" "0x80003" lab "\<lambda>_. 0"]
    lab_names by auto

text \<open>
  C17. With tracing off no hook but the lookup hook does anything: for every kernel, also one whose
  accessors all fail, and every argument, also pointers to nothing, the event is granted and the
  module is exactly as before. So the hooks call nothing in the kernel and follow no pointer.
\<close>

theorem dispatch_untraced:
  assumes "kext_reach shi P k" "sebsd_trace_enabled k = 0" "\<not> lifecycle ev"
    "slot_of ev \<noteq> mpo_vnode_check_lookup"
  shows "dispatch e ev k r = Some (0, k, r)"
proof -
  have "mask_covers (sebsd_ops k) (sebsd_hooks_enabled k)"
    using kext_reach_inv [OF assms(1)] by (simp add: kext_inv_def)
  then have "harmless k r (dispatch e ev k r)"
    using dispatch_harmless assms(2-4) by blast
  then show ?thesis using assms(2) by (auto simp: harmless_def emit_def)
qed

definition failing :: hook_env where
  "failing = \<lparr>uninit = (\<lambda>_ _. 0xff), current_thread = 1, current_proc = 0, proc_pid = (\<lambda>_. 0),
     proc_selfname = (\<lambda>_ _. None), proc_name = (\<lambda>_ _ _. None), proc_find_ident = (\<lambda>_. None),
     kauth_cred_getuid = (\<lambda>_. 0), major = id, minor = id\<rparr>"

lemma started_untraced: "sebsd_trace_enabled (wrote sebsd_sysctl_hooks 0x80003 started) = 0"
proof -
  have "sebsd_trace_enabled started = 0"
    by (simp add: started_def sebsd_mac_policy_register_def Let_def kext_data_def tree_simps
        emit_def SEBSD_HOOK_DEFAULT_def)
  then show ?thesis
    by (simp add: wrote_def sysctl_call_def sebsd_sysctl_hooks_def sebsd_sysctl_hooks_handler_def Let_def
        user_int_def wr_def emit_def)
qed

theorem dispatch_untraced_witness:
  "dispatch failing (E_vnode_create 501 0 0 (Some \<lparr>cn_nameiop = 0, cn_flags = 0, cn_nameptr = Some [],
      cn_namelen = 100\<rparr>) 0) (wrote sebsd_sysctl_hooks 0x80003 started) (\<lambda>_. 0) =
    Some (0, wrote sebsd_sysctl_hooks 0x80003 started, \<lambda>_. 0)"
  by (rule dispatch_untraced [OF wrote_reach(1) [OF started_reach [of user_int "\<lambda>_ _. True"]
      started_fields(1) oids_registered(1)] started_untraced]) simp_all

text \<open>
  C28. The hooks about the running process never go through the process list: with tracing on as with
  tracing off, they do the same whatever \<open>proc_name\<close> and \<open>proc_find_ident\<close> do, the two accessors
  that take \<open>proc_list_lock\<close>.
\<close>

theorem self_events_lock_free:
  assumes "about_self ev"
  shows "dispatch (e\<lparr>proc_name := f, proc_find_ident := g\<rparr>) ev k r = dispatch e ev k r"
  using self_call [OF assms] by (simp add: dispatch_def split: option.splits)

theorem self_events_lock_free_witness:
  "dispatch (lab\<lparr>proc_name := \<lambda>_ _ _. None, proc_find_ident := \<lambda>_. None\<rparr>) (E_proc_fork 501 7) started (\<lambda>_. 0) =
    dispatch lab (E_proc_fork 501 7) started (\<lambda>_. 0)"
  by (rule self_events_lock_free) simp

text \<open>
  C27. The lifecycle slots of a loaded module always answer: they print the policy's names, the 335
  slots and 2680 bytes of the operations vector, and the passed Mach-O self-test, and change nothing
  else.
\<close>

theorem lifecycle_lines:
  assumes "kext_reach shi P k" "k_loaded k"
  shows "dispatch e (E_policy_init (sebsd_policy_conf ops)) k r =
      Some (0, emit (sebsd_log ''policy init: %s'' [A_text ''SEDarwin Security Extension'']) k, r) \<and>
    dispatch e (E_policy_initbsd info (sebsd_policy_conf ops)) k r =
      Some (0, emit (sebsd_log ''policy initbsd: %s v%s registered, ops=%p (%u slots, %lu bytes)''
          [A_text ''com.beako.security.sedarwin'', A_text ''0.0.1'', A_ptr ops, A_int 335, A_long 2680] @
        sebsd_log (''macho selftest: fat=%d cputype=0x%x cpusubtype=0x%x ncmds=%d codesign=%d'')
          [A_int 0, A_int 0x0100000c, A_int 0x80000002, A_int 1, A_int 1]) k, r) \<and>
    dispatch e (E_policy_destroy (sebsd_policy_conf ops)) k r =
      Some (0, emit (sebsd_log ''policy destroy: %s'' [A_text ''com.beako.security.sedarwin'']) k, r)"
proof -
  have "lifecycle_installed (sebsd_ops k)" using kext_reach_inv [OF assms(1)] assms(2) by (simp add: kext_inv_def)
  then show ?thesis
    by (simp add: lifecycle_installed_def dispatch_def observe_def sebsd_policy_init_def
        sebsd_policy_initbsd_def sebsd_policy_destroy_def sebsd_policy_conf_def SEBSD_POLICY_NAME_def
        SEBSD_POLICY_FULLNAME_def SEBSD_POLICY_VERSION_def MAC_POLICY_OPS_SLOTS_def struct_size_ops
        selftest_line)
qed

theorem lifecycle_lines_witness:
  "dispatch failing (E_policy_init (sebsd_policy_conf 16)) started (\<lambda>_. 0) =
    Some (0, emit (sebsd_log ''policy init: %s'' [A_text ''SEDarwin Security Extension'']) started, \<lambda>_. 0)"
  using lifecycle_lines [OF started_reach [of user_int "\<lambda>_ _. True"] started_fields(1),
      of failing 16 "\<lambda>_. 0" undefined] by simp

end
