(* ===== verification/Spec2Isabelle.thy ===== *)
theory Spec2Isabelle imports Sbuf_Test_Errors Lookup_Race Lookup_Live Lookup_Mask Ladder Loader Endian Dispatch_Spec begin

text \<open>
  SEDarwin: a MAC policy module for the Darwin kernel, and the BSD string buffer library that goes
  with it.

  The program. The kext (\<open>src/kext\<close>) registers a policy with the kernel's MAC framework and exports a
  sysctl tree \<open>sedarwin\<close>. The mask \<open>hooks\<close> says which of the 335 slots of
  \<open>struct mac_policy_ops\<close> hold a function; the framework calls what it finds in a slot. Every hook only
  observes: it returns 0, and prints a line if \<open>trace\<close> is set. The lookup hook is quarantined: it
  needs a second key (\<open>unsafe\<close>), it carries a re-entry detector and counters, and a fuse that removes it
  from its slot after so many dispatches. At start a Mach-O parser is run against an image the module
  makes itself. The library (\<open>src/lib/libkern-bsd\<close>) is \<open>sbuf(9)\<close> over \<open>_MALLOC()\<close>; the kext does not call it.

  How C is read. A function whose execution may be undefined (an access outside a live object, a free
  of what is not owned, printing an array with no nul) or may not return is a HOL function into
  \<open>option\<close>; \<open>None\<close> is "no defined result". A theorem that gives \<open>Some\<close> says that the call is memory safe
  and returns. Integers are words of the width of the C type; \<open>printf\<close> is a list of lines; a C return
  value is an \<open>int\<close> of 32 bits beside the new state.

  The theories, bottom up.

    \<^item> \<open>Prelude\<close>: the C types, signed and unsigned readings of a word, writes into a byte list.
    \<^item> \<open>Kmem\<close>: the heap (live arrays, live structures, owned addresses), \<open>malloc.c\<close>, the \<open>malloc()\<close> macro of
      \<open>sys/malloc.h\<close>, and the \<open>kalloc_*\<close>/\<open>kfree_*\<close> macros of \<open>sbuf.c\<close>. Locale \<open>malloc_contract\<close>: what
      \<open>_MALLOC()\<close> documents; the wrappers keep it (\<open>kernel_malloc\<close>), and \<open>first_fit\<close> satisfies it.
    \<^item> \<open>Sbuf\<close>: \<open>struct sbuf\<close> and every function of \<open>sbuf.c\<close>, in its order. \<open>Sbuf_Inv\<close>: flags, the loop of
      \<open>sbuf_extendsize\<close>. \<open>Sbuf_Grow\<close>: the representation invariant \<open>sbuf_at\<close>, the lifetime invariant
      \<open>sbuf_over\<close>, \<open>sbuf_extend\<close>. \<open>Sbuf_Ops\<close>, \<open>Sbuf_Life\<close>: one lemma per operation against the abstract
      buffer \<open>asbuf\<close> (a text and three marks). \<open>Sbuf_Run\<close>: operations as data, and every run refines its
      abstract run. \<open>Sbuf_Spec\<close>: the properties; locales \<open>sbuf_writer\<close>, \<open>sbuf_two_writers\<close>: what the four
      writers share.
    \<^item> \<open>Sbuf_Tests\<close>: the self-test of the library, \<open>sysctl_sbuf_tests\<close>: a list of statements per section.
      \<open>Sbuf_Test_State\<close>, \<open>Sbuf_Test_Writes\<close>, \<open>Sbuf_Test_Steps\<close>: a triple for each kind of statement, from the
      lemmas of \<open>Sbuf_Ops\<close> and \<open>Sbuf_Life\<close>. \<open>Sbuf_Selftest\<close>: locale \<open>test_writer\<close>, the blocks that the sections of the four
      writers repeat; all 244 assertions hold. \<open>Sbuf_Test_Errors\<close>: the self-test when memory has run out.
    \<^item> \<open>Klog\<close>: \<open>sebsd_log\<close>, \<open>sebsd_log_debug\<close>, \<open>sebsd_tracing\<close> of \<open>kernel.h\<close>.
    \<^item> \<open>Mac_ABI\<close>: \<open>sebsd_mac.h\<close>: the descriptor and the vector of slots as lists of members, laid out by the
      rules of the C ABI; the header's static assertions hold (\<open>mac_abi_guards\<close>).
    \<^item> \<open>Policy\<close>: \<open>sebsd.h\<close> and \<open>main.c\<close>: the hook bits, \<open>sebsd_install_hooks\<close>, the eight oids and their
      handlers, registration and its undoing; record \<open>kext\<close> is the module's static data. \<open>Policy_Spec\<close>: the
      inductive set \<open>kext_reach\<close> of states (start, any sysctl call, a blown fuse, stop, each with its failures)
      and its invariant. \<open>Policy_Life\<close>: the properties; \<open>kext_life\<close> adds a record of unload attempts.
    \<^item> \<open>Trace\<close>: the helpers of \<open>kernel.h\<close> over the kernel's accessors (record \<open>hook_env\<close>). \<open>Hooks\<close>: one definition
      per hook of \<open>vnode.c\<close>, \<open>file.c\<close>, \<open>proc.c\<close>, \<open>spawn.c\<close>, \<open>net.c\<close>, \<open>tty.c\<close>. \<open>Spawn_Sig\<close>, \<open>Net_Addr\<close>: the letters of
      the code signing flags and the text of an address, against references on lists. \<open>Hooks_Spec\<close>: the
      contract of a hook as locales \<open>observer\<close> and \<open>self_observer\<close> (granted, at most one line, nothing
      touched when not tracing, and no walk of the process list), which every hook interprets.
      \<open>Hooks_Props\<close>: the properties of single hooks.
    \<^item> \<open>Lookup\<close>: the lookup hook, as one function and as atomic steps (one per load, store or atomic
      operation) of threads that interleave, re-enter, and race any number of writes of the mask, which
      store the mask and then a slot at a time. \<open>Lookup_Spec\<close>: the steps are the function, invariants of
      all runs. \<open>Lookup_Props\<close>, \<open>Lookup_Fuse\<close>: the properties.
    \<^item> \<open>Lookup_Rest\<close>: sums over all activations inside the hook. \<open>Lookup_Race\<close>: the fuse under concurrency, by an
      invariant on three such sums. \<open>Lookup_Live\<close>: infinite runs, and that a scheduled thread returns. \<open>Lookup_Mask\<close>: whatever
      overlaps, no slot holds another slot's function; two writes race as the two of \<open>Lookup_Props\<close> do; mask
      and vector agree in every run without overlap.
    \<^item> \<open>Ladder\<close>: the script \<open>tools/sedarwin-fuse-ladder\<close> as calls of the sysctl handlers and of the hook.
    \<^item> \<open>Loader\<close>: the script \<open>tools/sedarwin-load\<close> over a machine it sees through commands (record \<open>host\<close>).
      Locale \<open>module_host\<close>: what these commands show of the module; \<open>machine_host\<close> satisfies it.
    \<^item> \<open>MachO\<close>: \<open>MachO.c\<close>, with its self-test. \<open>MachO_Spec\<close>, \<open>MachO_Props\<close>: safety, reading back what a printer
      wrote, byte order.
    \<^item> \<open>Endian\<close>: \<open>sys/endian.h\<close>, on the bytes of a word in memory.
    \<^item> \<open>Dispatch\<close>: the framework's side: an event per slot, \<open>dispatch\<close> reads the slot and calls it; the lifecycle
      hooks of \<open>main.c\<close>. \<open>Dispatch_Spec\<close>: the components together: in every reachable state of the module
      every event goes to its own function and is granted.

  Loops and bounds. \<open>sbuf_double\<close> is \<open>partial_function (option)\<close>: that it returns is proved from the bound
  its caller gives it. The loops of the Mach-O parser are by recursion on the count in the header;
  an image lies below half the address space (\<open>image_ok\<close>), so that no offset wraps. \<open>lookup_alone\<close> takes a
  number of steps, and 13 are enough for one activation. The loader's loop ends by the measure
  \<open>TRIES - i\<close>. All other loops are structural.

  Parameters. \<open>_MALLOC()\<close> and the page size (record \<open>kenv\<close>); what \<open>vsnprintf()\<close> produces; the kernel's
  accessors of processes and threads and the bytes of an uninitialised array (record \<open>hook_env\<close>);
  \<open>sysctl_handle_int()\<close>; \<open>sysctl_handle_string()\<close>; where string literals and locals lie (record \<open>test_env\<close>); the results of \<open>mac_policy_register()\<close> and \<open>mac_policy_unregister()\<close>;
  the commands of the loader (record \<open>host\<close>). What a property
  needs of them is a named hypothesis (\<open>malloc_contract\<close>, \<open>names_ok\<close>, \<open>reads_only\<close>,
  \<open>copies_in\<close>, \<open>tests_ready\<close>, \<open>module_host\<close>), with an instance.

  Not modelled. The prototypes of kernel functions in \<open>kernel.h\<close> and \<open>sys/malloc.h\<close>; the \<open>_start\<close> and \<open>_stop\<close>
  glue of the kext build beyond the two functions it calls; the build files and
  the launchd job, which are configuration. Dispatches that come while the ladder writes its
  sysctls, rather than while it sleeps, are not in \<open>Ladder\<close>. The interleavings of \<open>Lookup\<close> have no unload and no
  write of the other oids in them, and stores become visible in program order.
\<close>

end
